(* ===== verification/Prelude.thy ===== *)
theory Prelude
  imports Main "HOL-Library.Char_ord" "HOL-Library.List_Lexorder" "HOL-Library.Product_Lexorder"
    "HOL-Library.Sublist" "HOL-Library.Multiset"
begin

text \<open>
  The vocabulary every component of the development shares: the types that stand for Go's
  built-in ones, the bundles of rewrite rules the component proofs draw on, and generic facts
  on lists that are not in the library.

  A Go \<open>string\<close> is a sequence of bytes, so it is a \<open>char list\<close> whose characters are bytes;
  the instances of \<open>Char_ord\<close> and \<open>List_Lexorder\<close> make \<open><\<close> on it Go's bytewise comparison.
  A Go \<open>int\<close> is a 64-bit two's complement number: where a computation can leave that range,
  the model wraps it with \<open>wrap64\<close>. \<open>time.Time\<close> is the number of nanoseconds since Go's zero
  time (so \<open>t.IsZero()\<close> is \<open>t = 0\<close>), \<open>time.Duration\<close> a number of nanoseconds.
\<close>

named_theorems go_eval \<open>rules that evaluate the model on concrete strings\<close>
named_theorems trim_simps \<open>rewrite rules for trimmed strings\<close>
named_theorems merge_simps \<open>rewrite rules for merged package metadata\<close>
named_theorems queue_simps \<open>rewrite rules for the refresh queue\<close>

type_synonym gostring = string
type_synonym gotime = int
type_synonym duration = int
type_synonym ('e, 'a) result = "'e + 'a"

abbreviation Ok :: "'a \<Rightarrow> ('e, 'a) result" where
  "Ok x \<equiv> Inr x"

abbreviation Err :: "'e \<Rightarrow> ('e, 'a) result" where
  "Err e \<equiv> Inl e"

abbreviation (input) IsZero :: "gotime \<Rightarrow> bool" where
  "IsZero t \<equiv> t = 0"

abbreviation second :: duration where
  "second \<equiv> 1000000000"

definition wrap64 :: "int \<Rightarrow> int" where
  "wrap64 n = (n + 2 ^ 63) mod 2 ^ 64 - 2 ^ 63"

section \<open>64-bit integers\<close>

lemma wrap64_range: "- (2 ^ 63) \<le> wrap64 n \<and> wrap64 n < 2 ^ 63"
proof -
  have "0 \<le> (n + 2 ^ 63) mod 2 ^ 64" and "(n + 2 ^ 63) mod 2 ^ 64 < (2 ^ 64 :: int)"
    by simp_all
  then show ?thesis by (simp add: wrap64_def)
qed

lemma wrap64_id: "- (2 ^ 63) \<le> n \<Longrightarrow> n < 2 ^ 63 \<Longrightarrow> wrap64 n = n"
  by (simp add: wrap64_def)

lemma wrap64_idem [simp]: "wrap64 (wrap64 n) = wrap64 n"
  using wrap64_range by (intro wrap64_id) auto

section \<open>Lists\<close>

text \<open>
  \<open>update_first P f xs\<close> is the loop \<open>for i := range xs { if P(xs[i]) { f(&xs[i]); return } }\<close>:
  it changes the first element that satisfies \<open>P\<close>.
\<close>

fun update_first :: "('a \<Rightarrow> bool) \<Rightarrow> ('a \<Rightarrow> 'a) \<Rightarrow> 'a list \<Rightarrow> 'a list" where
  "update_first P f [] = []"
| "update_first P f (x # xs) = (if P x then f x # xs else x # update_first P f xs)"

lemma length_update_first [simp]: "length (update_first P f xs) = length xs"
  by (induction xs) auto

lemma map_update_first:
  "(\<And>x. g (f x) = g x) \<Longrightarrow> map g (update_first P f xs) = map g xs"
  by (induction xs) auto

lemma update_first_none: "\<forall>x \<in> set xs. \<not> P x \<Longrightarrow> update_first P f xs = xs"
  by (induction xs) auto

lemma set_update_first: "set (update_first P f xs) \<subseteq> set xs \<union> f ` {x \<in> set xs. P x}"
  by (induction xs) auto

lemma find_update_first:
  "(\<And>x. P (f x) = P x) \<Longrightarrow> find P (update_first P f xs) = map_option f (find P xs)"
  by (induction xs) auto

lemma sort_remdups_set_cong:
  fixes xs ys :: "'a::linorder list"
  assumes "set xs = set ys"
  shows "sort (remdups xs) = sort (remdups ys)"
  by (rule sorted_distinct_set_unique) (use assms in auto)

lemma sort_remdups_id:
  fixes xs :: "'a::linorder list"
  assumes "sorted xs" and "distinct xs"
  shows "sort (remdups xs) = xs"
  by (rule sorted_distinct_set_unique) (use assms in auto)

lemma distinct_map_inj_find:
  assumes "distinct (map k xs)" and "x \<in> set xs"
  shows "find (\<lambda>y. k y = k x) xs = Some x"
  using assms
proof (induction xs)
  case (Cons y ys)
  then show ?case by (cases "x = y") (auto simp: image_iff)
qed simp

lemma sort_key_remdups_set_cong:
  assumes "set xs = set ys" and "inj_on k (set xs)"
  shows "sort_key k (remdups xs) = sort_key k (remdups ys)"
proof (rule sort_key_inj_key_eq)
  show "mset (remdups xs) = mset (sort_key k (remdups ys))"
    using assms(1) by (simp add: set_eq_iff_mset_remdups_eq)
qed (use assms in simp_all)

end
