(* ===== verification/GoStrings.thy ===== *)
theory GoStrings
  imports Prelude
begin

text \<open>
  The functions of Go's packages \<open>strings\<close>, \<open>strconv\<close> and \<open>unicode/utf8\<close> the program uses, on byte strings.

  \<open>TrimSpace\<close> and \<open>Fields\<close> know every character \<open>unicode.IsSpace\<close> accepts, as its UTF-8
  encoding. Case mapping (\<open>ToLower\<close>, \<open>ToUpper\<close>, \<open>EqualFold\<close>) is Go's on ASCII letters; bytes
  outside ASCII are left as they are, where Go would also fold the letters of other scripts.
\<close>

section \<open>Bytes\<close>

abbreviation byte :: "char \<Rightarrow> nat" where
  "byte c \<equiv> of_char c"

definition isDigit :: "char \<Rightarrow> bool" where
  "isDigit c \<longleftrightarrow> 48 \<le> byte c \<and> byte c \<le> 57"

definition isHexDigit :: "char \<Rightarrow> bool" where
  "isHexDigit c \<longleftrightarrow> isDigit c \<or> 97 \<le> byte c \<and> byte c \<le> 102 \<or> 65 \<le> byte c \<and> byte c \<le> 70"

definition lower_byte :: "char \<Rightarrow> char" where
  "lower_byte c = (if 65 \<le> byte c \<and> byte c \<le> 90 then char_of (byte c + 32) else c)"

definition upper_byte :: "char \<Rightarrow> char" where
  "upper_byte c = (if 97 \<le> byte c \<and> byte c \<le> 122 then char_of (byte c - 32) else c)"

definition ToLower :: "gostring \<Rightarrow> gostring" where
  "ToLower s = map lower_byte s"

definition ToUpper :: "gostring \<Rightarrow> gostring" where
  "ToUpper s = map upper_byte s"

definition EqualFold :: "gostring \<Rightarrow> gostring \<Rightarrow> bool" where
  "EqualFold s t \<longleftrightarrow> ToLower s = ToLower t"

section \<open>Prefixes, suffixes, search\<close>

definition HasPrefix :: "gostring \<Rightarrow> gostring \<Rightarrow> bool" where
  "HasPrefix s p \<longleftrightarrow> prefix p s"

definition HasSuffix :: "gostring \<Rightarrow> gostring \<Rightarrow> bool" where
  "HasSuffix s p \<longleftrightarrow> prefix (rev p) (rev s)"

definition TrimPrefix :: "gostring \<Rightarrow> gostring \<Rightarrow> gostring" where
  "TrimPrefix s p = (if HasPrefix s p then drop (length p) s else s)"

definition TrimSuffix :: "gostring \<Rightarrow> gostring \<Rightarrow> gostring" where
  "TrimSuffix s p = (if HasSuffix s p then take (length s - length p) s else s)"

definition TrimLeft :: "gostring \<Rightarrow> char list \<Rightarrow> gostring" where
  "TrimLeft s cutset = dropWhile (\<lambda>c. c \<in> set cutset) s"

definition TrimRight :: "gostring \<Rightarrow> char list \<Rightarrow> gostring" where
  "TrimRight s cutset = rev (dropWhile (\<lambda>c. c \<in> set cutset) (rev s))"

fun IndexByte :: "gostring \<Rightarrow> char \<Rightarrow> nat option" where
  "IndexByte [] c = None"
| "IndexByte (x # s) c = (if x = c then Some 0 else map_option Suc (IndexByte s c))"

fun Index :: "gostring \<Rightarrow> gostring \<Rightarrow> nat option" where
  "Index [] sub = (if sub = [] then Some 0 else None)"
| "Index (x # s) sub = (if prefix sub (x # s) then Some 0 else map_option Suc (Index s sub))"

fun LastIndex :: "gostring \<Rightarrow> gostring \<Rightarrow> nat option" where
  "LastIndex [] sub = (if sub = [] then Some 0 else None)"
| "LastIndex (x # s) sub =
     (case LastIndex s sub of
        Some i \<Rightarrow> Some (Suc i)
      | None \<Rightarrow> if prefix sub (x # s) then Some 0 else None)"

definition Contains :: "gostring \<Rightarrow> gostring \<Rightarrow> bool" where
  "Contains s sub \<longleftrightarrow> Index s sub \<noteq> None"

section \<open>Splitting and joining\<close>

text \<open>\<open>strings.Split\<close> with a separator of one byte: always at least one piece.\<close>

fun Split :: "gostring \<Rightarrow> char \<Rightarrow> gostring list" where
  "Split [] c = [[]]"
| "Split (x # s) c =
     (if x = c then [] # Split s c
      else case Split s c of [] \<Rightarrow> [[x]] | p # ps \<Rightarrow> (x # p) # ps)"

fun Join :: "gostring list \<Rightarrow> gostring \<Rightarrow> gostring" where
  "Join [] sep = []"
| "Join [s] sep = s"
| "Join (s # t # ts) sep = s @ sep @ Join (t # ts) sep"

text \<open>\<open>strings.Cut\<close> at a byte: the part before it, the part after it, whether it occurs.\<close>

definition Cut :: "gostring \<Rightarrow> char \<Rightarrow> gostring \<times> gostring \<times> bool" where
  "Cut s c = (case IndexByte s c of
     Some i \<Rightarrow> (take i s, drop (Suc i) s, True)
   | None \<Rightarrow> (s, [], False))"

section \<open>White space\<close>

text \<open>
  The number of bytes of the white-space character a string starts with, 0 if it starts with
  another character. The bytes are the UTF-8 encodings of the characters \<open>unicode.IsSpace\<close>
  accepts: the ASCII ones, U+0085, U+00A0, U+1680, U+2000 to U+200A, U+2028, U+2029, U+202F,
  U+205F and U+3000.
\<close>

definition ascii_space :: "char \<Rightarrow> bool" where
  "ascii_space c \<longleftrightarrow> byte c = 32 \<or> 9 \<le> byte c \<and> byte c \<le> 13"

definition space2 :: "char \<Rightarrow> char \<Rightarrow> bool" where
  "space2 a b \<longleftrightarrow> byte a = 194 \<and> (byte b = 133 \<or> byte b = 160)"

definition space3 :: "char \<Rightarrow> char \<Rightarrow> char \<Rightarrow> bool" where
  "space3 a b c \<longleftrightarrow>
     byte a = 225 \<and> byte b = 154 \<and> byte c = 128 \<or>
     byte a = 226 \<and> byte b = 128 \<and>
       (128 \<le> byte c \<and> byte c \<le> 138 \<or> byte c = 168 \<or> byte c = 169 \<or> byte c = 175) \<or>
     byte a = 226 \<and> byte b = 129 \<and> byte c = 159 \<or>
     byte a = 227 \<and> byte b = 128 \<and> byte c = 128"

fun space_prefix :: "gostring \<Rightarrow> nat" where
  "space_prefix [] = 0"
| "space_prefix [a] = (if ascii_space a then 1 else 0)"
| "space_prefix [a, b] = (if ascii_space a then 1 else if space2 a b then 2 else 0)"
| "space_prefix (a # b # c # _) =
     (if ascii_space a then 1 else if space2 a b then 2 else if space3 a b c then 3 else 0)"

text \<open>The same on a reversed string, for trimming at the end.\<close>

fun space_prefix_rev :: "gostring \<Rightarrow> nat" where
  "space_prefix_rev [] = 0"
| "space_prefix_rev [a] = (if ascii_space a then 1 else 0)"
| "space_prefix_rev [b, a] = (if ascii_space b then 1 else if space2 a b then 2 else 0)"
| "space_prefix_rev (c # b # a # _) =
     (if ascii_space c then 1 else if space2 b c then 2 else if space3 a b c then 3 else 0)"

function skip_spaces :: "(gostring \<Rightarrow> nat) \<Rightarrow> gostring \<Rightarrow> gostring" where
  "skip_spaces sp s = (if s = [] \<or> sp s = 0 then s else skip_spaces sp (drop (sp s) s))"
  by pat_completeness auto
termination by (relation "measure (\<lambda>(sp, s). length s)") auto

definition TrimSpace :: "gostring \<Rightarrow> gostring" where
  "TrimSpace s =
     rev (skip_spaces space_prefix_rev (rev (skip_spaces space_prefix s)))"

text \<open>\<open>strings.Fields\<close>: the maximal runs without white space.\<close>

function fields_acc :: "gostring \<Rightarrow> gostring \<Rightarrow> gostring list" where
  "fields_acc cur [] = (if cur = [] then [] else [rev cur])"
| "fields_acc cur (x # s) =
     (if space_prefix (x # s) = 0 then fields_acc (x # cur) s
      else (if cur = [] then [] else [rev cur]) @
           fields_acc [] (drop (space_prefix (x # s)) (x # s)))"
  by pat_completeness auto
termination by (relation "measure (\<lambda>(cur, s). length s)") auto

definition Fields :: "gostring \<Rightarrow> gostring list" where
  "Fields s = fields_acc [] s"

section \<open>Code points\<close>

text \<open>The bytes of the next code point as \<open>utf8.RuneCountInString\<close> walks a string; a byte that starts no valid encoding counts alone.\<close>

definition continuation :: "nat \<times> nat \<Rightarrow> char \<Rightarrow> bool" where
  "continuation bounds c \<longleftrightarrow> fst bounds \<le> byte c \<and> byte c \<le> snd bounds"

definition rune_bytes :: "nat \<Rightarrow> nat" where
  "rune_bytes n =
     (if 0xC2 \<le> n \<and> n \<le> 0xDF then 2 else if 0xE0 \<le> n \<and> n \<le> 0xEF then 3
      else if 0xF0 \<le> n \<and> n \<le> 0xF4 then 4 else 1)"

definition second_byte :: "nat \<Rightarrow> nat \<times> nat" where
  "second_byte n =
     (if n = 0xE0 then (0xA0, 0xBF) else if n = 0xED then (0x80, 0x9F)
      else if n = 0xF0 then (0x90, 0xBF) else if n = 0xF4 then (0x80, 0x8F) else (0x80, 0xBF))"

definition valid_rune :: "char \<Rightarrow> gostring \<Rightarrow> bool" where
  "valid_rune b s \<longleftrightarrow>
     rune_bytes (byte b) \<le> length s + 1 \<and> rune_bytes (byte b) > 1 \<and> continuation (second_byte (byte b)) (s ! 0) \<and>
     list_all (continuation (0x80, 0xBF)) (take (rune_bytes (byte b) - 2) (drop 1 s))"

fun rune_width :: "gostring \<Rightarrow> nat" where
  "rune_width [] = 0"
| "rune_width (b # s) = (if valid_rune b s then rune_bytes (byte b) else 1)"

lemma rune_width_pos: "s \<noteq> [] \<Longrightarrow> 0 < rune_width s \<and> rune_width s \<le> length s"
  by (cases s) (auto simp: valid_rune_def)

function RuneCountInString :: "gostring \<Rightarrow> nat" where
  "RuneCountInString s = (if s = [] then 0 else Suc (RuneCountInString (drop (rune_width s) s)))"
  by pat_completeness auto

termination
proof (relation "measure length")
  show "(drop (rune_width s) s, s) \<in> measure length" if "s \<noteq> []" for s
    using rune_width_pos [OF that] that by simp
qed simp

declare RuneCountInString.simps [simp del]

lemmas [code] = RuneCountInString.simps

section \<open>Decimal numbers\<close>

fun digits_rev :: "nat \<Rightarrow> nat list" where
  "digits_rev n = (if n < 10 then [n] else n mod 10 # digits_rev (n div 10))"

definition Itoa :: "int \<Rightarrow> gostring" where
  "Itoa n = (if n < 0 then ''-'' else []) @
     rev (map (\<lambda>d. char_of (48 + d)) (digits_rev (nat \<bar>n\<bar>)))"

declare digits_rev.simps [simp del] skip_spaces.simps [simp del]

lemmas [code] = digits_rev.simps skip_spaces.simps

section \<open>Trimming\<close>

lemma skip_spaces_Nil [simp]: "skip_spaces sp [] = []"
  by (simp add: skip_spaces.simps)

lemma skip_spaces_zero: "sp s = 0 \<Longrightarrow> skip_spaces sp s = s"
  by (simp add: skip_spaces.simps)

lemma skip_spaces_stops: "sp [] = 0 \<Longrightarrow> sp (skip_spaces sp s) = 0"
proof (induction sp s rule: skip_spaces.induct)
  case (1 sp s)
  then show ?case by (cases "s = [] \<or> sp s = 0") (auto simp: skip_spaces.simps [of sp s])
qed

lemma skip_spaces_suffix: "suffix (skip_spaces sp s) s"
proof (induction sp s rule: skip_spaces.induct)
  case (1 sp s)
  show ?case
  proof (cases "s = [] \<or> sp s = 0")
    case True
    then show ?thesis by (auto simp: skip_spaces.simps [of sp s])
  next
    case False
    with "1.IH" have "suffix (skip_spaces sp (drop (sp s) s)) (drop (sp s) s)" by simp
    also have "suffix (drop (sp s) s) s" by (rule suffix_drop)
    finally show ?thesis using False by (simp add: skip_spaces.simps [of sp s])
  qed
qed

lemma space_prefix_Nil [simp]: "space_prefix [] = 0" and "space_prefix_rev [] = 0"
  by simp_all

lemma space_prefix_Cons:
  "space_prefix (a # s) =
     (if ascii_space a then 1
      else case s of [] \<Rightarrow> 0
        | b # s' \<Rightarrow> if space2 a b then 2
            else (case s' of [] \<Rightarrow> 0 | c # _ \<Rightarrow> if space3 a b c then 3 else 0))"
  by (auto split: list.splits)

lemma space_prefix_mono:
  assumes "prefix t s" and "space_prefix s = 0"
  shows "space_prefix t = 0"
proof (rule ccontr)
  assume t: "space_prefix t \<noteq> 0"
  from assms(1) obtain r where "s = t @ r" by (auto simp: prefix_def)
  with t have "space_prefix s \<noteq> 0"
    by (induction t rule: space_prefix.induct) (auto simp: space_prefix_Cons split: if_splits)
  with assms(2) show False by simp
qed

lemma TrimSpace_no_left: "space_prefix (TrimSpace s) = 0"
proof (rule space_prefix_mono)
  show "prefix (TrimSpace s) (skip_spaces space_prefix s)"
    unfolding TrimSpace_def by (metis rev_rev_ident skip_spaces_suffix suffix_to_prefix)
  show "space_prefix (skip_spaces space_prefix s) = 0"
    by (rule skip_spaces_stops) simp
qed

lemma TrimSpace_no_right: "space_prefix_rev (rev (TrimSpace s)) = 0"
  unfolding TrimSpace_def by (simp add: skip_spaces_stops)

text \<open>A string with no white space at either end is what trimming returns and keeps.\<close>

lemma TrimSpace_id:
  "space_prefix s = 0 \<Longrightarrow> space_prefix_rev (rev s) = 0 \<Longrightarrow> TrimSpace s = s"
  by (simp add: TrimSpace_def skip_spaces_zero)

text \<open>A byte of ASCII that is no white space starts and ends no white-space character.\<close>

lemma TrimSpace_plain:
  assumes "\<forall>c \<in> set s. byte c < 128 \<and> \<not> ascii_space c"
  shows "TrimSpace s = s"
proof (rule TrimSpace_id)
  show "space_prefix s = 0"
    using assms by (cases s rule: space_prefix.cases) (auto simp: space2_def space3_def)
  show "space_prefix_rev (rev s) = 0"
    using assms by (cases "rev s" rule: space_prefix_rev.cases)
      (auto simp: space2_def space3_def dest!: arg_cong [of "rev s" _ set])
qed

lemma TrimSpace_idem [simp]: "TrimSpace (TrimSpace s) = TrimSpace s"
  by (rule TrimSpace_id) (rule TrimSpace_no_left, rule TrimSpace_no_right)

lemma TrimSpace_Nil [simp]: "TrimSpace [] = []"
  by (simp add: TrimSpace_def)

lemma length_TrimSpace: "length (TrimSpace s) \<le> length s"
proof -
  have "length (skip_spaces sp t) \<le> length t" for sp t
    by (rule suffix_length_le [OF skip_spaces_suffix])
  from this [of space_prefix_rev "rev (skip_spaces space_prefix s)"] this [of space_prefix s]
  show ?thesis by (simp add: TrimSpace_def)
qed

section \<open>Splitting\<close>

lemma Split_not_Nil [simp]: "Split s c \<noteq> []"
  by (induction s) (auto split: list.splits)

lemma Join_Split: "Join (Split s c) [c] = s"
proof (induction s)
  case (Cons x s)
  then show ?case by (cases "Split s c" rule: list.exhaust; cases "tl (Split s c)") auto
qed simp

lemma Split_none: "c \<notin> set p \<Longrightarrow> Split p c = [p]"
  by (induction p) auto

lemma Split_append: "c \<notin> set p \<Longrightarrow> Split (p @ c # t) c = p # Split t c"
  by (induction p) auto

lemma Split_Join: "ps \<noteq> [] \<Longrightarrow> \<forall>p \<in> set ps. c \<notin> set p \<Longrightarrow> Split (Join ps [c]) c = ps"
  by (induction ps "[c]" rule: Join.induct) (auto simp: Split_none Split_append)

lemma Split_pieces: "p \<in> set (Split s c) \<Longrightarrow> c \<notin> set p"
  by (induction s arbitrary: p) (auto split: if_splits list.splits)

lemma IndexByte_None_iff: "IndexByte s c = None \<longleftrightarrow> c \<notin> set s"
  by (induction s) auto

lemma IndexByte_None: "c \<notin> set s \<Longrightarrow> IndexByte s c = None"
  by (simp add: IndexByte_None_iff)

lemma IndexByte_SomeD:
  "IndexByte s c = Some i \<Longrightarrow> i < length s \<and> s ! i = c \<and> c \<notin> set (take i s)"
  by (induction s arbitrary: i) (auto split: if_splits)

lemma IndexByte_append: "c \<notin> set s \<Longrightarrow> IndexByte (s @ c # t) c = Some (length s)"
  by (induction s) auto

section \<open>Case\<close>

lemma lower_byte_idem [simp]: "lower_byte (lower_byte c) = lower_byte c"
  by (auto simp: lower_byte_def)

lemma ToLower_idem [simp]: "ToLower (ToLower s) = ToLower s"
  by (simp add: ToLower_def)

lemma ToLower_append [simp]: "ToLower (s @ t) = ToLower s @ ToLower t"
  by (simp add: ToLower_def)

lemma EqualFold_refl [simp]: "EqualFold s s"
  by (simp add: EqualFold_def)

section \<open>Printed numbers\<close>

lemma digits_rev_less: "d \<in> set (digits_rev n) \<Longrightarrow> d < 10"
proof (induction n rule: digits_rev.induct)
  case (1 n)
  then show ?case by (cases "n < 10") (auto simp: digits_rev.simps [of n])
qed

lemma digits_rev_not_Nil: "digits_rev n \<noteq> []"
  by (simp add: digits_rev.simps [of n])

lemma digits_rev_value: "foldr (\<lambda>d n. n * 10 + int d) (digits_rev n) 0 = int n"
proof (induction n rule: digits_rev.induct)
  case (1 n)
  have "int (n div 10) * 10 + int (n mod 10) = int n"
    by (metis div_mult_mod_eq of_nat_add of_nat_mult of_nat_numeral)
  with 1 show ?case by (cases "n < 10") (auto simp: digits_rev.simps [of n])
qed

text \<open>A digit of a printed number as a byte.\<close>

abbreviation digit_char :: "nat \<Rightarrow> char" where
  "digit_char d \<equiv> char_of (48 + d)"

lemma digit_char_byte: "d < 10 \<Longrightarrow> byte (digit_char d) = 48 + d"
  by simp

lemma digits_rev_inj:
  assumes "digits_rev m = digits_rev n"
  shows "m = n"
  using digits_rev_value [of m] digits_rev_value [of n] unfolding assms by (metis of_nat_eq_iff)

lemma digit_chars_inj:
  assumes "map digit_char xs = map digit_char ys" and "\<forall>d \<in> set xs. d < 10" and "\<forall>d \<in> set ys. d < 10"
  shows "xs = ys"
proof -
  have "map (\<lambda>c. byte c - 48) (map digit_char zs) = zs" if "\<forall>d \<in> set zs. d < 10" for zs
    using that by (induction zs) (simp_all add: digit_char_byte)
  from this [OF assms(2)] this [OF assms(3)] show ?thesis unfolding assms(1) by simp
qed

definition digits_text :: "nat \<Rightarrow> gostring" where
  "digits_text n = map digit_char (rev (digits_rev n))"

lemma Itoa_text: "Itoa n = (if n < 0 then [CHR ''-''] else []) @ digits_text (nat \<bar>n\<bar>)"
  by (simp add: Itoa_def digits_text_def rev_map)

lemma digits_text_isDigit: "c \<in> set (digits_text n) \<Longrightarrow> isDigit c"
  using digits_rev_less by (fastforce simp: digits_text_def isDigit_def)

lemma digits_text_inj:
  assumes "digits_text m = digits_text n"
  shows "m = n"
proof -
  have "rev (digits_rev m) = rev (digits_rev n)"
    by (rule digit_chars_inj [OF assms [unfolded digits_text_def]]) (auto dest: digits_rev_less)
  then show ?thesis using digits_rev_inj by blast
qed

lemma Itoa_bytes: "c \<in> set (Itoa n) \<Longrightarrow> isDigit c \<or> c = CHR ''-''"
  by (auto simp: Itoa_text dest: digits_text_isDigit split: if_splits)

lemma Itoa_inj:
  assumes "Itoa m = Itoa n"
  shows "m = n"
proof -
  have "\<not> isDigit (CHR ''-'')" by (simp add: isDigit_def)
  then have minus: "digits_text k \<noteq> CHR ''-'' # cs" for k cs using digits_text_isDigit [of "CHR ''-''" k] by auto
  show ?thesis
  proof (cases "m < 0")
    case neg: True
    then have "n < 0" using assms minus [of "nat n" "digits_text (nat (- m))"] by (auto simp: Itoa_text dest: sym split: if_splits)
    then have "nat \<bar>m\<bar> = nat \<bar>n\<bar>" using assms neg by (intro digits_text_inj) (simp add: Itoa_text)
    then show ?thesis using neg \<open>n < 0\<close> by simp
  next
    case pos: False
    then have "\<not> n < 0" using assms minus [of "nat m" "digits_text (nat (- n))"] by (auto simp: Itoa_text)
    then have "nat \<bar>m\<bar> = nat \<bar>n\<bar>" using assms pos by (intro digits_text_inj) (simp add: Itoa_text)
    then show ?thesis using pos \<open>\<not> n < 0\<close> by simp
  qed
qed

lemmas string_defs [go_eval] =
  ToLower_def ToUpper_def lower_byte_def upper_byte_def EqualFold_def isDigit_def isHexDigit_def
  HasPrefix_def HasSuffix_def TrimPrefix_def TrimSuffix_def TrimLeft_def TrimRight_def
  Contains_def Cut_def TrimSpace_def skip_spaces.simps ascii_space_def space2_def space3_def
  Fields_def Itoa_def digits_rev.simps

end
