(* ===== verification/Comparators.thy ===== *)
theory Comparators
  imports Prelude
begin

text \<open>
  The contract of a three-way comparison, as Go's \<open>cmp\<close> functions promise it: the result is
  -1, 0 or 1, swapping the arguments swaps the sign, and "at most" is transitive. Every
  comparator of \<open>internal/version\<close> is shown to be an instance (in theory \<open>Version\<close>), so the
  range matcher and the search for the lowest fix reason about versions through this interface
  and never through the strings.
\<close>

section \<open>The interface\<close>

locale three_way =
  fixes cmp :: "'a \<Rightarrow> 'a \<Rightarrow> int"
  assumes cmp_range: "cmp a b = -1 \<or> cmp a b = 0 \<or> cmp a b = 1"
    and cmp_swap: "cmp b a = - cmp a b"
    and cmp_le_trans: "cmp a b \<le> 0 \<Longrightarrow> cmp b c \<le> 0 \<Longrightarrow> cmp a c \<le> 0"
begin

lemma cmp_refl: "cmp a a = 0"
  using cmp_swap [of a a] by simp

lemma cmp_ge_iff: "0 \<le> cmp a b \<longleftrightarrow> cmp b a \<le> 0"
  using cmp_swap [of a b] by simp

lemma cmp_le_less_trans: "cmp a b \<le> 0 \<Longrightarrow> cmp b c < 0 \<Longrightarrow> cmp a c < 0"
  using cmp_le_trans [of c a b] cmp_swap [of a c] cmp_swap [of b c] by linarith

lemma cmp_less_le_trans: "cmp a b < 0 \<Longrightarrow> cmp b c \<le> 0 \<Longrightarrow> cmp a c < 0"
  using cmp_le_trans [of b c a] cmp_swap [of a c] cmp_swap [of a b] by linarith

lemma cmp_eq_cong: "cmp a b = 0 \<Longrightarrow> cmp a c = cmp b c"
  using cmp_le_trans [of a b c] cmp_le_trans [of b a c] cmp_le_trans [of c a b]
    cmp_le_trans [of c b a] cmp_range [of a c] cmp_range [of b c]
    cmp_swap [of a b] cmp_swap [of a c] cmp_swap [of b c]
  by linarith

lemma cmp_eq_cong2: "cmp a b = 0 \<Longrightarrow> cmp c a = cmp c b"
  using cmp_eq_cong [of a b c] cmp_swap [of a c] cmp_swap [of b c] by simp

text \<open>
  A running minimum, as the code keeps one: replace the best candidate when a candidate is
  strictly lower. The result is one of the candidates and none of them is below it.
\<close>

lemma running_min:
  assumes "b = fold (\<lambda>x best. if cmp x best < 0 then x else best) xs x0"
  shows "b \<in> insert x0 (set xs)" and "\<forall>x \<in> insert x0 (set xs). cmp b x \<le> 0"
proof -
  have "b \<in> insert x0 (set xs) \<and> (\<forall>x \<in> insert x0 (set xs). cmp b x \<le> 0)"
    using assms
  proof (induction xs arbitrary: x0)
    case Nil
    then show ?case by (simp add: cmp_refl)
  next
    case (Cons y ys)
    define x1 where "x1 = (if cmp y x0 < 0 then y else x0)"
    have IH: "b \<in> insert x1 (set ys) \<and> (\<forall>x \<in> insert x1 (set ys). cmp b x \<le> 0)"
      using Cons by (simp add: x1_def)
    moreover have "cmp x1 x0 \<le> 0" and "cmp x1 y \<le> 0"
      using cmp_swap [of y x0] by (auto simp: x1_def cmp_refl)
    ultimately show ?case
      by (auto simp: x1_def split: if_splits intro: cmp_le_trans)
  qed
  then show "b \<in> insert x0 (set xs)" and "\<forall>x \<in> insert x0 (set xs). cmp b x \<le> 0"
    by auto
qed

end

section \<open>Building comparators\<close>

text \<open>Comparison in a linear order: the code's chains of \<open>if a < b\<close> and \<open>if a > b\<close>.\<close>

definition cmp3 :: "'a::linorder \<Rightarrow> 'a \<Rightarrow> int" where
  "cmp3 a b = (if a < b then -1 else if b < a then 1 else 0)"

interpretation cmp3: three_way cmp3
  by unfold_locales (auto simp: cmp3_def split: if_splits)

lemma three_way_const: "three_way (\<lambda>a b. 0)"
  by unfold_locales auto

lemma three_way_cong:
  assumes "three_way f" and "\<And>a b. g a b = f a b"
  shows "three_way g"
proof -
  have "g = f" by (intro ext) (rule assms(2))
  with assms(1) show ?thesis by simp
qed

lemma three_way_vimage: "three_way f \<Longrightarrow> three_way (\<lambda>a b. f (k a) (k b))"
  unfolding three_way_def by blast

text \<open>First by one comparator, then, where it finds no difference, by another.\<close>

lemma three_way_lex:
  assumes "three_way f" and "three_way g"
  shows "three_way (\<lambda>a b. if f a b \<noteq> 0 then f a b else g a b)"
proof
  fix a b c
  show "(if f a b \<noteq> 0 then f a b else g a b) = -1 \<or> (if f a b \<noteq> 0 then f a b else g a b) = 0
    \<or> (if f a b \<noteq> 0 then f a b else g a b) = 1"
    using assms three_way.cmp_range by metis
  show "(if f b a \<noteq> 0 then f b a else g b a) = - (if f a b \<noteq> 0 then f a b else g a b)"
    using three_way.cmp_swap [OF assms(1), of a b] three_way.cmp_swap [OF assms(2), of a b] by simp
  assume ab: "(if f a b \<noteq> 0 then f a b else g a b) \<le> 0"
    and bc: "(if f b c \<noteq> 0 then f b c else g b c) \<le> 0"
  from ab bc have le: "f a b \<le> 0" "f b c \<le> 0" by (auto split: if_splits)
  show "(if f a c \<noteq> 0 then f a c else g a c) \<le> 0"
  proof (cases "f a b = 0 \<and> f b c = 0")
    case True
    with ab bc have "g a b \<le> 0" "g b c \<le> 0" by simp_all
    then have "g a c \<le> 0" by (rule three_way.cmp_le_trans [OF assms(2)])
    moreover have "f a c = 0" using True three_way.cmp_eq_cong [OF assms(1), of a b c] by simp
    ultimately show ?thesis by simp
  next
    case False
    with le have "f a c < 0"
      using three_way.cmp_le_less_trans [OF assms(1), of a b c]
        three_way.cmp_less_le_trans [OF assms(1), of a b c] by linarith
    then show ?thesis by simp
  qed
qed

text \<open>
  Lexicographic comparison of two sequences up to a position; the sequences of the code are
  finite and extended by a default element, which is how its loops read a missing segment.
\<close>

fun lex_upto :: "('a \<Rightarrow> 'a \<Rightarrow> int) \<Rightarrow> nat \<Rightarrow> (nat \<Rightarrow> 'a) \<Rightarrow> (nat \<Rightarrow> 'a) \<Rightarrow> int" where
  "lex_upto c 0 f g = 0"
| "lex_upto c (Suc n) f g =
     (if c (f 0) (g 0) \<noteq> 0 then c (f 0) (g 0) else lex_upto c n (f \<circ> Suc) (g \<circ> Suc))"

fun pad_cmp :: "('a \<Rightarrow> 'a \<Rightarrow> int) \<Rightarrow> 'a \<Rightarrow> 'a list \<Rightarrow> 'a list \<Rightarrow> int" where
  "pad_cmp c z [] [] = 0"
| "pad_cmp c z (x # xs) [] = (if c x z \<noteq> 0 then c x z else pad_cmp c z xs [])"
| "pad_cmp c z [] (y # ys) = (if c z y \<noteq> 0 then c z y else pad_cmp c z [] ys)"
| "pad_cmp c z (x # xs) (y # ys) = (if c x y \<noteq> 0 then c x y else pad_cmp c z xs ys)"

definition padded :: "'a \<Rightarrow> 'a list \<Rightarrow> nat \<Rightarrow> 'a" where
  "padded z xs i = (if i < length xs then xs ! i else z)"

lemma padded_simps [simp]:
  "padded z [] = (\<lambda>_. z)" "padded z (x # xs) 0 = x"
  "padded z (x # xs) \<circ> Suc = padded z xs" "(\<lambda>_. z) \<circ> Suc = (\<lambda>_. z)"
  by (auto simp: padded_def fun_eq_iff)

lemma three_way_lex_upto: "three_way c \<Longrightarrow> three_way (lex_upto c n)"
proof (induction n)
  case 0
  then show ?case using three_way_const by simp
next
  case (Suc n)
  have "three_way (\<lambda>f g. c (f 0) (g 0))"
    using Suc.prems by (rule three_way_vimage)
  moreover have "three_way (\<lambda>f g. lex_upto c n (f \<circ> Suc) (g \<circ> Suc))"
    by (rule three_way_vimage [of "lex_upto c n"]) (rule Suc.IH [OF Suc.prems])
  ultimately show ?case using three_way_lex by simp
qed

lemma lex_upto_same:
  assumes "three_way c"
  shows "lex_upto c n (\<lambda>_. z) (\<lambda>_. z) = 0"
  by (induction n) (simp_all add: three_way.cmp_refl [OF assms])

lemma pad_cmp_lex_upto:
  assumes "three_way c"
  shows "length xs \<le> n \<Longrightarrow> length ys \<le> n \<Longrightarrow>
    pad_cmp c z xs ys = lex_upto c n (padded z xs) (padded z ys)"
  using assms
proof (induction c z xs ys arbitrary: n rule: pad_cmp.induct)
  case (1 c z)
  then show ?case by (simp add: lex_upto_same)
next
  case (2 c z x xs)
  then show ?case by (cases n) auto
next
  case (3 c z y ys)
  then show ?case by (cases n) auto
next
  case (4 c z x xs y ys)
  then show ?case by (cases n) auto
qed

lemma three_way_pad_cmp:
  assumes "three_way c"
  shows "three_way (pad_cmp c z)"
proof
  fix as bs cs :: "'a list"
  define n where "n = length as + length bs + length cs"
  note eqs = pad_cmp_lex_upto [OF assms, of as n bs z] pad_cmp_lex_upto [OF assms, of bs n as z]
    pad_cmp_lex_upto [OF assms, of bs n cs z] pad_cmp_lex_upto [OF assms, of as n cs z]
  note lex = three_way_lex_upto [OF assms, of n]
  show "pad_cmp c z as bs = -1 \<or> pad_cmp c z as bs = 0 \<or> pad_cmp c z as bs = 1"
    using eqs(1) three_way.cmp_range [OF lex, of "padded z as" "padded z bs"] by (simp add: n_def)
  show "pad_cmp c z bs as = - pad_cmp c z as bs"
    using eqs(1,2) three_way.cmp_swap [OF lex, of "padded z bs" "padded z as"]
    by (simp add: n_def)
  assume "pad_cmp c z as bs \<le> 0" and "pad_cmp c z bs cs \<le> 0"
  then show "pad_cmp c z as cs \<le> 0"
    using eqs three_way.cmp_le_trans [OF lex, of "padded z as" "padded z bs" "padded z cs"]
    by (simp add: n_def)
qed

text \<open>Comparison where a missing element is below every element.\<close>

fun cmp_opt :: "('a \<Rightarrow> 'a \<Rightarrow> int) \<Rightarrow> 'a option \<Rightarrow> 'a option \<Rightarrow> int" where
  "cmp_opt c None None = 0"
| "cmp_opt c None (Some y) = -1"
| "cmp_opt c (Some x) None = 1"
| "cmp_opt c (Some x) (Some y) = c x y"

lemma three_way_cmp_opt: "three_way c \<Longrightarrow> three_way (cmp_opt c)"
proof
  fix a b d :: "'a option"
  assume c: "three_way c"
  show "cmp_opt c a b = -1 \<or> cmp_opt c a b = 0 \<or> cmp_opt c a b = 1"
    using three_way.cmp_range [OF c] by (cases a; cases b) simp_all
  show "cmp_opt c b a = - cmp_opt c a b"
    by (cases a; cases b) (simp_all, rule three_way.cmp_swap [OF c])
  assume "cmp_opt c a b \<le> 0" and "cmp_opt c b d \<le> 0"
  then show "cmp_opt c a d \<le> 0"
    by (cases a; cases b; cases d) (auto intro: three_way.cmp_le_trans [OF c])
qed

end
