(* ===== verification/Version.thy ===== *)
theory Version
  imports GoStrings Comparators
begin

text \<open>
  The version comparators of \<open>internal/version/compare.go\<close>: semantic versions, NuGet, PEP 440
  (Python) and Maven, and the dispatch \<open>Compare\<close> on the range type and the ecosystem. Numbers
  inside versions are Go \<open>int\<close>s and wrap at 64 bits (\<open>wrap64\<close>).

  The lemmas show that every comparator is a three-way comparison (the interface of theory
  \<open>Comparators\<close>), for all strings, and the precedence rules each of them applies.
\<close>

section \<open>Numbers in versions\<close>

definition digit_val :: "char \<Rightarrow> int" where
  "digit_val c = int (byte c) - 48"

fun parseLeadingInt_loop :: "int \<Rightarrow> gostring \<Rightarrow> int" where
  "parseLeadingInt_loop n [] = n"
| "parseLeadingInt_loop n (c # s) =
     (if isDigit c then parseLeadingInt_loop (wrap64 (n * 10 + digit_val c)) s else n)"

definition parseLeadingInt :: "gostring \<Rightarrow> int" where
  "parseLeadingInt s = parseLeadingInt_loop 0 s"

fun parseInt_loop :: "int \<Rightarrow> gostring \<Rightarrow> int" where
  "parseInt_loop n [] = n"
| "parseInt_loop n (c # s) =
     (if isDigit c then parseInt_loop (wrap64 (n * 10 + digit_val c)) s else parseInt_loop n s)"

definition parseInt :: "gostring \<Rightarrow> int" where
  "parseInt s = parseInt_loop 0 s"

fun isNumeric_loop :: "int \<Rightarrow> gostring \<Rightarrow> bool \<times> int" where
  "isNumeric_loop n [] = (True, n)"
| "isNumeric_loop n (c # s) =
     (if isDigit c then isNumeric_loop (wrap64 (n * 10 + digit_val c)) s else (False, 0))"

definition isNumeric :: "gostring \<Rightarrow> bool \<times> int" where
  "isNumeric s = (if s = [] then (False, 0) else isNumeric_loop 0 s)"

section \<open>Semantic versions\<close>

definition stripBuildMeta :: "gostring \<Rightarrow> gostring" where
  "stripBuildMeta v = (case IndexByte v (CHR ''+'') of Some i \<Rightarrow> take i v | None \<Rightarrow> v)"

definition normalizeSemverInput :: "gostring \<Rightarrow> gostring" where
  "normalizeSemverInput v =
     (let v = TrimSpace v;
          v = (case v of
                 x # y # r \<Rightarrow>
                   if (x = CHR ''v'' \<or> x = CHR ''V'') \<and> isDigit y then y # r else v
               | _ \<Rightarrow> v)
      in stripBuildMeta v)"

definition splitPrerelease :: "gostring \<Rightarrow> gostring \<times> gostring" where
  "splitPrerelease v =
     (case IndexByte v (CHR ''-'') of
        Some i \<Rightarrow> if 0 < i then (take i v, drop (i + 1) v) else (v, [])
      | None \<Rightarrow> (v, []))"

fun compareRelease_loop :: "gostring list \<Rightarrow> gostring list \<Rightarrow> int" where
  "compareRelease_loop [] [] = 0"
| "compareRelease_loop (a # as) [] =
     (let numA = parseLeadingInt a; numB = parseLeadingInt []
      in if numA < numB then -1 else if numA > numB then 1 else compareRelease_loop as [])"
| "compareRelease_loop [] (b # bs) =
     (let numA = parseLeadingInt []; numB = parseLeadingInt b
      in if numA < numB then -1 else if numA > numB then 1 else compareRelease_loop [] bs)"
| "compareRelease_loop (a # as) (b # bs) =
     (let numA = parseLeadingInt a; numB = parseLeadingInt b
      in if numA < numB then -1 else if numA > numB then 1 else compareRelease_loop as bs)"

definition compareRelease :: "gostring \<Rightarrow> gostring \<Rightarrow> int" where
  "compareRelease a b = compareRelease_loop (Split a (CHR ''.'')) (Split b (CHR ''.''))"

fun comparePrereleaseIdentifiers_loop :: "gostring list \<Rightarrow> gostring list \<Rightarrow> int" where
  "comparePrereleaseIdentifiers_loop [] [] = 0"
| "comparePrereleaseIdentifiers_loop [] (b # bs) = -1"
| "comparePrereleaseIdentifiers_loop (a # as) [] = 1"
| "comparePrereleaseIdentifiers_loop (sa # as) (sb # bs) =
     (case (isNumeric sa, isNumeric sb) of
        ((isNumA, numA), (isNumB, numB)) \<Rightarrow>
          if isNumA \<and> isNumB then
            (if numA < numB then -1 else if numA > numB then 1
             else comparePrereleaseIdentifiers_loop as bs)
          else if isNumA then -1
          else if isNumB then 1
          else if sa < sb then -1
          else if sa > sb then 1
          else comparePrereleaseIdentifiers_loop as bs)"

definition comparePrereleaseIdentifiers :: "gostring \<Rightarrow> gostring \<Rightarrow> int" where
  "comparePrereleaseIdentifiers a b =
     comparePrereleaseIdentifiers_loop (Split a (CHR ''.'')) (Split b (CHR ''.''))"

definition comparePrereleaseStrings :: "gostring \<Rightarrow> gostring \<Rightarrow> int" where
  "comparePrereleaseStrings preA preB =
     (if preA = [] \<and> preB = [] then 0
      else if preA = [] then 1
      else if preB = [] then -1
      else comparePrereleaseIdentifiers preA preB)"

definition compareSemver :: "gostring \<Rightarrow> gostring \<Rightarrow> int" where
  "compareSemver a b =
     (case (splitPrerelease (normalizeSemverInput a), splitPrerelease (normalizeSemverInput b)) of
        ((releaseA, preA), (releaseB, preB)) \<Rightarrow>
          let c = compareRelease releaseA releaseB
          in if c \<noteq> 0 then c else comparePrereleaseStrings preA preB)"

definition normalizeNuGetVersionInput :: "gostring \<Rightarrow> gostring" where
  "normalizeNuGetVersionInput v =
     (case splitPrerelease (normalizeSemverInput v) of
        (release, pre) \<Rightarrow> if pre = [] then release else release @ ''-'' @ ToLower pre)"

definition compareNuGet :: "gostring \<Rightarrow> gostring \<Rightarrow> int" where
  "compareNuGet a b = compareSemver (normalizeNuGetVersionInput a) (normalizeNuGetVersionInput b)"

section \<open>PEP 440\<close>

record pep440Version =
  pv_epoch :: int
  pv_release :: "int list"
  pv_phase :: int
  pv_phaseNum :: int
  pv_devNum :: int

definition pep440DotSuffixes :: "(gostring \<times> int) list" where
  "pep440DotSuffixes =
     [(''.alpha'', -4), (''.beta'', -3), (''.post'', 1), (''.dev'', -5), (''.rev'', 1),
      (''.rc'', -2), (''.a'', -4), (''.b'', -3), (''.c'', -2), (''.r'', 1)]"

definition inlineSuffixes :: "(gostring \<times> int) list" where
  "inlineSuffixes =
     [(''alpha'', -4), (''beta'', -3), (''dev'', -5), (''post'', 1), (''rev'', 1),
      (''rc'', -2), (''a'', -4), (''b'', -3), (''c'', -2), (''r'', 1)]"

fun splitInlineSuffix_loop :: "gostring \<Rightarrow> (gostring \<times> int) list \<Rightarrow> gostring \<times> int \<times> int" where
  "splitInlineSuffix_loop seg [] = (seg, 0, 0)"
| "splitInlineSuffix_loop seg ((name, p) # rest) =
     (let lower = ToLower seg in
      case Index lower name of
        None \<Rightarrow> splitInlineSuffix_loop seg rest
      | Some idx \<Rightarrow>
          if 0 < idx \<and> \<not> isDigit (lower ! (idx - 1)) then splitInlineSuffix_loop seg rest
          else let relPart = take idx seg;
                   numPart = drop (idx + length name) seg;
                   n = (if numPart \<noteq> [] then parseInt numPart else 0)
               in (if relPart = [] then ''0'' else relPart, p, n))"

definition splitInlineSuffix :: "gostring \<Rightarrow> gostring \<times> int \<times> int" where
  "splitInlineSuffix seg = splitInlineSuffix_loop seg inlineSuffixes"

fun splitDotSuffix_loop ::
    "gostring \<Rightarrow> (gostring \<times> int) list \<Rightarrow> (gostring \<times> int \<times> int) option" where
  "splitDotSuffix_loop v [] = None"
| "splitDotSuffix_loop v ((suf, p) # sufs) =
     (case LastIndex v suf of
        Some idx \<Rightarrow>
          let rest = drop (idx + length suf) v;
              num = (if rest \<noteq> [] then parseInt rest else 0)
          in Some (take idx v, p, num)
      | None \<Rightarrow> splitDotSuffix_loop v sufs)"

definition splitPEP440Suffix :: "gostring \<Rightarrow> gostring \<times> int \<times> int" where
  "splitPEP440Suffix v =
     (case splitDotSuffix_loop v pep440DotSuffixes of
        Some r \<Rightarrow> r
      | None \<Rightarrow>
          let (pre, lastSeg) =
                (case LastIndex v ''.'' of
                   Some i \<Rightarrow> (take i v, drop (i + 1) v)
                 | None \<Rightarrow> ([], v));
              (rel, p, num) = splitInlineSuffix lastSeg
          in if p \<noteq> 0 \<or> rel \<noteq> lastSeg
             then (if pre \<noteq> [] then (pre @ ''.'' @ rel, p, num) else (rel, p, num))
             else (v, 0, 0))"

definition parsePEP440 :: "gostring \<Rightarrow> pep440Version" where
  "parsePEP440 v =
     (let v = TrimPrefix (ToLower (TrimSpace v)) ''v'';
          (ep, v) = (case IndexByte v (CHR ''!'') of
                       Some i \<Rightarrow> (parseInt (take i v), drop (i + 1) v)
                     | None \<Rightarrow> (0, v));
          (relStr, p, num) = splitPEP440Suffix v
      in \<lparr>pv_epoch = ep,
          pv_release = map parseLeadingInt (filter (\<lambda>seg. seg \<noteq> []) (Split relStr (CHR ''.''))),
          pv_phase = p, pv_phaseNum = num, pv_devNum = -1\<rparr>)"

fun compareIntSlices :: "int list \<Rightarrow> int list \<Rightarrow> int" where
  "compareIntSlices [] [] = 0"
| "compareIntSlices (a # as) [] =
     (if a < 0 then -1 else if a > 0 then 1 else compareIntSlices as [])"
| "compareIntSlices [] (b # bs) =
     (if 0 < b then -1 else if 0 > b then 1 else compareIntSlices [] bs)"
| "compareIntSlices (a # as) (b # bs) =
     (if a < b then -1 else if a > b then 1 else compareIntSlices as bs)"

definition comparePEP440 :: "gostring \<Rightarrow> gostring \<Rightarrow> int" where
  "comparePEP440 a b =
     (let pa = parsePEP440 a; pb = parsePEP440 b in
      if pv_epoch pa \<noteq> pv_epoch pb then (if pv_epoch pa < pv_epoch pb then -1 else 1)
      else let c = compareIntSlices (pv_release pa) (pv_release pb) in
      if c \<noteq> 0 then c
      else if pv_phase pa \<noteq> pv_phase pb then (if pv_phase pa < pv_phase pb then -1 else 1)
      else if pv_phaseNum pa \<noteq> pv_phaseNum pb then (if pv_phaseNum pa < pv_phaseNum pb then -1 else 1)
      else if pv_devNum pa \<noteq> pv_devNum pb then (if pv_devNum pa < pv_devNum pb then -1 else 1)
      else 0)"

section \<open>Maven\<close>

definition mavenQualifierOrder :: "gostring \<Rightarrow> int option" where
  "mavenQualifierOrder = map_of
     [(''alpha'', -5), (''a'', -5), (''beta'', -4), (''b'', -4), (''milestone'', -3), (''m'', -3),
      (''rc'', -2), (''cr'', -2), (''snapshot'', -1), (''sp'', 1), (''ga'', 0), ('''', 0)]"

definition splitMavenQualifier :: "gostring \<Rightarrow> gostring \<times> gostring" where
  "splitMavenQualifier v =
     (case IndexByte v (CHR ''-'') of
        Some i \<Rightarrow> if 0 < i then (take i v, ToLower (drop (i + 1) v)) else (v, [])
      | None \<Rightarrow> (v, []))"

definition parseMavenQualifier :: "gostring \<Rightarrow> int \<times> int" where
  "parseMavenQualifier q =
     (if q = [] then (0, 0)
      else let numStr = rev (takeWhile isDigit (rev q));
               text = TrimLeft (ToLower (take (length q - length numStr) q)) ''-.'';
               phase = (case mavenQualifierOrder text of Some p \<Rightarrow> p | None \<Rightarrow> -1);
               num = (if numStr \<noteq> [] then parseInt numStr else 0)
           in (phase, num))"

definition compareMavenQualifiers :: "gostring \<Rightarrow> gostring \<Rightarrow> int" where
  "compareMavenQualifiers a b =
     (case (parseMavenQualifier a, parseMavenQualifier b) of
        ((phaseA, numA), (phaseB, numB)) \<Rightarrow>
          if phaseA \<noteq> phaseB then (if phaseA < phaseB then -1 else 1)
          else if numA \<noteq> numB then (if numA < numB then -1 else 1)
          else 0)"

definition compareMaven :: "gostring \<Rightarrow> gostring \<Rightarrow> int" where
  "compareMaven a b =
     (case (splitMavenQualifier (TrimSpace a), splitMavenQualifier (TrimSpace b)) of
        ((relA, qualA), (relB, qualB)) \<Rightarrow>
          let c = compareRelease relA relB
          in if c \<noteq> 0 then c else compareMavenQualifiers qualA qualB)"

section \<open>Dispatch\<close>

definition compareEcosystem :: "gostring \<Rightarrow> gostring \<Rightarrow> gostring \<Rightarrow> int" where
  "compareEcosystem a b ecosystem =
     (if ecosystem = ''pypi'' \<or> ecosystem = ''pip'' then comparePEP440 a b
      else if ecosystem = ''maven'' then compareMaven a b
      else if ecosystem = ''nuget'' \<or> ecosystem = ''chocolatey'' then compareNuGet a b
      else compareSemver a b)"

definition Compare :: "gostring \<Rightarrow> gostring \<Rightarrow> gostring \<Rightarrow> gostring \<Rightarrow> int" where
  "Compare a b rangeType ecosystem =
     (let t = ToUpper rangeType in
      if t = ''GIT'' then 0
      else if t = ''ECOSYSTEM'' then compareEcosystem a b (ToLower ecosystem)
      else compareSemver a b)"

definition versionsEqual :: "gostring \<Rightarrow> gostring \<Rightarrow> gostring \<Rightarrow> bool" where
  "versionsEqual a b ecosystem =
     (if EqualFold ecosystem ''nuget'' \<or> EqualFold ecosystem ''chocolatey''
      then compareNuGet a b = 0 else a = b)"

definition isFullGitCommitSHA :: "gostring \<Rightarrow> bool" where
  "isFullGitCommitSHA value =
     (let value = TrimSpace value in
      (length value = 40 \<or> length value = 64) \<and> (\<forall>ch \<in> set value. isHexDigit ch))"

definition skipRangeComparisonForVersion :: "gostring \<Rightarrow> gostring \<Rightarrow> gostring \<Rightarrow> bool" where
  "skipRangeComparisonForVersion version rangeType ecosystem =
     (if \<not> EqualFold ecosystem ''actions'' then False
      else if EqualFold rangeType ''GIT'' then False
      else isFullGitCommitSHA version)"

section \<open>Every comparator is a three-way comparison\<close>

text \<open>
  The loops are the padded comparison of theory \<open>Comparators\<close>: a missing release segment reads
  as the empty string, a missing pre-release identifier is below every identifier. Identifiers
  compare like keys of a linear order, numeric ones first.
\<close>

definition identKey :: "gostring \<Rightarrow> int \<times> int \<times> gostring" where
  "identKey s = (if fst (isNumeric s) then (0, snd (isNumeric s), []) else (1, 0, s))"

lemma compareRelease_loop_pad:
  "compareRelease_loop as bs =
     pad_cmp (\<lambda>a b. cmp3 (parseLeadingInt a) (parseLeadingInt b)) [] as bs"
  by (induction as bs rule: compareRelease_loop.induct) (simp_all add: cmp3_def Let_def)

lemma comparePrereleaseIdentifiers_loop_pad:
  "comparePrereleaseIdentifiers_loop as bs =
     pad_cmp (cmp_opt (\<lambda>a b. cmp3 (identKey a) (identKey b))) None (map Some as) (map Some bs)"
  by (induction as bs rule: comparePrereleaseIdentifiers_loop.induct)
    (auto simp: cmp3_def identKey_def split: prod.splits)

lemma compareIntSlices_pad: "compareIntSlices as bs = pad_cmp cmp3 0 as bs"
  by (induction as bs rule: compareIntSlices.induct) (simp_all add: cmp3_def)

lemma three_way_compareRelease: "three_way compareRelease"
  unfolding compareRelease_def compareRelease_loop_pad
  by (rule three_way_vimage, rule three_way_pad_cmp, rule three_way_vimage)
    (rule cmp3.three_way_axioms)

lemma three_way_comparePrereleaseIdentifiers: "three_way comparePrereleaseIdentifiers"
proof -
  have "three_way (pad_cmp (cmp_opt (\<lambda>a b. cmp3 (identKey a) (identKey b))) None)"
    by (rule three_way_pad_cmp, rule three_way_cmp_opt, rule three_way_vimage)
      (rule cmp3.three_way_axioms)
  from three_way_vimage [OF this, of "\<lambda>s. map Some (Split s (CHR ''.''))"]
  show ?thesis
    by (rule three_way_cong)
      (simp add: comparePrereleaseIdentifiers_def comparePrereleaseIdentifiers_loop_pad)
qed

lemma comparePrereleaseStrings_lex:
  "comparePrereleaseStrings a b =
     (if cmp3 (a = []) (b = []) \<noteq> 0 then cmp3 (a = []) (b = [])
      else comparePrereleaseIdentifiers a b)"
  by (auto simp: comparePrereleaseStrings_def cmp3_def comparePrereleaseIdentifiers_def
      isNumeric_def)

lemma three_way_comparePrereleaseStrings: "three_way comparePrereleaseStrings"
proof -
  have "three_way (\<lambda>a b :: gostring. cmp3 (a = []) (b = []))"
    by (rule three_way_vimage) (rule cmp3.three_way_axioms)
  from three_way_lex [OF this three_way_comparePrereleaseIdentifiers]
  show ?thesis by (simp add: comparePrereleaseStrings_lex [abs_def])
qed

lemma three_way_compareSemver: "three_way compareSemver"
proof -
  let ?k = "\<lambda>v. splitPrerelease (normalizeSemverInput v)"
  have "three_way (\<lambda>a b. if compareRelease (fst (?k a)) (fst (?k b)) \<noteq> 0
      then compareRelease (fst (?k a)) (fst (?k b))
      else comparePrereleaseStrings (snd (?k a)) (snd (?k b)))"
    by (rule three_way_lex; rule three_way_vimage)
      (rule three_way_compareRelease, rule three_way_comparePrereleaseStrings)
  then show ?thesis
    by (rule three_way_cong) (simp add: compareSemver_def split_beta Let_def)
qed

lemma three_way_compareNuGet: "three_way compareNuGet"
  unfolding compareNuGet_def by (rule three_way_vimage) (rule three_way_compareSemver)

lemma three_way_comparePEP440: "three_way comparePEP440"
proof -
  let ?f = "\<lambda>(g :: pep440Version \<Rightarrow> int) a b. cmp3 (g (parsePEP440 a)) (g (parsePEP440 b))"
  let ?r = "\<lambda>a b. compareIntSlices (pv_release (parsePEP440 a)) (pv_release (parsePEP440 b))"
  let ?lex = "\<lambda>(f :: gostring \<Rightarrow> gostring \<Rightarrow> int) g a b. if f a b \<noteq> 0 then f a b else g a b"
  have f: "three_way (?f g)" for g
    by (rule three_way_vimage) (rule cmp3.three_way_axioms)
  have r: "three_way ?r"
    unfolding compareIntSlices_pad
    by (rule three_way_vimage, rule three_way_pad_cmp) (rule cmp3.three_way_axioms)
  have "three_way (?lex (?f pv_epoch) (?lex ?r (?lex (?f pv_phase)
      (?lex (?f pv_phaseNum) (?f pv_devNum)))))"
    by (intro three_way_lex f r)
  moreover have "comparePEP440 = ?lex (?f pv_epoch) (?lex ?r (?lex (?f pv_phase)
      (?lex (?f pv_phaseNum) (?f pv_devNum))))"
    by (auto simp: comparePEP440_def cmp3_def Let_def fun_eq_iff)
  ultimately show ?thesis by simp
qed

lemma three_way_compareMavenQualifiers: "three_way compareMavenQualifiers"
proof -
  have "compareMavenQualifiers = (\<lambda>a b. cmp3 (parseMavenQualifier a) (parseMavenQualifier b))"
    by (auto simp: compareMavenQualifiers_def cmp3_def less_prod_def' fun_eq_iff
        split: prod.splits)
  then show ?thesis using three_way_vimage [OF cmp3.three_way_axioms] by metis
qed

lemma three_way_compareMaven: "three_way compareMaven"
proof -
  let ?k = "\<lambda>v. splitMavenQualifier (TrimSpace v)"
  have "three_way (\<lambda>a b. if compareRelease (fst (?k a)) (fst (?k b)) \<noteq> 0
      then compareRelease (fst (?k a)) (fst (?k b))
      else compareMavenQualifiers (snd (?k a)) (snd (?k b)))"
    by (rule three_way_lex; rule three_way_vimage)
      (rule three_way_compareRelease, rule three_way_compareMavenQualifiers)
  then show ?thesis
    by (rule three_way_cong) (simp add: compareMaven_def split_beta Let_def)
qed

lemma three_way_compareEcosystem: "three_way (\<lambda>a b. compareEcosystem a b eco)"
proof -
  consider "eco = ''pypi'' \<or> eco = ''pip''" | "eco = ''maven''" | "eco = ''nuget'' \<or> eco = ''chocolatey''"
    | "eco \<notin> {''pypi'', ''pip'', ''maven'', ''nuget'', ''chocolatey''}" by blast
  then show ?thesis
    by cases (auto simp: compareEcosystem_def three_way_compareSemver three_way_compareNuGet
        three_way_compareMaven three_way_comparePEP440)
qed

lemma three_way_Compare: "three_way (\<lambda>a b. Compare a b t eco)"
  by (cases "ToUpper t = ''GIT''"; cases "ToUpper t = ''ECOSYSTEM''")
    (simp_all add: Compare_def three_way_const three_way_compareSemver three_way_compareEcosystem)

interpretation semver: three_way compareSemver
  by (rule three_way_compareSemver)

interpretation nuget: three_way compareNuGet
  by (rule three_way_compareNuGet)

interpretation pep440: three_way comparePEP440
  by (rule three_way_comparePEP440)

interpretation maven: three_way compareMaven
  by (rule three_way_compareMaven)

interpretation vcmp: three_way "\<lambda>a b. Compare a b t eco" for t eco
  by (rule three_way_Compare)

end
