(* ===== verification/SemverSpec.thy ===== *)
theory SemverSpec
  imports Version
begin

text \<open>
  Semantic Versioning 2.0.0, rule 11 (precedence), as an order on abstract versions, and the
  refinement: on the text of two well-formed versions \<open>compareSemver\<close> of
  \<open>internal/version/compare.go\<close> decides that order. A version is well formed when its numbers
  fit Go's \<open>int\<close>; \<open>compareSemver_wraps\<close> shows what happens beyond.
\<close>

section \<open>The specification\<close>

datatype ident = Num nat | Alnum gostring

record semver =
  sv_major :: nat
  sv_minor :: nat
  sv_patch :: nat
  sv_pre :: "ident list"
  sv_build :: "gostring option"

text \<open>Numeric identifiers compare as numbers and are below alphanumeric ones, which compare as text.\<close>

fun ident_less :: "ident \<Rightarrow> ident \<Rightarrow> bool" where
  "ident_less (Num m) (Num n) = (m < n)"
| "ident_less (Num m) (Alnum t) = True"
| "ident_less (Alnum s) (Num n) = False"
| "ident_less (Alnum s) (Alnum t) = (s < t)"

instantiation ident :: linorder
begin

definition less_ident :: "ident \<Rightarrow> ident \<Rightarrow> bool" where
  "less_ident x y = ident_less x y"

definition less_eq_ident :: "ident \<Rightarrow> ident \<Rightarrow> bool" where
  "less_eq_ident x y = (x = y \<or> ident_less x y)"

instance
proof
  fix x y z :: ident
  show "(x < y) = (x \<le> y \<and> \<not> y \<le> x)" and "x \<le> x" and "x \<le> y \<or> y \<le> x"
    by (cases x; cases y; auto simp: less_ident_def less_eq_ident_def)+
  show "x \<le> y \<Longrightarrow> y \<le> x \<Longrightarrow> x = y"
    by (cases x; cases y) (auto simp: less_eq_ident_def)
  show "x \<le> y \<Longrightarrow> y \<le> z \<Longrightarrow> x \<le> z"
    by (cases x; cases y; cases z) (auto simp: less_eq_ident_def)
qed

end

definition core :: "semver \<Rightarrow> nat \<times> nat \<times> nat" where
  "core v = (sv_major v, sv_minor v, sv_patch v)"

text \<open>
  Precedence: first the three numbers, then a version with a pre-release is below the one
  without, then the identifiers from left to right, where the longer list wins a tie. Build
  metadata plays no part.
\<close>

definition precedes :: "semver \<Rightarrow> semver \<Rightarrow> bool" where
  "precedes v w \<longleftrightarrow> core v < core w \<or>
     core v = core w \<and> sv_pre v \<noteq> [] \<and> (sv_pre w = [] \<or> sv_pre v < sv_pre w)"

definition same_precedence :: "semver \<Rightarrow> semver \<Rightarrow> bool" where
  "same_precedence v w \<longleftrightarrow> core v = core w \<and> sv_pre v = sv_pre w"

section \<open>Text of a version\<close>

definition ident_byte :: "char \<Rightarrow> bool" where
  "ident_byte c \<longleftrightarrow> isDigit c \<or> 65 \<le> byte c \<and> byte c \<le> 90 \<or> 97 \<le> byte c \<and> byte c \<le> 122 \<or>
     c = CHR ''-''"

fun wf_ident :: "ident \<Rightarrow> bool" where
  "wf_ident (Num n) = (n < 2 ^ 63)"
| "wf_ident (Alnum s) = (list_all ident_byte s \<and> \<not> list_all isDigit s)"

definition wf_semver :: "semver \<Rightarrow> bool" where
  "wf_semver v \<longleftrightarrow> sv_major v < 2 ^ 63 \<and> sv_minor v < 2 ^ 63 \<and> sv_patch v < 2 ^ 63 \<and>
     list_all wf_ident (sv_pre v) \<and>
     (case sv_build v of None \<Rightarrow> True
      | Some b \<Rightarrow> list_all (\<lambda>c. ident_byte c \<or> c = CHR ''.'') b)"

fun ident_text :: "ident \<Rightarrow> gostring" where
  "ident_text (Num n) = Itoa (int n)"
| "ident_text (Alnum s) = s"

definition release_text :: "semver \<Rightarrow> gostring" where
  "release_text v =
     Join [Itoa (int (sv_major v)), Itoa (int (sv_minor v)), Itoa (int (sv_patch v))] ''.''"

definition pre_text :: "semver \<Rightarrow> gostring" where
  "pre_text v = Join (map ident_text (sv_pre v)) ''.''"

definition semver_text :: "semver \<Rightarrow> gostring" where
  "semver_text v = release_text v @
     (if sv_pre v = [] then [] else ''-'' @ pre_text v) @
     (case sv_build v of None \<Rightarrow> [] | Some b \<Rightarrow> ''+'' @ b)"

section \<open>Numbers\<close>

lemma digit_char [simp]:
  assumes "d < 10"
  shows "isDigit (digit_char d)" and "digit_val (digit_char d) = int d"
  using assms by (simp_all add: isDigit_def digit_val_def)

abbreviation dec :: "int \<Rightarrow> nat list \<Rightarrow> int" where
  "dec \<equiv> foldl (\<lambda>n d. n * 10 + int d)"

lemma dec_mono: "0 \<le> n \<Longrightarrow> n \<le> dec n ds"
proof (induction ds arbitrary: n)
  case (Cons d ds)
  from Cons.prems have "n \<le> n * 10 + int d" by simp
  also have "\<dots> \<le> dec (n * 10 + int d) ds" using Cons.prems by (intro Cons.IH) simp
  finally show ?case by simp
qed simp

lemma wrap64_dec:
  assumes "0 \<le> n" and "dec n (d # ds) < 2 ^ 63"
  shows "wrap64 (n * 10 + int d) = n * 10 + int d"
  using assms dec_mono [of "n * 10 + int d" ds] by (intro wrap64_id) simp_all

lemma Itoa_digits: "Itoa (int n) = map digit_char (rev (digits_rev n))"
  by (simp add: Itoa_def rev_map)

lemma dec_Itoa: "dec 0 (rev (digits_rev n)) = int n"
  by (simp add: foldl_conv_foldr digits_rev_value)

lemma parse_digits:
  assumes "\<forall>d \<in> set ds. d < 10" and "0 \<le> n" and "dec n ds < 2 ^ 63"
  shows "parseLeadingInt_loop n (map digit_char ds) = dec n ds"
    and "isNumeric_loop n (map digit_char ds) = (True, dec n ds)"
  using assms by (induction ds arbitrary: n) (simp_all add: wrap64_dec del: foldl_Cons, simp_all)

lemma parseLeadingInt_Itoa: "n < 2 ^ 63 \<Longrightarrow> parseLeadingInt (Itoa (int n)) = int n"
  unfolding parseLeadingInt_def Itoa_digits
  by (subst parse_digits) (auto simp: digits_rev_less dec_Itoa)

lemma isNumeric_Itoa: "n < 2 ^ 63 \<Longrightarrow> isNumeric (Itoa (int n)) = (True, int n)"
  unfolding isNumeric_def Itoa_digits
  by (subst parse_digits) (auto simp: digits_rev_less dec_Itoa digits_rev_not_Nil)

lemma Itoa_isDigit: "c \<in> set (Itoa (int n)) \<Longrightarrow> isDigit c"
  by (auto simp: Itoa_digits digits_rev_less)

lemma isNumeric_loop_not_digits: "\<not> list_all isDigit s \<Longrightarrow> isNumeric_loop n s = (False, 0)"
  by (induction s arbitrary: n) auto

lemma isNumeric_Alnum: "\<not> list_all isDigit s \<Longrightarrow> isNumeric s = (False, 0)"
  by (auto simp: isNumeric_def isNumeric_loop_not_digits)

section \<open>Pieces of a version\<close>

lemma ident_byte_plain: "ident_byte c \<Longrightarrow> byte c < 128 \<and> \<not> ascii_space c \<and> c \<noteq> CHR ''.'' \<and> c \<noteq> CHR ''+''"
  by (auto simp: ident_byte_def isDigit_def ascii_space_def)

lemma isDigit_ident: "isDigit c \<Longrightarrow> ident_byte c \<and> c \<noteq> CHR ''-''"
  by (auto simp: ident_byte_def isDigit_def)

lemma ident_text_bytes: "wf_ident i \<Longrightarrow> c \<in> set (ident_text i) \<Longrightarrow> ident_byte c"
  by (cases i) (auto simp: list_all_iff dest: Itoa_isDigit isDigit_ident)

lemma Itoa_not_Nil: "Itoa (int n) \<noteq> []"
  by (simp add: Itoa_digits digits_rev_not_Nil)

lemma ident_text_not_Nil: "wf_ident i \<Longrightarrow> ident_text i \<noteq> []"
  by (cases i) (auto simp: Itoa_not_Nil)

lemma set_Join: "set (Join ps sep) \<subseteq> \<Union> (set ` set ps) \<union> set sep"
  by (induction ps sep rule: Join.induct) auto

lemma release_text_bytes: "c \<in> set (release_text v) \<Longrightarrow> isDigit c \<or> c = CHR ''.''"
  by (auto simp: release_text_def dest: Itoa_isDigit)

lemma pre_text_bytes:
  "wf_semver v \<Longrightarrow> c \<in> set (pre_text v) \<Longrightarrow> ident_byte c \<or> c = CHR ''.''"
  using set_Join [of "map ident_text (sv_pre v)" "''.''"]
  by (auto simp: pre_text_def wf_semver_def list_all_iff dest: ident_text_bytes)

lemma Split_release: "Split (release_text v) (CHR ''.'') =
    [Itoa (int (sv_major v)), Itoa (int (sv_minor v)), Itoa (int (sv_patch v))]"
  unfolding release_text_def
  by (rule Split_Join) (auto simp: isDigit_def dest: Itoa_isDigit)

lemma Split_pre: "wf_semver v \<Longrightarrow> sv_pre v \<noteq> [] \<Longrightarrow>
    Split (pre_text v) (CHR ''.'') = map ident_text (sv_pre v)"
  unfolding pre_text_def
  by (rule Split_Join) (auto simp: wf_semver_def list_all_iff dest: ident_text_bytes ident_byte_plain)

lemma release_text_first: "\<exists>c s. release_text v = c # s \<and> isDigit c"
  using Itoa_not_Nil [of "sv_major v"] Itoa_isDigit [of _ "sv_major v"]
  by (cases "Itoa (int (sv_major v))") (auto simp: release_text_def)

lemma semver_text_plain:
  assumes "wf_semver v" and "c \<in> set (semver_text v)"
  shows "byte c < 128 \<and> \<not> ascii_space c"
proof -
  from assms have "isDigit c \<or> ident_byte c \<or> c = CHR ''.'' \<or> c = CHR ''+''"
    by (auto simp: semver_text_def wf_semver_def list_all_iff ident_byte_def
        dest: release_text_bytes pre_text_bytes [OF assms(1)] split: if_splits option.splits)
  then show ?thesis
    by (auto dest: isDigit_ident ident_byte_plain) (simp_all add: ascii_space_def)
qed

definition unbuilt :: "semver \<Rightarrow> gostring" where
  "unbuilt v = release_text v @ (if sv_pre v = [] then [] else ''-'' @ pre_text v)"

lemma normalize_semver_text:
  assumes "wf_semver v"
  shows "normalizeSemverInput (semver_text v) = unbuilt v"
proof -
  have trim: "TrimSpace (semver_text v) = semver_text v"
    by (rule TrimSpace_plain) (simp add: semver_text_plain [OF assms])
  obtain c s where rel: "release_text v = c # s" "isDigit c" using release_text_first by blast
  then have nov: "c \<noteq> CHR ''v'' \<and> c \<noteq> CHR ''V''" by (auto simp: isDigit_def)
  have plus: "CHR ''+'' \<notin> set (unbuilt v)"
    by (auto simp: unbuilt_def dest!: release_text_bytes pre_text_bytes [OF assms]
        isDigit_ident ident_byte_plain split: if_splits)
  have "semver_text v = unbuilt v @ (case sv_build v of None \<Rightarrow> [] | Some b \<Rightarrow> CHR ''+'' # b)"
    by (simp add: semver_text_def unbuilt_def split: option.split)
  then have "stripBuildMeta (semver_text v) = unbuilt v"
    using plus by (auto simp: stripBuildMeta_def IndexByte_append IndexByte_None
        split: option.splits)
  moreover have "normalizeSemverInput (semver_text v) = stripBuildMeta (semver_text v)"
    unfolding normalizeSemverInput_def trim
    using nov rel(1) by (auto simp: semver_text_def Let_def split: list.split)
  ultimately show ?thesis by simp
qed

lemma splitPrerelease_unbuilt:
  assumes "wf_semver v"
  shows "splitPrerelease (unbuilt v) = (release_text v, if sv_pre v = [] then [] else pre_text v)"
proof -
  have "CHR ''-'' \<notin> set (release_text v)"
    by (auto dest!: release_text_bytes isDigit_ident)
  moreover have "release_text v \<noteq> []" using release_text_first [of v] by auto
  ultimately show ?thesis
    by (auto simp: unbuilt_def splitPrerelease_def IndexByte_append IndexByte_None)
qed

section \<open>The refinement\<close>

lemma compareRelease_text:
  assumes "wf_semver v" and "wf_semver w"
  shows "compareRelease (release_text v) (release_text w) = cmp3 (core v) (core w)"
  using assms
  by (auto simp: compareRelease_def Split_release parseLeadingInt_Itoa wf_semver_def core_def
      cmp3_def less_prod_def' Let_def)

lemma comparePrerelease_idents:
  assumes "list_all wf_ident is" and "list_all wf_ident js"
  shows "comparePrereleaseIdentifiers_loop (map ident_text is) (map ident_text js) = cmp3 is js"
  using assms
proof (induction "is" js rule: list_induct2')
  case (4 i "is" j js)
  then show ?case
    by (cases i; cases j)
      (auto simp: isNumeric_Itoa isNumeric_Alnum cmp3_def less_ident_def not_less)
qed (simp_all add: cmp3_def)

lemma pre_text_Nil_iff: "wf_semver v \<Longrightarrow> pre_text v = [] \<longleftrightarrow> sv_pre v = []"
  by (cases "sv_pre v"; cases "tl (sv_pre v)")
    (auto simp: pre_text_def wf_semver_def ident_text_not_Nil)

lemma comparePrerelease_text:
  assumes "wf_semver v" and "wf_semver w"
  shows "comparePrereleaseStrings (pre_text v) (pre_text w) =
    (if sv_pre v = [] \<and> sv_pre w = [] then 0 else if sv_pre v = [] then 1
     else if sv_pre w = [] then -1 else cmp3 (sv_pre v) (sv_pre w))"
  using assms comparePrerelease_idents [of "sv_pre v" "sv_pre w"]
  by (auto simp: comparePrereleaseStrings_def pre_text_Nil_iff comparePrereleaseIdentifiers_def
      Split_pre wf_semver_def)

lemma compareSemver_text:
  assumes "wf_semver v" and "wf_semver w"
  shows "compareSemver (semver_text v) (semver_text w) =
    (if precedes v w then -1 else if precedes w v then 1 else 0)"
proof -
  have nil: "(if sv_pre u = [] then [] else pre_text u) = pre_text u" if "wf_semver u" for u
    using pre_text_Nil_iff [OF that] by auto
  show ?thesis
    using assms
    by (auto simp: compareSemver_def normalize_semver_text splitPrerelease_unbuilt nil
        compareRelease_text comparePrerelease_text precedes_def cmp3_def)
qed

lemma precedes_total: "precedes v w \<or> precedes w v \<or> same_precedence v w"
  by (auto simp: precedes_def same_precedence_def)

lemma precedes_asym: "precedes v w \<Longrightarrow> \<not> precedes w v \<and> \<not> same_precedence v w"
  by (auto simp: precedes_def same_precedence_def)

text \<open>
  C5: On the text of two well-formed semantic versions (numbers below \<open>2 ^ 63\<close>),
  \<open>compareSemver\<close> returns -1, 1 or 0 exactly when SemVer 2.0.0 rule 11 puts the first below the
  second, above it, or gives both the same precedence. Build metadata is ignored.
\<close>

theorem compareSemver_precedence:
  assumes "wf_semver v" and "wf_semver w"
  shows "(compareSemver (semver_text v) (semver_text w) = -1 \<longleftrightarrow> precedes v w) \<and>
    (compareSemver (semver_text v) (semver_text w) = 1 \<longleftrightarrow> precedes w v) \<and>
    (compareSemver (semver_text v) (semver_text w) = 0 \<longleftrightarrow> same_precedence v w)"
  using compareSemver_text [OF assms] precedes_total [of v w]
    precedes_asym [of v w] precedes_asym [of w v]
  by (auto simp: same_precedence_def)

theorem compareSemver_precedence_witness:
  "semver_text \<lparr>sv_major = 1, sv_minor = 0, sv_patch = 10, sv_pre = [Alnum ''rc'', Num 2], sv_build = Some ''b7''\<rparr>
     = ''1.0.10-rc.2+b7'' \<and>
   compareSemver ''1.0.10-rc.2+b7'' ''1.0.10-rc.11'' = -1"
proof -
  let ?v = "\<lparr>sv_major = 1, sv_minor = 0, sv_patch = 10, sv_pre = [Alnum ''rc'', Num 2],
    sv_build = Some ''b7''\<rparr>"
  let ?w = "\<lparr>sv_major = 1, sv_minor = 0, sv_patch = 10, sv_pre = [Alnum ''rc'', Num 11],
    sv_build = None\<rparr>"
  have tx: "semver_text ?v = ''1.0.10-rc.2+b7''" "semver_text ?w = ''1.0.10-rc.11''"
    by code_simp+
  have "wf_semver ?v" "wf_semver ?w" by (simp_all add: wf_semver_def ident_byte_def isDigit_def)
  from compareSemver_precedence [OF this] have "compareSemver (semver_text ?v) (semver_text ?w) = -1"
    by (simp add: precedes_def core_def less_ident_def)
  with tx show ?thesis by simp
qed

text \<open>Beyond 64 bits the numbers wrap, and a huge major version sorts below a small one.\<close>

lemma compareSemver_wraps: "compareSemver ''9223372036854775808'' ''1'' = -1"
  by code_simp

end
