(* ===== verification/GoJson.thy ===== *)
theory GoJson
  imports GoStrings
begin

text \<open>
  Go's \<open>encoding/json\<close> as far as the program uses it: \<open>json_parse\<close> is the syntax check and the
  tree of a text (a tokenizer and a stack machine with Go's limit on nesting), the \<open>decode_\<close>
  functions are \<open>json.Unmarshal\<close> into strings, slices, structs, maps and raw messages. A key
  names a struct field exactly or, failing that, up to case; \<open>null\<close> leaves a string or a struct as
  it was and empties a slice; a value is decoded into what the field held before, which is
  visible when a key is repeated. String bytes that are not UTF-8 are kept, where Go replaces them.
\<close>

datatype json =
    JNull
  | JBool bool
  | JNum gostring
  | JStr gostring
  | JArr "json list"
  | JObj "(gostring \<times> json) list"

datatype json_error = SyntaxError | UnmarshalTypeError

section \<open>Tokens\<close>

datatype token =
    TLBrace | TRBrace | TLBrack | TRBrack | TColon | TComma
  | TLit json

definition hex_val :: "char \<Rightarrow> nat" where
  "hex_val c = (if isDigit c then byte c - 48
     else if 97 \<le> byte c then byte c - 87 else byte c - 55)"

definition hex4 :: "char \<Rightarrow> char \<Rightarrow> char \<Rightarrow> char \<Rightarrow> nat option" where
  "hex4 a b c d = (if isHexDigit a \<and> isHexDigit b \<and> isHexDigit c \<and> isHexDigit d
     then Some (4096 * hex_val a + 256 * hex_val b + 16 * hex_val c + hex_val d) else None)"

definition utf8 :: "nat \<Rightarrow> gostring" where
  "utf8 n = map char_of
     (if n < 128 then [n]
      else if n < 2048 then [192 + n div 64, 128 + n mod 64]
      else if n < 65536 then [224 + n div 4096, 128 + n div 64 mod 64, 128 + n mod 64]
      else [240 + n div 262144, 128 + n div 4096 mod 64, 128 + n div 64 mod 64, 128 + n mod 64])"

definition surrogate :: "nat \<Rightarrow> bool" where
  "surrogate n \<longleftrightarrow> 55296 \<le> n \<and> n < 57344"

text \<open>The code point of a surrogate pair (\<open>utf16.DecodeRune\<close>), None if it is no pair.\<close>

definition decode_pair :: "nat \<Rightarrow> nat \<Rightarrow> nat option" where
  "decode_pair hi lo = (if 55296 \<le> hi \<and> hi < 56320 \<and> 56320 \<le> lo \<and> lo < 57344
     then Some ((hi - 55296) * 1024 + (lo - 56320) + 65536) else None)"

definition simple_escape :: "char \<Rightarrow> char option" where
  "simple_escape e =
     (if e = CHR 0x22 \<or> e = CHR 0x5C \<or> e = CHR ''/'' then Some e
      else if e = CHR ''b'' then Some (CHR 0x08)
      else if e = CHR ''f'' then Some (CHR 0x0C)
      else if e = CHR ''n'' then Some (CHR 0x0A)
      else if e = CHR ''r'' then Some (CHR 0x0D)
      else if e = CHR ''t'' then Some (CHR 0x09)
      else None)"

text \<open>A second \<open>uXXXX\<close> escape right behind a first one.\<close>

fun next_u :: "gostring \<Rightarrow> nat option" where
  "next_u (x # u # a # b # c # d # s) =
     (if x = CHR 0x5C \<and> u = CHR ''u'' then hex4 a b c d else None)"
| "next_u _ = None"

text \<open>An escape, behind its backslash: the bytes it stands for and the text behind it.\<close>

definition lex_unicode :: "gostring \<Rightarrow> (gostring \<times> gostring) option" where
  "lex_unicode r = (case r of
     x1 # x2 # x3 # x4 # t \<Rightarrow>
       (case hex4 x1 x2 x3 x4 of
          None \<Rightarrow> None
        | Some n \<Rightarrow>
            if \<not> surrogate n then Some (utf8 n, t)
            else case Option.bind (next_u t) (decode_pair n) of
                   Some m \<Rightarrow> Some (utf8 m, drop 6 t)
                 | None \<Rightarrow> Some (utf8 65533, t))
   | _ \<Rightarrow> None)"

definition lex_escape :: "gostring \<Rightarrow> (gostring \<times> gostring) option" where
  "lex_escape s = (case s of
     [] \<Rightarrow> None
   | e # r \<Rightarrow>
       (case simple_escape e of
          Some b \<Rightarrow> Some ([b], r)
        | None \<Rightarrow> if e = CHR ''u'' then lex_unicode r else None))"

lemma lex_unicode_shorter: "lex_unicode s = Some (b, t) \<Longrightarrow> length t < length s"
  unfolding lex_unicode_def
  by (auto split: list.splits option.splits if_splits)

lemma lex_escape_shorter: "lex_escape s = Some (b, t) \<Longrightarrow> length t < length s"
  unfolding lex_escape_def
  by (auto split: list.splits option.splits if_splits dest!: lex_unicode_shorter)

text \<open>The rest of a string literal: its decoded bytes and what follows the closing quote.\<close>

function lex_string :: "gostring \<Rightarrow> gostring \<Rightarrow> (gostring \<times> gostring) option" where
  "lex_string acc [] = None"
| "lex_string acc (c # s) =
     (if c = CHR 0x22 then Some (rev acc, s)
      else if byte c < 32 then None
      else if c \<noteq> CHR 0x5C then lex_string (c # acc) s
      else case lex_escape s of
             None \<Rightarrow> None
           | Some (b, t) \<Rightarrow> lex_string (rev b @ acc) t)"
  by pat_completeness auto
termination
  by (relation "measure (\<lambda>(acc, s). length s)") (auto dest: lex_escape_shorter)

fun span_digits :: "gostring \<Rightarrow> gostring \<times> gostring" where
  "span_digits s = (takeWhile isDigit s, dropWhile isDigit s)"

text \<open>A number literal, by the grammar of JSON: sign, integer part, fraction, exponent.\<close>

definition lex_frac :: "gostring \<Rightarrow> (gostring \<times> gostring) option" where
  "lex_frac s = (case s of
     c # r \<Rightarrow> if c = CHR ''.'' then
        (case span_digits r of (ds, t) \<Rightarrow> if ds = [] then None else Some (c # ds, t))
        else Some ([], s)
   | [] \<Rightarrow> Some ([], s))"

definition lex_exp :: "gostring \<Rightarrow> (gostring \<times> gostring) option" where
  "lex_exp s = (case s of
     c # r \<Rightarrow> if c = CHR ''e'' \<or> c = CHR ''E'' then
        (let (sg, r') = (case r of x # r' \<Rightarrow> if x = CHR ''+'' \<or> x = CHR ''-'' then ([x], r') else ([], r)
                         | [] \<Rightarrow> ([], r))
         in case span_digits r' of (ds, t) \<Rightarrow> if ds = [] then None else Some (c # sg @ ds, t))
        else Some ([], s)
   | [] \<Rightarrow> Some ([], s))"

definition lex_int :: "gostring \<Rightarrow> (gostring \<times> gostring) option" where
  "lex_int s = (case s of
     [] \<Rightarrow> None
   | c # r \<Rightarrow> if c = CHR ''0'' then Some ([c], r)
       else case span_digits s of (ds, t) \<Rightarrow> if ds = [] then None else Some (ds, t))"

definition lex_number :: "gostring \<Rightarrow> (gostring \<times> gostring) option" where
  "lex_number s =
     (let (sg, s0) = (case s of c # r \<Rightarrow> if c = CHR ''-'' then ([c], r) else ([], s) | [] \<Rightarrow> ([], s))
      in case lex_int s0 of None \<Rightarrow> None | Some (i, s1) \<Rightarrow>
         (case lex_frac s1 of None \<Rightarrow> None | Some (f, s2) \<Rightarrow>
         (case lex_exp s2 of None \<Rightarrow> None | Some (e, s3) \<Rightarrow> Some (sg @ i @ f @ e, s3))))"

definition punct :: "char \<Rightarrow> token option" where
  "punct = map_of [(CHR 0x7B, TLBrace), (CHR 0x7D, TRBrace), (CHR ''['', TLBrack),
     (CHR '']'', TRBrack), (CHR '':'', TColon), (CHR '','', TComma)]"

text \<open>One token, and the text behind it.\<close>

definition lex_token :: "gostring \<Rightarrow> (token \<times> gostring) option" where
  "lex_token s = (case s of
     [] \<Rightarrow> None
   | c # r \<Rightarrow>
       (case punct c of
          Some t \<Rightarrow> Some (t, r)
        | None \<Rightarrow>
            if c = CHR 0x22 then map_option (\<lambda>(str, t). (TLit (JStr str), t)) (lex_string [] r)
            else if HasPrefix s ''true'' then Some (TLit (JBool True), drop 4 s)
            else if HasPrefix s ''false'' then Some (TLit (JBool False), drop 5 s)
            else if HasPrefix s ''null'' then Some (TLit JNull, drop 4 s)
            else map_option (\<lambda>(n, t). (TLit (JNum n), t)) (lex_number s)))"

definition json_space :: "char \<Rightarrow> bool" where
  "json_space c \<longleftrightarrow> c = CHR '' '' \<or> c = CHR 0x09 \<or> c = CHR 0x0A \<or> c = CHR 0x0D"

lemma lex_string_shorter: "lex_string acc s = Some (str, t) \<Longrightarrow> length t < length s"
proof (induction acc s rule: lex_string.induct)
  case (2 acc c s)
  then show ?case
    by (auto split: if_splits option.splits dest!: lex_escape_shorter)
      (meson less_SucI less_trans)+
qed simp

lemma lex_number_shorter: "lex_number s = Some (n, t) \<Longrightarrow> length t < length s"
proof -
  have dw: "length (dropWhile isDigit u) \<le> length u" for u by (rule length_dropWhile_le)
  have int: "lex_int u = Some (i, t) \<Longrightarrow> length t < length u" for u i t
    using dw [of "tl u"]
    by (cases u) (auto simp: lex_int_def split: if_splits)
  have frac: "lex_frac u = Some (i, t) \<Longrightarrow> length t \<le> length u" for u i t
    using dw [of "tl u"]
    by (cases u) (auto simp: lex_frac_def split: if_splits)
  have exp: "lex_exp u = Some (i, t) \<Longrightarrow> length t \<le> length u" for u i t
    using dw [of "tl u"] dw [of "tl (tl u)"]
    by (cases u) (auto simp: lex_exp_def split: if_splits list.splits)
  assume "lex_number s = Some (n, t)"
  then show ?thesis
    by (auto simp: lex_number_def split: option.splits list.splits if_splits
        dest!: int frac exp)
qed

lemma lex_token_shorter: "lex_token s = Some (k, t) \<Longrightarrow> length t < length s"
  by (cases s) (auto simp: lex_token_def split: option.splits if_splits
      dest: lex_string_shorter lex_number_shorter)

function jlex :: "gostring \<Rightarrow> token list option" where
  "jlex [] = Some []"
| "jlex (c # s) =
     (if json_space c then jlex s
      else case lex_token (c # s) of
             None \<Rightarrow> None
           | Some (k, t) \<Rightarrow> map_option ((#) k) (jlex t))"
  by pat_completeness auto
termination
  by (relation "measure length") (auto dest: lex_token_shorter)

section \<open>The stack machine\<close>

datatype frame = ArrF "json list" | ObjF "(gostring \<times> json) list" gostring

datatype mode =
    MValue | MValueOrEnd | MKeyOrEnd | MKey
  | MColon | MSep | MDone json

definition maxNestingDepth :: nat where
  "maxNestingDepth = 10000"

fun deliver :: "json \<Rightarrow> frame list \<Rightarrow> mode \<times> frame list" where
  "deliver v [] = (MDone v, [])"
| "deliver v (ArrF vs # st) = (MSep, ArrF (v # vs) # st)"
| "deliver v (ObjF kvs k # st) = (MSep, ObjF ((k, v) # kvs) k # st)"

definition open_frame :: "mode \<Rightarrow> frame \<Rightarrow> frame list \<Rightarrow> (mode \<times> frame list) option" where
  "open_frame m f st = (if length st < maxNestingDepth then Some (m, f # st) else None)"

fun value_token :: "token \<Rightarrow> frame list \<Rightarrow> (mode \<times> frame list) option" where
  "value_token (TLit v) st = Some (deliver v st)"
| "value_token TLBrack st = open_frame MValueOrEnd (ArrF []) st"
| "value_token TLBrace st = open_frame MKeyOrEnd (ObjF [] []) st"
| "value_token _ st = None"

fun key_token :: "token \<Rightarrow> frame list \<Rightarrow> (mode \<times> frame list) option" where
  "key_token (TLit (JStr k)) (ObjF kvs k0 # st) = Some (MColon, ObjF kvs k # st)"
| "key_token _ _ = None"

fun jstep :: "mode \<times> frame list \<Rightarrow> token \<Rightarrow> (mode \<times> frame list) option" where
  "jstep (MValue, st) t = value_token t st"
| "jstep (MValueOrEnd, st) t =
     (case (t, st) of
        (TRBrack, ArrF vs # st') \<Rightarrow> Some (deliver (JArr (rev vs)) st')
      | _ \<Rightarrow> value_token t st)"
| "jstep (MKeyOrEnd, st) t =
     (case (t, st) of
        (TRBrace, ObjF kvs k # st') \<Rightarrow> Some (deliver (JObj (rev kvs)) st')
      | _ \<Rightarrow> key_token t st)"
| "jstep (MKey, st) t = key_token t st"
| "jstep (MColon, st) t = (if t = TColon then Some (MValue, st) else None)"
| "jstep (MSep, st) t =
     (case (t, st) of
        (TComma, ArrF vs # st') \<Rightarrow> Some (MValue, st)
      | (TComma, ObjF kvs k # st') \<Rightarrow> Some (MKey, st)
      | (TRBrack, ArrF vs # st') \<Rightarrow> Some (deliver (JArr (rev vs)) st')
      | (TRBrace, ObjF kvs k # st') \<Rightarrow> Some (deliver (JObj (rev kvs)) st')
      | _ \<Rightarrow> None)"
| "jstep (MDone v, st) t = None"

fun jrun :: "mode \<times> frame list \<Rightarrow> token list \<Rightarrow> json option" where
  "jrun s [] = (case fst s of MDone v \<Rightarrow> Some v | _ \<Rightarrow> None)"
| "jrun s (t # ts) = (case jstep s t of None \<Rightarrow> None | Some s' \<Rightarrow> jrun s' ts)"

definition json_parse :: "gostring \<Rightarrow> (json_error, json) result" where
  "json_parse s = (case Option.bind (jlex s) (jrun (MValue, [])) of
     Some v \<Rightarrow> Ok v
   | None \<Rightarrow> Err SyntaxError)"

section \<open>Decoding\<close>

fun fold_result :: "('a \<Rightarrow> 'b \<Rightarrow> ('e, 'b) result) \<Rightarrow> 'a list \<Rightarrow> 'b \<Rightarrow> ('e, 'b) result" where
  "fold_result f [] b = Ok b"
| "fold_result f (x # xs) b = (case f x b of Err e \<Rightarrow> Err e | Ok b' \<Rightarrow> fold_result f xs b')"

fun decode_string :: "gostring \<Rightarrow> json \<Rightarrow> (json_error, gostring) result" where
  "decode_string old JNull = Ok old"
| "decode_string old (JStr s) = Ok s"
| "decode_string old _ = Err UnmarshalTypeError"

fun decode_string_ptr :: "json \<Rightarrow> (json_error, gostring option) result" where
  "decode_string_ptr JNull = Ok None"
| "decode_string_ptr (JStr s) = Ok (Some s)"
| "decode_string_ptr _ = Err UnmarshalTypeError"

text \<open>The elements of an array, each decoded into the element the slice held at its place.\<close>

fun decode_elems ::
    "('a \<Rightarrow> json \<Rightarrow> (json_error, 'a) result) \<Rightarrow> 'a \<Rightarrow> 'a list \<Rightarrow> json list \<Rightarrow> (json_error, 'a list) result" where
  "decode_elems f z olds [] = Ok []"
| "decode_elems f z olds (j # js) =
     (case f (case olds of [] \<Rightarrow> z | x # _ \<Rightarrow> x) j of
        Err e \<Rightarrow> Err e
      | Ok x \<Rightarrow> (case decode_elems f z (tl olds) js of Err e \<Rightarrow> Err e | Ok xs \<Rightarrow> Ok (x # xs)))"

fun decode_slice ::
    "('a \<Rightarrow> json \<Rightarrow> (json_error, 'a) result) \<Rightarrow> 'a \<Rightarrow> 'a list \<Rightarrow> json \<Rightarrow> (json_error, 'a list) result" where
  "decode_slice f z olds JNull = Ok []"
| "decode_slice f z olds (JArr js) = decode_elems f z olds js"
| "decode_slice f z olds _ = Err UnmarshalTypeError"

text \<open>The field a key stands for: the exact name, else the first name equal up to case.\<close>

definition field_of :: "gostring list \<Rightarrow> gostring \<Rightarrow> gostring option" where
  "field_of names k = (if k \<in> set names then Some k else find (\<lambda>n. EqualFold n k) names)"

definition decode_struct ::
    "gostring list \<Rightarrow> (gostring \<Rightarrow> json \<Rightarrow> 'a \<Rightarrow> (json_error, 'a) result) \<Rightarrow> 'a \<Rightarrow> json \<Rightarrow> (json_error, 'a) result" where
  "decode_struct names set_field old j = (case j of
     JNull \<Rightarrow> Ok old
   | JObj kvs \<Rightarrow>
       fold_result (\<lambda>(k, v) r. case field_of names k of
                        Some n \<Rightarrow> set_field n v r
                      | None \<Rightarrow> Ok r) kvs old
   | _ \<Rightarrow> Err UnmarshalTypeError)"

text \<open>\<open>map[string]json.RawMessage\<close> and \<open>[]json.RawMessage\<close>: the raw values stay trees.\<close>

fun decode_raw_map :: "json \<Rightarrow> (json_error, (gostring \<rightharpoonup> json) option) result" where
  "decode_raw_map JNull = Ok None"
| "decode_raw_map (JObj kvs) = Ok (Some (map_of (rev kvs)))"
| "decode_raw_map _ = Err UnmarshalTypeError"

fun decode_raw_slice :: "json \<Rightarrow> (json_error, json list) result" where
  "decode_raw_slice JNull = Ok []"
| "decode_raw_slice (JArr js) = Ok js"
| "decode_raw_slice _ = Err UnmarshalTypeError"

definition Unmarshal ::
    "(json \<Rightarrow> (json_error, 'a) result) \<Rightarrow> gostring \<Rightarrow> (json_error, 'a) result" where
  "Unmarshal decode s = (case json_parse s of Err e \<Rightarrow> Err e | Ok j \<Rightarrow> decode j)"

text \<open>For examples: a text written with the grave accent in place of the quotation mark.\<close>

definition json_text :: "string \<Rightarrow> gostring" where
  "json_text s = map (\<lambda>c. if c = CHR ''`'' then CHR 0x22 else c) s"

section \<open>Facts on decoding\<close>

lemma decode_elems_Ok:
  "(\<And>z j. j \<in> set js \<Longrightarrow> \<exists>x. f z j = Ok x) \<Longrightarrow> \<exists>xs. decode_elems f z olds js = Ok xs \<and> length xs = length js"
proof (induction js arbitrary: olds)
  case (Cons j js)
  from Cons.IH [of "tl olds"] Cons.prems obtain xs
    where xs: "decode_elems f z (tl olds) js = Ok xs" "length xs = length js" by auto
  from Cons.prems [of j "case olds of [] \<Rightarrow> z | x # _ \<Rightarrow> x"] obtain x
    where "f (case olds of [] \<Rightarrow> z | x # _ \<Rightarrow> x) j = Ok x" by auto
  with xs show ?case by simp
qed simp

lemma fold_result_Ok:
  "(\<And>x b. x \<in> set xs \<Longrightarrow> \<exists>b'. f x b = Ok b') \<Longrightarrow> \<exists>b'. fold_result f xs b = Ok b'"
proof (induction xs arbitrary: b)
  case (Cons x xs)
  from Cons.prems [of x b] obtain b' where "f x b = Ok b'" by auto
  with Cons show ?case by simp
qed simp

lemma length_decode_elems: "decode_elems f z olds js = Ok xs \<Longrightarrow> length xs = length js"
  by (induction js arbitrary: olds xs) (auto split: sum.splits)

end
