(* ===== verification/Ranges.thy ===== *)
theory Ranges
  imports Version GoJson
begin

text \<open>
  Affected-version ranges: parsing of the OSV and the flat range format, the matcher
  \<open>VersionAffected\<close> and the fix advice of \<open>internal/version/compare.go\<close> and
  \<open>fixed_for_version.go\<close>, and the shape rule for stored ranges of \<open>range_shape.go\<close>.

  The lemmas relate the matcher to the evaluation algorithm of the OSV schema, characterise
  when a version counts as unaffected, and show what the fix advice guarantees and that ranges
  that pass the shape rule can be parsed.
\<close>

section \<open>Parsed ranges\<close>

record osvRangeEvent =
  Introduced :: gostring
  Fixed :: gostring
  LastAffected :: gostring
  Limit :: gostring

record osvRange =
  RType :: gostring
  Events :: "osvRangeEvent list"

record flatRange =
  FIntroduced :: gostring
  FFixed :: gostring
  FLastAffected :: gostring

definition zero_event :: osvRangeEvent where
  "zero_event = \<lparr>Introduced = [], Fixed = [], LastAffected = [], Limit = []\<rparr>"

definition zero_range :: osvRange where
  "zero_range = \<lparr>RType = [], Events = []\<rparr>"

definition zero_flat :: flatRange where
  "zero_flat = \<lparr>FIntroduced = [], FFixed = [], FLastAffected = []\<rparr>"

definition set_event_field ::
    "gostring \<Rightarrow> json \<Rightarrow> osvRangeEvent \<Rightarrow> (json_error, osvRangeEvent) result" where
  "set_event_field n v e =
     (if n = ''introduced'' then map_sum id (\<lambda>s. e\<lparr>Introduced := s\<rparr>) (decode_string (Introduced e) v)
      else if n = ''fixed'' then map_sum id (\<lambda>s. e\<lparr>Fixed := s\<rparr>) (decode_string (Fixed e) v)
      else if n = ''last_affected'' then
        map_sum id (\<lambda>s. e\<lparr>LastAffected := s\<rparr>) (decode_string (LastAffected e) v)
      else map_sum id (\<lambda>s. e\<lparr>Limit := s\<rparr>) (decode_string (Limit e) v))"

definition event_fields :: "gostring list" where
  "event_fields = [''introduced'', ''fixed'', ''last_affected'', ''limit'']"

definition decode_event :: "osvRangeEvent \<Rightarrow> json \<Rightarrow> (json_error, osvRangeEvent) result" where
  "decode_event = decode_struct event_fields set_event_field"

definition set_range_field :: "gostring \<Rightarrow> json \<Rightarrow> osvRange \<Rightarrow> (json_error, osvRange) result" where
  "set_range_field n v r =
     (if n = ''type'' then map_sum id (\<lambda>s. r\<lparr>RType := s\<rparr>) (decode_string (RType r) v)
      else map_sum id (\<lambda>es. r\<lparr>Events := es\<rparr>) (decode_slice decode_event zero_event (Events r) v))"

definition decode_range :: "osvRange \<Rightarrow> json \<Rightarrow> (json_error, osvRange) result" where
  "decode_range = decode_struct [''type'', ''events''] set_range_field"

definition decode_ranges :: "json \<Rightarrow> (json_error, osvRange list) result" where
  "decode_ranges = decode_slice decode_range zero_range []"

definition set_flat_field :: "gostring \<Rightarrow> json \<Rightarrow> flatRange \<Rightarrow> (json_error, flatRange) result" where
  "set_flat_field n v f =
     (if n = ''introduced'' then map_sum id (\<lambda>s. f\<lparr>FIntroduced := s\<rparr>) (decode_string (FIntroduced f) v)
      else if n = ''fixed'' then map_sum id (\<lambda>s. f\<lparr>FFixed := s\<rparr>) (decode_string (FFixed f) v)
      else map_sum id (\<lambda>s. f\<lparr>FLastAffected := s\<rparr>) (decode_string (FLastAffected f) v))"

definition decode_flats :: "json \<Rightarrow> (json_error, flatRange list) result" where
  "decode_flats = decode_slice
     (decode_struct [''introduced'', ''fixed'', ''last_affected''] set_flat_field) zero_flat []"

definition isFlatFormat :: "osvRange list \<Rightarrow> gostring \<Rightarrow> bool" where
  "isFlatFormat ranges raw =
     (if ranges = [] then False
      else if (\<exists>r \<in> set ranges. Events r \<noteq> []) then False
      else Contains raw (CHR 0x22 # ''introduced'' @ [CHR 0x22]))"

definition flat_events :: "flatRange \<Rightarrow> osvRangeEvent list" where
  "flat_events f =
     (if FIntroduced f \<noteq> [] then [zero_event\<lparr>Introduced := FIntroduced f\<rparr>] else []) @
     (if FFixed f \<noteq> [] then [zero_event\<lparr>Fixed := FFixed f\<rparr>] else []) @
     (if FLastAffected f \<noteq> [] then [zero_event\<lparr>LastAffected := FLastAffected f\<rparr>] else [])"

definition flatToFull :: "flatRange list \<Rightarrow> osvRange list" where
  "flatToFull flat =
     map (\<lambda>f. \<lparr>RType = ''SEMVER'', Events = flat_events f\<rparr>) (filter (\<lambda>f. flat_events f \<noteq> []) flat)"

definition parseRanges :: "gostring \<Rightarrow> (json_error, osvRange list) result" where
  "parseRanges rangesJSON =
     (case Unmarshal decode_ranges rangesJSON of
        Err e \<Rightarrow> Err e
      | Ok full \<Rightarrow>
          if isFlatFormat full rangesJSON then
            (case Unmarshal decode_flats rangesJSON of
               Err e \<Rightarrow> Ok full
             | Ok flat \<Rightarrow> Ok (flatToFull flat))
          else Ok full)"

section \<open>Matching\<close>

definition normalizeIntroduced :: "gostring \<Rightarrow> gostring" where
  "normalizeIntroduced introduced = (if introduced = ''0'' then [] else introduced)"

definition versionInRange ::
    "gostring \<Rightarrow> gostring \<Rightarrow> gostring \<Rightarrow> gostring \<Rightarrow> (gostring \<Rightarrow> gostring \<Rightarrow> int) \<Rightarrow> bool" where
  "versionInRange version introduced fixed lastAffected cmp =
     (if introduced \<noteq> [] \<and> cmp version introduced < 0 then False
      else if fixed \<noteq> [] \<and> cmp version fixed \<ge> 0 then False
      else if lastAffected \<noteq> [] \<and> cmp version lastAffected > 0 then False
      else True)"

text \<open>The loop over the events of one range, with its two local variables.\<close>

fun matchEvents ::
    "(gostring \<Rightarrow> gostring \<Rightarrow> int) \<Rightarrow> gostring \<Rightarrow> gostring \<Rightarrow> bool \<Rightarrow> osvRangeEvent list \<Rightarrow> bool" where
  "matchEvents cmp version introduced hadIntroduced [] =
     (hadIntroduced \<and> (introduced = [] \<or> cmp version introduced \<ge> 0))"
| "matchEvents cmp version introduced hadIntroduced (event # events) =
     (let introduced = (if Introduced event \<noteq> [] then normalizeIntroduced (Introduced event) else introduced);
          hadIntroduced = (if Introduced event \<noteq> [] then True else hadIntroduced)
      in if Fixed event = [] \<and> LastAffected event = [] \<and> Limit event = []
         then matchEvents cmp version introduced hadIntroduced events
         else if versionInRange version introduced (Fixed event) (LastAffected event) cmp then True
         else matchEvents cmp version [] False events)"

fun matchRanges_loop :: "gostring \<Rightarrow> gostring \<Rightarrow> nat \<Rightarrow> osvRange list \<Rightarrow> bool \<times> nat" where
  "matchRanges_loop version ecosystem evaluated [] = (False, evaluated)"
| "matchRanges_loop version ecosystem evaluated (item # items) =
     (if EqualFold (RType item) ''GIT'' then matchRanges_loop version ecosystem evaluated items
      else if skipRangeComparisonForVersion version (RType item) ecosystem
      then matchRanges_loop version ecosystem (evaluated + 1) items
      else if matchEvents (\<lambda>a b. Compare a b (RType item) ecosystem) version [] False (Events item)
      then (True, evaluated + 1)
      else matchRanges_loop version ecosystem (evaluated + 1) items)"

definition matchRanges :: "gostring \<Rightarrow> gostring \<Rightarrow> gostring \<Rightarrow> bool \<times> nat \<times> json_error option" where
  "matchRanges version rangesJSON ecosystem =
     (case parseRanges rangesJSON of
        Err e \<Rightarrow> (True, 0, Some e)
      | Ok ranges \<Rightarrow>
          if ranges = [] then (False, 0, None)
          else case matchRanges_loop version ecosystem 0 ranges of (affected, evaluated) \<Rightarrow>
            (affected, evaluated, None))"

definition decode_versions :: "json \<Rightarrow> (json_error, gostring list) result" where
  "decode_versions = decode_slice decode_string [] []"

text \<open>A JSON argument of \<open>VersionAffected\<close> that carries data.\<close>

definition given :: "gostring \<Rightarrow> bool" where
  "given j \<longleftrightarrow> j \<noteq> [] \<and> j \<noteq> ''null''"

definition VersionAffected ::
    "gostring \<Rightarrow> gostring \<Rightarrow> gostring \<Rightarrow> gostring \<Rightarrow> bool \<times> json_error option" where
  "VersionAffected version versionRangesJSON versionsJSON ecosystem =
     (let rangesJSON = TrimSpace versionRangesJSON;
          versJSON = TrimSpace versionsJSON;
          (affected, count, err) =
            (if given rangesJSON then matchRanges version rangesJSON ecosystem else (False, 0, None))
      in if err \<noteq> None then (True, err)
         else if affected then (True, None)
         else let hasRanges = 0 < count in
           case (if given versJSON then Unmarshal decode_versions versJSON else Ok []) of
             Err e \<Rightarrow> (True, Some e)
           | Ok versions \<Rightarrow>
               if (\<exists>candidate \<in> set versions. versionsEqual version candidate ecosystem) then (True, None)
               else if hasRanges \<or> versions \<noteq> [] then (False, None)
               else (True, None))"

section \<open>Fix advice\<close>

definition fixes_of :: "osvRange list \<Rightarrow> gostring list" where
  "fixes_of ranges = filter (\<lambda>f. f \<noteq> []) (map Fixed (concat (map Events ranges)))"

fun lowest_fix :: "gostring \<Rightarrow> gostring list \<Rightarrow> gostring" where
  "lowest_fix best [] = best"
| "lowest_fix best (f # fs) =
     (if f = [] then lowest_fix best fs
      else if best = [] \<or> compareSemver f best < 0 then lowest_fix f fs
      else lowest_fix best fs)"

definition ExtractFixedVersion :: "gostring \<Rightarrow> gostring" where
  "ExtractFixedVersion versionRangesJSON =
     (let rangesJSON = TrimSpace versionRangesJSON in
      if \<not> given rangesJSON then []
      else case parseRanges rangesJSON of
             Err e \<Rightarrow> []
           | Ok ranges \<Rightarrow> lowest_fix [] (map Fixed (concat (map Events ranges))))"

fun fixEvents ::
    "(gostring \<Rightarrow> gostring \<Rightarrow> int) \<Rightarrow> gostring \<Rightarrow> gostring \<Rightarrow> osvRangeEvent list \<Rightarrow> gostring option" where
  "fixEvents cmp installed introduced [] = None"
| "fixEvents cmp installed introduced (event # events) =
     (let introduced = (if Introduced event \<noteq> [] then normalizeIntroduced (Introduced event) else introduced)
      in if Fixed event = [] \<and> LastAffected event = [] \<and> Limit event = []
         then fixEvents cmp installed introduced events
         else if versionInRange installed introduced (Fixed event) (LastAffected event) cmp \<and> Fixed event \<noteq> []
         then Some (Fixed event)
         else fixEvents cmp installed [] events)"

fun fixRanges :: "gostring \<Rightarrow> gostring \<Rightarrow> osvRange list \<Rightarrow> gostring option" where
  "fixRanges installed ecosystem [] = None"
| "fixRanges installed ecosystem (item # items) =
     (if EqualFold (RType item) ''GIT'' then fixRanges installed ecosystem items
      else if skipRangeComparisonForVersion installed (RType item) ecosystem
      then fixRanges installed ecosystem items
      else case fixEvents (\<lambda>a b. Compare a b (RType item) ecosystem) installed [] (Events item) of
             Some f \<Rightarrow> Some f
           | None \<Rightarrow> fixRanges installed ecosystem items)"

definition ExtractFixedVersionFor :: "gostring \<Rightarrow> gostring \<Rightarrow> gostring \<Rightarrow> gostring" where
  "ExtractFixedVersionFor installed versionRangesJSON ecosystem =
     (let fallback = ExtractFixedVersion versionRangesJSON;
          installed = TrimSpace installed;
          rangesJSON = TrimSpace versionRangesJSON
      in if installed = [] then fallback
         else if \<not> given rangesJSON then fallback
         else case parseRanges rangesJSON of
                Err e \<Rightarrow> fallback
              | Ok ranges \<Rightarrow>
                  (case fixRanges installed ecosystem ranges of Some f \<Rightarrow> f | None \<Rightarrow> fallback))"

definition ExtractFixedVersionConstraintFor :: "gostring \<Rightarrow> gostring \<Rightarrow> gostring \<Rightarrow> gostring" where
  "ExtractFixedVersionConstraintFor installed versionRangesJSON ecosystem =
     (let fixed = ExtractFixedVersionFor installed versionRangesJSON ecosystem in
      if fixed = [] then [] else ''>= '' @ fixed)"

section \<open>Shape of stored ranges\<close>

record RangeShapeError =
  Path :: gostring
  Reason :: gostring

definition rangeBoundaryKeys :: "gostring list" where
  "rangeBoundaryKeys = [''introduced'', ''fixed'', ''last_affected'', ''limit'']"

definition shape_error :: "gostring \<Rightarrow> gostring \<Rightarrow> RangeShapeError option" where
  "shape_error p r = Some \<lparr>Path = p, Reason = r\<rparr>"

fun boundary_loop ::
    "(gostring \<rightharpoonup> json) \<Rightarrow> gostring \<Rightarrow> bool \<Rightarrow> gostring list \<Rightarrow> RangeShapeError option" where
  "boundary_loop event eventPath hasBoundary [] =
     (if hasBoundary then None
      else shape_error eventPath ''must set introduced, fixed, last_affected, or limit'')"
| "boundary_loop event eventPath hasBoundary (key # keys) =
     (case event key of
        None \<Rightarrow> boundary_loop event eventPath hasBoundary keys
      | Some rawValue \<Rightarrow>
          (case decode_string_ptr rawValue of
             Err e \<Rightarrow> shape_error (eventPath @ ''.'' @ key) ''must be a string''
           | Ok v \<Rightarrow>
               boundary_loop event eventPath
                 (hasBoundary \<or> (case v of Some s \<Rightarrow> TrimSpace s \<noteq> [] | None \<Rightarrow> False)) keys))"

definition checkRangeEventShape :: "json \<Rightarrow> gostring \<Rightarrow> RangeShapeError option" where
  "checkRangeEventShape raw eventPath =
     (case decode_raw_map raw of
        Ok (Some event) \<Rightarrow> boundary_loop event eventPath False rangeBoundaryKeys
      | _ \<Rightarrow> shape_error eventPath ''must be an event object'')"

fun first_error :: "(nat \<Rightarrow> json \<Rightarrow> RangeShapeError option) \<Rightarrow> nat \<Rightarrow> json list \<Rightarrow> RangeShapeError option" where
  "first_error f i [] = None"
| "first_error f i (j # js) = (case f i j of Some e \<Rightarrow> Some e | None \<Rightarrow> first_error f (i + 1) js)"

definition index_path :: "nat \<Rightarrow> gostring" where
  "index_path i = ''['' @ Itoa (int i) @ '']''"

definition checkRangeShape :: "nat \<Rightarrow> json \<Rightarrow> RangeShapeError option" where
  "checkRangeShape i rawRange =
     (let rangePath = index_path i in
      case decode_raw_map rawRange of
        Ok (Some versionRange) \<Rightarrow>
          (if (case versionRange ''type'' of
                 Some rawType \<Rightarrow> (case decode_string_ptr rawType of Err _ \<Rightarrow> True | Ok _ \<Rightarrow> False)
               | None \<Rightarrow> False)
           then shape_error (rangePath @ ''.type'') ''must be a string''
           else case (case versionRange ''events'' of
                        Some rawEvents \<Rightarrow> decode_raw_slice rawEvents
                      | None \<Rightarrow> Ok []) of
                  Err _ \<Rightarrow> shape_error (rangePath @ ''.events'') ''must be an array of event objects''
                | Ok events \<Rightarrow>
                    if events = [] then shape_error (rangePath @ ''.events'') ''must not be empty''
                    else first_error
                      (\<lambda>j rawEvent. checkRangeEventShape rawEvent (rangePath @ ''.events'' @ index_path j))
                      0 events)
      | _ \<Rightarrow> shape_error rangePath ''must be a range object'')"

definition CheckRangesShape :: "gostring \<Rightarrow> RangeShapeError option" where
  "CheckRangesShape raw =
     (case Unmarshal decode_raw_slice raw of
        Err _ \<Rightarrow> shape_error [] ''must be an array of range objects''
      | Ok ranges \<Rightarrow> first_error checkRangeShape 0 ranges)"

section \<open>The evaluation algorithm of the OSV schema\<close>

text \<open>
  The schema evaluates a range by walking its events in order: an \<open>introduced\<close> at or below the
  version turns the version vulnerable, a \<open>fixed\<close> at or below it or a \<open>last_affected\<close> below it turns
  it back. The introduced version 0 is below every version.
\<close>

definition osv_step ::
    "(gostring \<Rightarrow> gostring \<Rightarrow> int) \<Rightarrow> gostring \<Rightarrow> osvRangeEvent \<Rightarrow> bool \<Rightarrow> bool" where
  "osv_step cmp v e vulnerable =
     (if Introduced e \<noteq> [] \<and> (Introduced e = ''0'' \<or> cmp v (Introduced e) \<ge> 0) then True
      else if Fixed e \<noteq> [] \<and> cmp v (Fixed e) \<ge> 0 then False
      else if LastAffected e \<noteq> [] \<and> cmp v (LastAffected e) > 0 then False
      else vulnerable)"

definition osv_vulnerable ::
    "(gostring \<Rightarrow> gostring \<Rightarrow> int) \<Rightarrow> gostring \<Rightarrow> osvRangeEvent list \<Rightarrow> bool" where
  "osv_vulnerable cmp v events = fold (osv_step cmp v) events False"

text \<open>
  Ranges the schema calls well formed: \<open>introduced\<close> events alternate with \<open>fixed\<close> or
  \<open>last_affected\<close> events, in ascending order, each with one boundary.
\<close>

definition opens :: "osvRangeEvent \<Rightarrow> bool" where
  "opens e \<longleftrightarrow> Introduced e \<noteq> [] \<and> Fixed e = [] \<and> LastAffected e = [] \<and> Limit e = []"

definition closes :: "osvRangeEvent \<Rightarrow> bool" where
  "closes e \<longleftrightarrow> Introduced e = [] \<and> Limit e = [] \<and> (Fixed e \<noteq> []) \<noteq> (LastAffected e \<noteq> [])"

definition nonempty_interval ::
    "(gostring \<Rightarrow> gostring \<Rightarrow> int) \<Rightarrow> osvRangeEvent \<Rightarrow> osvRangeEvent \<Rightarrow> bool" where
  "nonempty_interval cmp e e' \<longleftrightarrow> Introduced e = ''0'' \<or>
     (if Fixed e' \<noteq> [] then cmp (Introduced e) (Fixed e') < 0
      else cmp (Introduced e) (LastAffected e') \<le> 0)"

definition reopens_later ::
    "(gostring \<Rightarrow> gostring \<Rightarrow> int) \<Rightarrow> osvRangeEvent \<Rightarrow> osvRangeEvent list \<Rightarrow> bool" where
  "reopens_later cmp e' es \<longleftrightarrow>
     (case es of [] \<Rightarrow> True
      | e # _ \<Rightarrow> Introduced e \<noteq> ''0'' \<and>
          (if Fixed e' \<noteq> [] then cmp (Fixed e') (Introduced e) \<le> 0
           else cmp (LastAffected e') (Introduced e) < 0))"

fun wf_events :: "(gostring \<Rightarrow> gostring \<Rightarrow> int) \<Rightarrow> osvRangeEvent list \<Rightarrow> bool" where
  "wf_events cmp [] = True"
| "wf_events cmp [e] = opens e"
| "wf_events cmp (e # e' # es) =
     (opens e \<and> closes e' \<and> nonempty_interval cmp e e' \<and> reopens_later cmp e' es \<and> wf_events cmp es)"

definition wf_range :: "gostring \<Rightarrow> osvRange \<Rightarrow> bool" where
  "wf_range eco r \<longleftrightarrow> wf_events (\<lambda>a b. Compare a b (RType r) eco) (Events r)"

locale version_order = three_way cmp
  for cmp :: "gostring \<Rightarrow> gostring \<Rightarrow> int"
begin

lemma below_later_events:
  assumes "wf_events cmp es" and "es \<noteq> []" and "Introduced (hd es) \<noteq> ''0''"
    and "cmp v (Introduced (hd es)) < 0"
  shows "fold (osv_step cmp v) es b = b"
  using assms
proof (induction es arbitrary: b rule: induct_list012)
  case (2 e)
  then show ?case by (simp add: osv_step_def opens_def)
next
  case (3 e e' es)
  have before: "Fixed e' \<noteq> [] \<longrightarrow> cmp v (Fixed e') < 0" "LastAffected e' \<noteq> [] \<longrightarrow> cmp v (LastAffected e') < 0"
    using 3 cmp_less_le_trans [of v "Introduced e" "LastAffected e'"]
      cmp_less_le_trans [of v "Introduced e" "Fixed e'"]
    by (auto simp: nonempty_interval_def closes_def)
  have "fold (osv_step cmp v) es b = b"
  proof (cases es)
    case (Cons f fs)
    then have "Introduced f \<noteq> ''0''" and "cmp v (Introduced f) < 0"
      using "3.prems" before cmp_less_le_trans [of v "Fixed e'" "Introduced f"]
        cmp_less_le_trans [of v "LastAffected e'" "Introduced f"]
      by (auto simp: reopens_later_def closes_def split: if_splits)
    then show ?thesis using "3.IH"(1) "3.prems" Cons by simp
  qed simp
  moreover have "osv_step cmp v e b = b" and "osv_step cmp v e' b = b"
    using "3.prems" before by (auto simp: osv_step_def opens_def closes_def)
  ultimately show ?case by simp
qed simp

text \<open>Within an interval no later event changes the verdict.\<close>

lemma matchEvents_osv:
  assumes "wf_events cmp es"
  shows "matchEvents cmp v [] False es = osv_vulnerable cmp v es"
  using assms
proof (induction es rule: induct_list012)
  case (2 e)
  then show ?case
    by (auto simp: osv_vulnerable_def osv_step_def opens_def normalizeIntroduced_def)
next
  case (3 e e' es)
  let ?in = "versionInRange v (normalizeIntroduced (Introduced e)) (Fixed e') (LastAffected e') cmp"
  have match: "matchEvents cmp v [] False (e # e' # es) = (?in \<or> matchEvents cmp v [] False es)"
    using "3.prems" by (auto simp: opens_def closes_def)
  have verdict: "osv_step cmp v e' (osv_step cmp v e False) = ?in"
    using "3.prems"
    by (auto simp: osv_step_def opens_def closes_def versionInRange_def normalizeIntroduced_def)
  show ?case
  proof (cases ?in)
    case True
    have "fold (osv_step cmp v) es True = True"
    proof (cases es)
      case (Cons f fs)
      have "cmp v (Introduced f) < 0"
        using True "3.prems" Cons cmp_less_le_trans [of v "Fixed e'" "Introduced f"]
          cmp_le_less_trans [of v "LastAffected e'" "Introduced f"]
        by (auto simp: reopens_later_def closes_def versionInRange_def split: if_splits)
      moreover have "Introduced f \<noteq> ''0''" using "3.prems" Cons by (simp add: reopens_later_def)
      ultimately show ?thesis using below_later_events [of es v True] "3.prems" Cons by simp
    qed simp
    then show ?thesis using True match verdict by (simp add: osv_vulnerable_def)
  next
    case False
    then show ?thesis using match verdict 3(1,3) by (simp add: osv_vulnerable_def)
  qed
qed (simp add: osv_vulnerable_def)

end

interpretation vorder: version_order "\<lambda>a b. Compare a b t eco" for t eco
  by (rule version_order.intro) (rule three_way_Compare)

section \<open>The matcher\<close>

text \<open>The data a call of \<open>VersionAffected\<close> works on.\<close>

definition ranges_given :: "gostring \<Rightarrow> (json_error, osvRange list) result" where
  "ranges_given j = (if given (TrimSpace j) then parseRanges (TrimSpace j) else Ok [])"

definition versions_given :: "gostring \<Rightarrow> (json_error, gostring list) result" where
  "versions_given j = (if given (TrimSpace j) then Unmarshal decode_versions (TrimSpace j) else Ok [])"

definition is_git :: "osvRange \<Rightarrow> bool" where
  "is_git r \<longleftrightarrow> EqualFold (RType r) ''GIT''"

text \<open>A range the version can be compared with.\<close>

definition comparable :: "gostring \<Rightarrow> gostring \<Rightarrow> osvRange \<Rightarrow> bool" where
  "comparable v eco r \<longleftrightarrow> \<not> is_git r \<and> \<not> skipRangeComparisonForVersion v (RType r) eco"

definition range_contains :: "gostring \<Rightarrow> gostring \<Rightarrow> osvRange \<Rightarrow> bool" where
  "range_contains v eco r \<longleftrightarrow> comparable v eco r \<and>
     matchEvents (\<lambda>a b. Compare a b (RType r) eco) v [] False (Events r)"

lemma matchRanges_loop_fst:
  "fst (matchRanges_loop v eco n rs) \<longleftrightarrow> (\<exists>r \<in> set rs. range_contains v eco r)"
  by (induction v eco n rs rule: matchRanges_loop.induct)
    (auto simp: range_contains_def comparable_def is_git_def)

lemma matchRanges_loop_snd:
  "\<not> fst (matchRanges_loop v eco n rs) \<Longrightarrow>
    snd (matchRanges_loop v eco n rs) = n + length (filter (\<lambda>r. \<not> is_git r) rs)"
  by (induction v eco n rs rule: matchRanges_loop.induct) (auto simp: is_git_def split: if_splits)

lemma matchRanges_Ok:
  "parseRanges j = Ok rs \<Longrightarrow> matchRanges v j eco =
    (fst (matchRanges_loop v eco 0 rs), snd (matchRanges_loop v eco 0 rs), None)"
  by (auto simp: matchRanges_def split: prod.split)

lemma VersionAffected_cases:
  "VersionAffected v rj vj eco =
     (case ranges_given rj of
        Err e \<Rightarrow> (True, Some e)
      | Ok rs \<Rightarrow>
          if (\<exists>r \<in> set rs. range_contains v eco r) then (True, None)
          else case versions_given vj of
                 Err e \<Rightarrow> (True, Some e)
               | Ok vs \<Rightarrow>
                   ((\<exists>c \<in> set vs. versionsEqual v c eco) \<or> (\<forall>r \<in> set rs. is_git r) \<and> vs = [], None))"
proof (cases "ranges_given rj")
  case (Inl e)
  then show ?thesis
    by (auto simp: VersionAffected_def ranges_given_def matchRanges_def split: if_splits)
next
  case (Inr rs)
  let ?m = "matchRanges_loop v eco 0 rs"
  have m: "(if given (TrimSpace rj) then matchRanges v (TrimSpace rj) eco else (False, 0, None)) =
      (fst ?m, snd ?m, None)"
    using Inr by (auto simp: ranges_given_def matchRanges_Ok split: if_splits)
  have "\<not> fst ?m \<Longrightarrow> (0 < snd ?m) = (\<not> (\<forall>r \<in> set rs. is_git r))"
    by (auto simp: matchRanges_loop_snd filter_empty_conv)
  then show ?thesis
    unfolding VersionAffected_def Let_def m
    using Inr by (auto simp: versions_given_def matchRanges_loop_fst split: sum.split)
qed

lemma range_contains_osv:
  assumes "wf_range eco r"
  shows "range_contains v eco r \<longleftrightarrow> comparable v eco r \<and>
    osv_vulnerable (\<lambda>a b. Compare a b (RType r) eco) v (Events r)"
  using assms vorder.matchEvents_osv [of "RType r" eco "Events r" v]
  by (simp add: range_contains_def wf_range_def)

section \<open>The lowest fix\<close>

lemma lowest_fix_fold:
  "lowest_fix best fs = (if best = [] then
     (case filter (\<lambda>f. f \<noteq> []) fs of [] \<Rightarrow> []
      | f # gs \<Rightarrow> fold (\<lambda>x b. if compareSemver x b < 0 then x else b) gs f)
     else fold (\<lambda>x b. if compareSemver x b < 0 then x else b) (filter (\<lambda>f. f \<noteq> []) fs) best)"
  by (induction best fs rule: lowest_fix.induct) auto

lemma lowest_fix_min:
  assumes "filter (\<lambda>f. f \<noteq> []) fs \<noteq> []"
  shows "lowest_fix [] fs \<in> set (filter (\<lambda>f. f \<noteq> []) fs)"
    and "\<forall>f \<in> set (filter (\<lambda>f. f \<noteq> []) fs). compareSemver (lowest_fix [] fs) f \<le> 0"
proof -
  obtain f gs where fs: "filter (\<lambda>f. f \<noteq> []) fs = f # gs" using assms by (cases "filter (\<lambda>f. f \<noteq> []) fs") auto
  then have "lowest_fix [] fs = fold (\<lambda>x b. if compareSemver x b < 0 then x else b) gs f"
    by (simp add: lowest_fix_fold)
  from semver.running_min [OF this] show "lowest_fix [] fs \<in> set (filter (\<lambda>f. f \<noteq> []) fs)"
    and "\<forall>f \<in> set (filter (\<lambda>f. f \<noteq> []) fs). compareSemver (lowest_fix [] fs) f \<le> 0"
    unfolding fs by simp_all
qed

lemma lowest_fix_none: "filter (\<lambda>f. f \<noteq> []) fs = [] \<Longrightarrow> lowest_fix [] fs = []"
  by (simp add: lowest_fix_fold)

lemma ExtractFixedVersion_given:
  "ranges_given j = Ok rs \<Longrightarrow> ExtractFixedVersion j = lowest_fix [] (map Fixed (concat (map Events rs)))"
  by (auto simp: ExtractFixedVersion_def ranges_given_def Let_def split: if_splits)

section \<open>The fix for a version\<close>

lemma fixEvents_SomeD:
  "fixEvents cmp v i es = Some f \<Longrightarrow> f \<noteq> [] \<and> cmp v f < 0 \<and> (\<exists>e \<in> set es. Fixed e = f)"
proof (induction es arbitrary: i)
  case (Cons e es)
  let ?i = "if Introduced e \<noteq> [] then normalizeIntroduced (Introduced e) else i"
  consider "fixEvents cmp v ?i es = Some f" | "fixEvents cmp v [] es = Some f"
    | "versionInRange v ?i (Fixed e) (LastAffected e) cmp" "Fixed e \<noteq> []" "Fixed e = f"
    using Cons.prems by (simp only: fixEvents.simps Let_def split: if_split_asm) auto
  then show ?case
  proof cases
    case 3
    then show ?thesis by (auto simp: versionInRange_def split: if_split_asm)
  qed (use Cons.IH in fastforce)+
qed simp

lemma fixRanges_SomeD:
  "fixRanges v eco rs = Some f \<Longrightarrow>
    \<exists>r \<in> set rs. comparable v eco r \<and> f \<noteq> [] \<and> Compare v f (RType r) eco < 0 \<and> (\<exists>e \<in> set (Events r). Fixed e = f)"
  by (induction v eco rs rule: fixRanges.induct)
    (auto simp: comparable_def is_git_def split: if_splits option.splits dest!: fixEvents_SomeD)

section \<open>Ranges that pass the shape rule\<close>

text \<open>
  The shape rule reads keys exactly and takes the last of repeated ones; the decoder also
  accepts keys up to case and decodes every occurrence. On objects where the two readings
  agree a value that passes the rule is decoded.
\<close>

definition exact_keys :: "gostring list \<Rightarrow> json \<Rightarrow> bool" where
  "exact_keys names j = (case j of
     JObj kvs \<Rightarrow> distinct (map fst kvs) \<and>
       (\<forall>(k, v) \<in> set kvs. field_of names k \<noteq> None \<longrightarrow> k \<in> set names)
   | _ \<Rightarrow> True)"

definition exact_range :: "json \<Rightarrow> bool" where
  "exact_range j \<longleftrightarrow> exact_keys [''type'', ''events''] j \<and>
     (case j of
        JObj kvs \<Rightarrow> (\<forall>(k, v) \<in> set kvs. case v of
            JArr es \<Rightarrow> k = ''events'' \<longrightarrow> (\<forall>e \<in> set es. exact_keys event_fields e)
          | _ \<Rightarrow> True)
      | _ \<Rightarrow> True)"

definition exact_ranges :: "json \<Rightarrow> bool" where
  "exact_ranges j = (case j of JArr rs \<Rightarrow> (\<forall>r \<in> set rs. exact_range r) | _ \<Rightarrow> True)"

definition has_boundary :: "osvRangeEvent \<Rightarrow> bool" where
  "has_boundary e \<longleftrightarrow> TrimSpace (Introduced e) \<noteq> [] \<or> TrimSpace (Fixed e) \<noteq> [] \<or>
     TrimSpace (LastAffected e) \<noteq> [] \<or> TrimSpace (Limit e) \<noteq> []"

definition text_or_null :: "json \<Rightarrow> bool" where
  "text_or_null v \<longleftrightarrow> v = JNull \<or> (\<exists>s. v = JStr s)"

definition text_of :: "gostring \<Rightarrow> json option \<Rightarrow> gostring" where
  "text_of old v = (case v of Some (JStr s) \<Rightarrow> s | _ \<Rightarrow> old)"

lemma text_of_None [simp]: "text_of old None = old"
  by (simp add: text_of_def)

lemma decode_string_ptr_Ok: "decode_string_ptr v = Ok x \<Longrightarrow> text_or_null v"
  by (cases v) (auto simp: text_or_null_def)

lemma decode_string_text: "text_or_null v \<Longrightarrow> decode_string old v = Ok (text_of old (Some v))"
  by (auto simp: text_or_null_def text_of_def)

lemma field_of_exact: "k \<in> set names \<Longrightarrow> field_of names k = Some k"
  by (simp add: field_of_def)

lemma field_of_mem: "field_of names k = Some n \<Longrightarrow> n \<in> set names"
  by (auto simp: field_of_def find_Some_iff split: if_splits)

lemma map_of_rev_distinct: "distinct (map fst kvs) \<Longrightarrow> map_of (rev kvs) = map_of kvs"
  by (rule map_of_inject_set [THEN iffD2]) (auto simp: rev_map [symmetric])

lemma decode_event_fields:
  assumes "distinct (map fst kvs)"
    and "\<forall>(k, v) \<in> set kvs. field_of event_fields k \<noteq> None \<longrightarrow> k \<in> set event_fields"
    and "\<forall>(k, v) \<in> set kvs. k \<in> set event_fields \<longrightarrow> text_or_null v"
  shows "decode_event e (JObj kvs) = Ok \<lparr>
    Introduced = text_of (Introduced e) (map_of kvs ''introduced''),
    Fixed = text_of (Fixed e) (map_of kvs ''fixed''),
    LastAffected = text_of (LastAffected e) (map_of kvs ''last_affected''),
    Limit = text_of (Limit e) (map_of kvs ''limit'')\<rparr>"
  using assms
proof (induction kvs arbitrary: e)
  case Nil
  then show ?case by (simp add: decode_event_def decode_struct_def text_of_def)
next
  case (Cons kv kvs)
  obtain k v where kv: "kv = (k, v)" by (cases kv)
  have fresh: "map_of kvs k = None" using Cons.prems(1) kv by (simp add: map_of_eq_None_iff)
  have IH: "decode_event e' (JObj kvs) = Ok \<lparr>
    Introduced = text_of (Introduced e') (map_of kvs ''introduced''),
    Fixed = text_of (Fixed e') (map_of kvs ''fixed''),
    LastAffected = text_of (LastAffected e') (map_of kvs ''last_affected''),
    Limit = text_of (Limit e') (map_of kvs ''limit'')\<rparr>" for e'
    using Cons by simp
  show ?case
  proof (cases "k \<in> set event_fields")
    case False
    then have "field_of event_fields k = None" using Cons.prems(2) kv by auto
    then have "decode_event e (JObj (kv # kvs)) = decode_event e (JObj kvs)"
      by (simp add: decode_event_def decode_struct_def kv)
    then show ?thesis using False IH by (auto simp: kv event_fields_def)
  next
    case True
    then have str: "decode_string old v = Ok (text_of old (Some v))" for old
      using Cons.prems(3) kv by (auto intro: decode_string_text)
    have step: "decode_event e (JObj (kv # kvs)) =
        (case set_event_field k v e of Err x \<Rightarrow> Err x | Ok e' \<Rightarrow> decode_event e' (JObj kvs))"
      using field_of_exact [OF True]
      by (simp add: decode_event_def decode_struct_def kv split: sum.split)
    from True consider "k = ''introduced''" | "k = ''fixed''" | "k = ''last_affected''" | "k = ''limit''"
      by (auto simp: event_fields_def)
    then show ?thesis
      using fresh unfolding step by cases (simp_all add: set_event_field_def str IH kv)
  qed
qed

lemma boundary_loop_None:
  assumes "boundary_loop event p h keys = None"
  shows "(\<forall>k \<in> set keys. \<forall>v. event k = Some v \<longrightarrow> text_or_null v) \<and>
    (h \<or> (\<exists>k \<in> set keys. TrimSpace (text_of [] (event k)) \<noteq> []))"
  using assms
proof (induction keys arbitrary: h)
  case (Cons k keys)
  show ?case
  proof (cases "event k")
    case None
    then show ?thesis using Cons by (auto simp: text_of_def)
  next
    case (Some v)
    then show ?thesis
      using Cons by (cases v) (auto simp: text_of_def text_or_null_def shape_error_def)
  qed
qed (simp add: shape_error_def split: if_splits)

lemma checkRangeEventShape_None:
  assumes "checkRangeEventShape raw p = None" and "exact_keys event_fields raw"
  shows "\<exists>e. decode_event zero_event raw = Ok e \<and> has_boundary e"
proof -
  obtain kvs where raw: "raw = JObj kvs"
    using assms(1) by (cases raw) (auto simp: checkRangeEventShape_def shape_error_def)
  have keys: "distinct (map fst kvs)"
    "\<forall>(k, v) \<in> set kvs. field_of event_fields k \<noteq> None \<longrightarrow> k \<in> set event_fields"
    using assms(2) by (auto simp: raw exact_keys_def)
  note loop = boundary_loop_None [of "map_of kvs" p False event_fields]
  have ok: "boundary_loop (map_of kvs) p False event_fields = None"
    using assms(1) keys
    by (simp add: raw checkRangeEventShape_def map_of_rev_distinct rangeBoundaryKeys_def event_fields_def)
  have "\<forall>(k, v) \<in> set kvs. k \<in> set event_fields \<longrightarrow> text_or_null v"
    using loop [OF ok] map_of_is_SomeI [OF keys(1)] by fastforce
  from decode_event_fields [OF keys this, of zero_event] loop [OF ok]
  show ?thesis by (auto simp: raw has_boundary_def event_fields_def zero_event_def)
qed

lemma first_error_None: "first_error f i js = None \<Longrightarrow> j \<in> set js \<Longrightarrow> \<exists>n. f n j = None"
  by (induction f i js rule: first_error.induct) (auto split: option.splits)

lemma decode_elems_zero:
  assumes "\<And>j. j \<in> set js \<Longrightarrow> \<exists>x. f z j = Ok x \<and> P x"
  shows "\<exists>xs. decode_elems f z [] js = Ok xs \<and> length xs = length js \<and> (\<forall>x \<in> set xs. P x)"
  using assms
proof (induction js)
  case (Cons j js)
  then obtain x xs where "f z j = Ok x" "P x" "decode_elems f z [] js = Ok xs"
    "length xs = length js" "\<forall>x \<in> set xs. P x" by fastforce
  then show ?case by simp
qed simp

lemma decode_range_fields:
  assumes "distinct (map fst kvs)"
    and "\<forall>(k, v) \<in> set kvs. field_of [''type'', ''events''] k \<noteq> None \<longrightarrow> k \<in> {''type'', ''events''}"
    and "\<forall>(k, v) \<in> set kvs. k = ''type'' \<longrightarrow> text_or_null v"
    and "\<forall>(k, v) \<in> set kvs. k = ''events'' \<longrightarrow> Events r = [] \<and> decode_slice decode_event zero_event [] v = Ok evs"
  shows "\<exists>r'. decode_range r (JObj kvs) = Ok r' \<and>
    Events r' = (if ''events'' \<in> fst ` set kvs then evs else Events r)"
  using assms
proof (induction kvs arbitrary: r)
  case Nil
  then show ?case by (simp add: decode_range_def decode_struct_def)
next
  case (Cons kv kvs)
  obtain k v where kv: "kv = (k, v)" by (cases kv)
  have step: "decode_range r (JObj ((k, v) # kvs)) =
      (case (case field_of [''type'', ''events''] k of Some n \<Rightarrow> set_range_field n v r | None \<Rightarrow> Ok r) of
         Err x \<Rightarrow> Err x | Ok r' \<Rightarrow> decode_range r' (JObj kvs))"
    by (simp add: decode_range_def decode_struct_def split: sum.split)
  have rest: "distinct (map fst kvs)" "k \<notin> fst ` set kvs"
    "\<forall>(k, v) \<in> set kvs. field_of [''type'', ''events''] k \<noteq> None \<longrightarrow> k \<in> {''type'', ''events''}"
    "\<forall>(k, v) \<in> set kvs. k = ''type'' \<longrightarrow> text_or_null v"
    "\<forall>(k, v) \<in> set kvs. k = ''events'' \<longrightarrow> Events r = [] \<and> decode_slice decode_event zero_event [] v = Ok evs"
    using Cons.prems kv by simp_all
  consider "k = ''type''" | "k = ''events''" | "field_of [''type'', ''events''] k = None" "k \<noteq> ''events''"
    using Cons.prems(2) kv by auto
  then show ?case
  proof cases
    case 1
    let ?r = "r\<lparr>RType := text_of (RType r) (Some v)\<rparr>"
    have "decode_string (RType r) v = Ok (text_of (RType r) (Some v))"
      using Cons.prems(3) kv 1 by (auto intro: decode_string_text)
    then have "decode_range r (JObj (kv # kvs)) = decode_range ?r (JObj kvs)"
      unfolding kv step by (simp add: 1 field_of_def set_range_field_def)
    moreover have "\<exists>r'. decode_range ?r (JObj kvs) = Ok r' \<and>
        Events r' = (if ''events'' \<in> fst ` set kvs then evs else Events ?r)"
      by (rule Cons.IH) (use rest in simp_all)
    ultimately show ?thesis by (auto simp: kv 1 split: if_splits)
  next
    case 2
    let ?r = "r\<lparr>Events := evs\<rparr>"
    have "decode_slice decode_event zero_event (Events r) v = Ok evs"
      using Cons.prems(4) kv 2 by auto
    then have "decode_range r (JObj (kv # kvs)) = decode_range ?r (JObj kvs)"
      unfolding kv step by (simp add: 2 field_of_def set_range_field_def)
    moreover have no: "\<forall>(k, v) \<in> set kvs. k \<noteq> ''events''" using rest(2) 2 by force
    have "\<exists>r'. decode_range ?r (JObj kvs) = Ok r' \<and>
        Events r' = (if ''events'' \<in> fst ` set kvs then evs else Events ?r)"
      by (rule Cons.IH) (use rest(1,3,4) no in auto)
    ultimately show ?thesis by (auto simp: kv 2 split: if_splits)
  next
    case 3
    then have "decode_range r (JObj (kv # kvs)) = decode_range r (JObj kvs)"
      unfolding kv step by simp
    moreover have "\<exists>r'. decode_range r (JObj kvs) = Ok r' \<and>
        Events r' = (if ''events'' \<in> fst ` set kvs then evs else Events r)"
      by (rule Cons.IH) (use rest in simp_all)
    ultimately show ?thesis using 3 by (auto simp: kv split: if_splits)
  qed
qed

lemma checkRangeShape_obj:
  assumes "checkRangeShape i (JObj kvs) = None" and "distinct (map fst kvs)"
  shows "\<forall>v. map_of kvs ''type'' = Some v \<longrightarrow> text_or_null v"
    and "\<exists>es. map_of kvs ''events'' = Some (JArr es) \<and> es \<noteq> [] \<and>
      first_error (\<lambda>j e. checkRangeEventShape e (index_path i @ ''.events'' @ index_path j)) 0 es = None"
proof -
  note unfold = checkRangeShape_def decode_raw_map.simps map_of_rev_distinct [OF assms(2)] Let_def
    shape_error_def
  show "\<forall>v. map_of kvs ''type'' = Some v \<longrightarrow> text_or_null v"
  proof (intro allI impI)
    fix v assume "map_of kvs ''type'' = Some v"
    with assms(1) show "text_or_null v" by (cases v) (simp_all add: unfold text_or_null_def)
  qed
  show "\<exists>es. map_of kvs ''events'' = Some (JArr es) \<and> es \<noteq> [] \<and>
      first_error (\<lambda>j e. checkRangeEventShape e (index_path i @ ''.events'' @ index_path j)) 0 es = None"
  proof (cases "map_of kvs ''events''")
    case None
    with assms(1) show ?thesis by (simp add: unfold split: if_split_asm)
  next
    case (Some v)
    with assms(1) show ?thesis by (cases v) (simp_all add: unfold split: if_split_asm)
  qed
qed

lemma checkRangeShape_None:
  assumes "checkRangeShape i raw = None" and "exact_range raw"
  shows "\<exists>r. decode_range zero_range raw = Ok r \<and> Events r \<noteq> [] \<and> (\<forall>e \<in> set (Events r). has_boundary e)"
proof -
  obtain kvs where raw: "raw = JObj kvs"
    using assms(1) by (cases raw) (simp_all add: checkRangeShape_def shape_error_def)
  have keys: "distinct (map fst kvs)"
    "\<forall>(k, v) \<in> set kvs. field_of [''type'', ''events''] k \<noteq> None \<longrightarrow> k \<in> {''type'', ''events''}"
    using assms(2) by (simp_all add: raw exact_range_def exact_keys_def)
  note obj = checkRangeShape_obj [OF assms(1) [unfolded raw] keys(1)]
  then obtain es where es: "map_of kvs ''events'' = Some (JArr es)" "es \<noteq> []"
    "first_error (\<lambda>j e. checkRangeEventShape e (index_path i @ ''.events'' @ index_path j)) 0 es = None"
    by blast
  have exact: "\<forall>e \<in> set es. exact_keys event_fields e"
    using assms(2) map_of_SomeD [OF es(1)] by (fastforce simp: raw exact_range_def)
  have "\<exists>e. decode_event zero_event j = Ok e \<and> has_boundary e" if "j \<in> set es" for j
    using first_error_None [OF es(3) that] checkRangeEventShape_None exact that by blast
  from decode_elems_zero [of es decode_event zero_event has_boundary, OF this]
  obtain evs where evs: "decode_elems decode_event zero_event [] es = Ok evs"
    "length evs = length es" "\<forall>e \<in> set evs. has_boundary e" by blast
  have ty: "\<forall>(k, v) \<in> set kvs. k = ''type'' \<longrightarrow> text_or_null v"
    using obj(1) map_of_is_SomeI [OF keys(1)] by fastforce
  have ev: "\<forall>(k, v) \<in> set kvs. k = ''events'' \<longrightarrow>
      Events zero_range = [] \<and> decode_slice decode_event zero_event [] v = Ok evs"
    using es(1) evs(1) map_of_is_SomeI [OF keys(1)] by (fastforce simp: zero_range_def)
  have "''events'' \<in> fst ` set kvs" using map_of_SomeD [OF es(1)] by force
  moreover have "evs \<noteq> []" using evs(2) es(2) by auto
  ultimately show ?thesis
    using decode_range_fields [OF keys ty ev] evs(3) by (auto simp: raw)
qed

lemma CheckRangesShape_parses:
  assumes "CheckRangesShape raw = None" and "json_parse raw = Ok j" and "exact_ranges j"
  shows "\<exists>rs. parseRanges raw = Ok rs \<and>
    (\<forall>r \<in> set rs. Events r \<noteq> [] \<and> (\<forall>e \<in> set (Events r). has_boundary e))"
proof -
  let ?P = "\<lambda>r. Events r \<noteq> [] \<and> (\<forall>e \<in> set (Events r). has_boundary e)"
  have "\<exists>rs. decode_ranges j = Ok rs \<and> (\<forall>r \<in> set rs. ?P r)"
  proof (cases j)
    case (JArr js)
    then have none: "first_error checkRangeShape 0 js = None"
      using assms by (simp add: CheckRangesShape_def Unmarshal_def)
    have "\<exists>r. decode_range zero_range r0 = Ok r \<and> ?P r" if "r0 \<in> set js" for r0
      using first_error_None [OF none that] checkRangeShape_None assms(3) that JArr
      by (fastforce simp: exact_ranges_def)
    from decode_elems_zero [of js decode_range zero_range ?P, OF this] show ?thesis
      by (auto simp: decode_ranges_def JArr)
  qed (use assms in \<open>auto simp: CheckRangesShape_def Unmarshal_def shape_error_def decode_ranges_def\<close>)
  then obtain rs where "decode_ranges j = Ok rs" "\<forall>r \<in> set rs. ?P r" by blast
  moreover from this have "\<not> isFlatFormat rs raw" by (cases rs) (auto simp: isFlatFormat_def)
  ultimately show ?thesis by (simp add: parseRanges_def Unmarshal_def assms(2))
qed

section \<open>Properties\<close>

text \<open>
  C4: Where every comparable range is well formed and there is something to evaluate,
  \<open>VersionAffected\<close> answers as the OSV schema prescribes: the version is affected exactly when
  the event walk of some comparable range ends vulnerable or the version is listed.
\<close>

theorem VersionAffected_osv:
  assumes "ranges_given rj = Ok rs" and "versions_given vj = Ok vs"
    and "\<forall>r \<in> set rs. comparable v eco r \<longrightarrow> wf_range eco r"
    and "(\<exists>r \<in> set rs. \<not> is_git r) \<or> vs \<noteq> []"
  shows "VersionAffected v rj vj eco =
    ((\<exists>r \<in> set rs. comparable v eco r \<and>
        osv_vulnerable (\<lambda>a b. Compare a b (RType r) eco) v (Events r)) \<or>
     (\<exists>c \<in> set vs. versionsEqual v c eco), None)"
proof -
  have "(\<exists>r \<in> set rs. range_contains v eco r) = (\<exists>r \<in> set rs. comparable v eco r \<and>
      osv_vulnerable (\<lambda>a b. Compare a b (RType r) eco) v (Events r))"
    using assms(3) range_contains_osv range_contains_def by blast
  then show ?thesis
    unfolding VersionAffected_cases assms(1,2) sum.case using assms(4) by auto
qed

theorem VersionAffected_osv_witness:
  "VersionAffected ''1.2.0'' (json_text ''[{`type`:`SEMVER`,`events`:[{`introduced`:`1.0`},{`fixed`:`1.2.3`}]}]'')
     [] ''npm'' = (True, None)"
proof -
  let ?rj = "json_text ''[{`type`:`SEMVER`,`events`:[{`introduced`:`1.0`},{`fixed`:`1.2.3`}]}]''"
  let ?r = "\<lparr>RType = ''SEMVER'', Events =
    [\<lparr>Introduced = ''1.0'', Fixed = [], LastAffected = [], Limit = []\<rparr>,
     \<lparr>Introduced = [], Fixed = ''1.2.3'', LastAffected = [], Limit = []\<rparr>]\<rparr>"
  have rs: "ranges_given ?rj = Ok [?r]" by code_simp
  have vs: "versions_given [] = Ok []" by code_simp
  have wf: "wf_range ''npm'' ?r" and git: "\<not> is_git ?r" by code_simp+
  have vul: "comparable ''1.2.0'' ''npm'' ?r"
    "osv_vulnerable (\<lambda>a b. Compare a b (RType ?r) ''npm'') ''1.2.0'' (Events ?r)" by code_simp+
  show ?thesis
    using VersionAffected_osv [of ?rj "[?r]" "[]" "[]" "''1.2.0''" "''npm''"] rs vs wf git vul by simp
qed


text \<open>
  The fix advice for an installed version is either the lowest fix of the advisory (the
  fallback) or the fix of a range of the advisory the version can be compared with, and then it
  is strictly above the installed version in that range's order.
\<close>

theorem ExtractFixedVersionFor_advice:
  "ExtractFixedVersionFor v rj eco = ExtractFixedVersion rj \<or>
   (\<exists>rs r e. ranges_given rj = Ok rs \<and> r \<in> set rs \<and> comparable (TrimSpace v) eco r \<and>
      e \<in> set (Events r) \<and> Fixed e = ExtractFixedVersionFor v rj eco \<and>
      Compare (TrimSpace v) (ExtractFixedVersionFor v rj eco) (RType r) eco < 0)"
  by (auto simp: ExtractFixedVersionFor_def ranges_given_def Let_def split: sum.splits option.splits
      dest!: fixRanges_SomeD)

text \<open>
  \<open>ExtractFixedVersion\<close> returns the empty string exactly when the ranges cannot be parsed or
  none has a fix; otherwise it returns one of the fixes and no fix is below it in semantic-version
  order.
\<close>

theorem ExtractFixedVersion_lowest:
  "case ranges_given rj of
     Err e \<Rightarrow> ExtractFixedVersion rj = []
   | Ok rs \<Rightarrow>
       if fixes_of rs = [] then ExtractFixedVersion rj = []
       else ExtractFixedVersion rj \<in> set (fixes_of rs) \<and>
         list_all (\<lambda>f. compareSemver (ExtractFixedVersion rj) f \<le> 0) (fixes_of rs)"
proof (cases "ranges_given rj")
  case (Inl e)
  then show ?thesis by (auto simp: ExtractFixedVersion_def ranges_given_def Let_def split: if_splits)
next
  case (Inr rs)
  show ?thesis
    using lowest_fix_min [of "map Fixed (concat (map Events rs))"]
      lowest_fix_none [of "map Fixed (concat (map Events rs))"]
    by (auto simp: Inr ExtractFixedVersion_given fixes_of_def list_all_iff simp del: filter_map)
qed

text \<open>
  C31: Ranges that pass the shape rule, in objects without repeated or case-variant keys, are
  accepted by the matcher's parser, and every parsed range has events and every event a
  nonblank boundary.
\<close>

theorem CheckRangesShape_sound:
  assumes "CheckRangesShape raw = None" and "json_parse raw = Ok j" and "exact_ranges j"
  shows "\<exists>rs. parseRanges raw = Ok rs \<and> list_all (\<lambda>r. Events r \<noteq> [] \<and> list_all has_boundary (Events r)) rs"
  using CheckRangesShape_parses [OF assms] by (auto simp: list_all_iff)

theorem CheckRangesShape_sound_witness:
  "\<exists>rs. parseRanges (json_text ''[{`events`:[{`introduced`:`0`}]}]'') = Ok rs \<and>
     list_all (\<lambda>r. Events r \<noteq> [] \<and> list_all has_boundary (Events r)) rs"
proof (rule CheckRangesShape_sound)
  show "CheckRangesShape (json_text ''[{`events`:[{`introduced`:`0`}]}]'') = None" by code_simp
  show "json_parse (json_text ''[{`events`:[{`introduced`:`0`}]}]'') =
      Ok (JArr [JObj [(''events'', JArr [JObj [(''introduced'', JStr ''0'')]])]])" by code_simp
  show "exact_ranges (JArr [JObj [(''events'', JArr [JObj [(''introduced'', JStr ''0'')]])]])"
    by code_simp
qed

text \<open>
  Without the hypothesis on keys the rule is not enough: a key that differs in case only passes
  it and makes the parser fail, so the version counts as affected with an error.
\<close>

lemma CheckRangesShape_case_variant:
  "CheckRangesShape (json_text ''[{`events`:[{`fixed`:`1`}],`Type`:5}]'') = None \<and>
   parseRanges (json_text ''[{`events`:[{`fixed`:`1`}],`Type`:5}]'') = Err UnmarshalTypeError"
  by (rule conjI; code_simp)

end
