(* ===== verification/Domain.thy ===== *)
theory Domain
  imports GoStrings
begin

text \<open>
  The vocabulary of \<open>internal/domain\<close>: severities, ecosystems, packages and the merging of their
  metadata (\<open>package_merge.go\<close>), findings and the blocking policy (\<open>scan.go\<close>). Go's named
  string types stay strings, as any string can reach the code through JSON. A nil slice and an
  empty slice are both the empty list.

  The lemmas show that merging is a semilattice operation on the metadata (so the order in which
  duplicates arrive does not matter, the declared version apart), that the blocking policy is
  monotone in the threshold, and that the summary counts every finding once.
\<close>

section \<open>Severities\<close>

type_synonym Severity = gostring

abbreviation SeverityCritical :: Severity where "SeverityCritical \<equiv> ''CRITICAL''"
abbreviation SeverityHigh :: Severity where "SeverityHigh \<equiv> ''HIGH''"
abbreviation SeverityMedium :: Severity where "SeverityMedium \<equiv> ''MEDIUM''"
abbreviation SeverityLow :: Severity where "SeverityLow \<equiv> ''LOW''"
abbreviation SeverityUnknown :: Severity where "SeverityUnknown \<equiv> ''UNKNOWN''"
abbreviation SeverityNone :: Severity where "SeverityNone \<equiv> ''NONE''"

definition Severity_Valid :: "Severity \<Rightarrow> bool" where
  "Severity_Valid s \<longleftrightarrow> s \<in> {SeverityCritical, SeverityHigh, SeverityMedium, SeverityLow,
     SeverityUnknown, SeverityNone}"

definition ParseBlockThreshold :: "gostring \<Rightarrow> Severity option" where
  "ParseBlockThreshold raw =
     (let threshold = ToUpper (TrimSpace raw) in
      if threshold \<in> {SeverityCritical, SeverityHigh, SeverityMedium, SeverityLow, SeverityNone}
      then Some threshold else None)"

definition Rank :: "Severity \<Rightarrow> nat" where
  "Rank s =
     (if s = SeverityCritical then 4 else if s = SeverityHigh then 3 else if s = SeverityMedium then 2
      else if s = SeverityLow then 1 else if s = SeverityUnknown then 1 else 0)"

definition Blocks :: "Severity \<Rightarrow> Severity \<Rightarrow> bool" where
  "Blocks s threshold \<longleftrightarrow> Rank s \<ge> Rank threshold"

section \<open>Ecosystems\<close>

type_synonym Ecosystem = gostring

definition all_ecosystems :: "Ecosystem list" where
  "all_ecosystems =
     [''npm'', ''pypi'', ''go'', ''maven'', ''cargo'', ''nuget'', ''composer'', ''gem'', ''pub'', ''actions'',
      ''cocoapods'', ''swiftpm'', ''hex'', ''cran'', ''docker'', ''chocolatey'']"

definition Ecosystem_Valid :: "Ecosystem \<Rightarrow> bool" where
  "Ecosystem_Valid e \<longleftrightarrow> e \<in> set all_ecosystems"

definition InventoryOnly :: "Ecosystem \<Rightarrow> bool" where
  "InventoryOnly e \<longleftrightarrow> e = ''docker'' \<or> e = ''chocolatey''"

definition ScanInput :: "Ecosystem \<Rightarrow> bool" where
  "ScanInput e \<longleftrightarrow> Ecosystem_Valid e \<and> \<not> InventoryOnly e"

section \<open>Packages\<close>

record PackageParent =
  par_Name :: gostring
  par_Version :: gostring
  par_Ecosystem :: Ecosystem

record Package =
  pk_Name :: gostring
  pk_Version :: gostring
  pk_Ecosystem :: Ecosystem
  pk_Dev :: bool
  pk_Direct :: bool
  pk_Indirect :: bool
  pk_Optional :: bool
  pk_Peer :: bool
  pk_Via :: "gostring list"
  pk_Parents :: "PackageParent list"
  pk_SourceRefs :: "gostring list"
  pk_DeclaredVersion :: gostring

definition zero_package :: Package where
  "zero_package = \<lparr>pk_Name = [], pk_Version = [], pk_Ecosystem = [], pk_Dev = False, pk_Direct = False,
     pk_Indirect = False, pk_Optional = False, pk_Peer = False, pk_Via = [], pk_Parents = [],
     pk_SourceRefs = [], pk_DeclaredVersion = []\<rparr>"

text \<open>
  The code collects the trimmed values in a map and sorts its keys, so the result is the sorted
  list of the distinct values, whatever order the map is walked in.
\<close>

definition MergePackageStringSet :: "gostring list \<Rightarrow> gostring list \<Rightarrow> gostring list" where
  "MergePackageStringSet left right =
     sort (remdups (filter (\<lambda>value. value \<noteq> []) (map TrimSpace (left @ right))))"

definition trim_parent :: "PackageParent \<Rightarrow> PackageParent" where
  "trim_parent p = p\<lparr>par_Name := TrimSpace (par_Name p), par_Version := TrimSpace (par_Version p)\<rparr>"

definition parent_key :: "PackageParent \<Rightarrow> gostring \<times> gostring \<times> gostring" where
  "parent_key p = (par_Ecosystem p, par_Name p, par_Version p)"

definition MergePackageParents :: "PackageParent list \<Rightarrow> PackageParent list \<Rightarrow> PackageParent list" where
  "MergePackageParents left right =
     sort_key parent_key
       (remdups (filter (\<lambda>p. par_Name p \<noteq> []) (map trim_parent (left @ right))))"

definition MergePackageMetadata :: "Package \<Rightarrow> Package \<Rightarrow> Package" where
  "MergePackageMetadata dst src = dst\<lparr>
     pk_Dev := (if pk_Dev dst \<and> \<not> pk_Dev src then False else pk_Dev dst),
     pk_Direct := pk_Direct dst \<or> pk_Direct src,
     pk_Indirect := pk_Indirect dst \<or> pk_Indirect src,
     pk_Optional := pk_Optional dst \<or> pk_Optional src,
     pk_Peer := pk_Peer dst \<or> pk_Peer src,
     pk_Via := MergePackageStringSet (pk_Via dst) (pk_Via src),
     pk_Parents := MergePackageParents (pk_Parents dst) (pk_Parents src),
     pk_SourceRefs := MergePackageStringSet (pk_SourceRefs dst) (pk_SourceRefs src),
     pk_DeclaredVersion := (if TrimSpace (pk_DeclaredVersion dst) = []
        then TrimSpace (pk_DeclaredVersion src) else pk_DeclaredVersion dst)\<rparr>"

section \<open>Findings\<close>

type_synonym FindingType = gostring

abbreviation FindingTypeVulnerability :: FindingType where "FindingTypeVulnerability \<equiv> ''vulnerability''"
abbreviation FindingTypeMalicious :: FindingType where "FindingTypeMalicious \<equiv> ''malicious''"
abbreviation FindingTypeSupplyChainRisk :: FindingType where "FindingTypeSupplyChainRisk \<equiv> ''supply_chain_risk''"
abbreviation FindingTypeLifecycle :: FindingType where "FindingTypeLifecycle \<equiv> ''lifecycle''"
abbreviation RiskTypeMalwareHistory :: gostring where "RiskTypeMalwareHistory \<equiv> ''malware_history''"
abbreviation ManualAdvisorySource :: gostring where "ManualAdvisorySource \<equiv> ''manual''"
abbreviation ManualAdvisoryIDPrefix :: gostring where "ManualAdvisoryIDPrefix \<equiv> ''manual:''"

definition ParseManualAdvisoryFindingType :: "gostring \<Rightarrow> FindingType option" where
  "ParseManualAdvisoryFindingType raw =
     (let value = ToLower (TrimSpace raw) in
      if value = [] \<or> value = FindingTypeVulnerability then Some FindingTypeVulnerability
      else if value = FindingTypeMalicious then Some FindingTypeMalicious
      else None)"

definition NormalizeManualAdvisoryID :: "gostring \<Rightarrow> gostring option" where
  "NormalizeManualAdvisoryID raw =
     (let normalized = TrimSpace raw in
      if normalized = [] \<or> \<not> HasPrefix (ToLower normalized) ManualAdvisoryIDPrefix then None
      else Some normalized)"

definition IsManualAdvisoryID :: "gostring \<Rightarrow> bool" where
  "IsManualAdvisoryID raw \<longleftrightarrow> NormalizeManualAdvisoryID raw \<noteq> None"

record ResourceLink =
  rl_Label :: gostring
  rl_URL :: gostring

record Finding =
  f_Name :: gostring
  f_Version :: gostring
  f_Ecosystem :: Ecosystem
  f_Type :: FindingType
  f_Severity :: Severity
  f_AdvisoryID :: gostring
  f_Title :: gostring
  f_URL :: gostring
  f_Resources :: "ResourceLink list"
  f_FixedVersion :: gostring
  f_RiskType :: gostring
  f_Source :: gostring
  f_Locations :: "gostring list"

definition FindingIsInformational :: "Finding \<Rightarrow> bool" where
  "FindingIsInformational finding \<longleftrightarrow> f_Type finding = FindingTypeSupplyChainRisk \<and>
     EqualFold (TrimSpace (f_RiskType finding)) RiskTypeMalwareHistory"

definition FindingAlwaysBlocks :: "Finding \<Rightarrow> bool" where
  "FindingAlwaysBlocks finding =
     (if FindingIsInformational finding then False
      else f_Type finding = FindingTypeMalicious \<or> f_Type finding = FindingTypeSupplyChainRisk)"

definition NormalizeFindingSeverity :: "Finding \<Rightarrow> Severity" where
  "NormalizeFindingSeverity finding =
     (if FindingIsInformational finding then SeverityLow else f_Severity finding)"

definition FindingBlocks :: "Finding \<Rightarrow> Severity \<Rightarrow> bool" where
  "FindingBlocks finding threshold =
     (if FindingIsInformational finding then False
      else if FindingAlwaysBlocks finding then True
      else if threshold = SeverityNone then False
      else Blocks (f_Severity finding) threshold)"

fun FindingsBlock :: "Finding list \<Rightarrow> Severity \<Rightarrow> bool" where
  "FindingsBlock [] threshold = False"
| "FindingsBlock (finding # findings) threshold =
     (if FindingBlocks finding threshold then True else FindingsBlock findings threshold)"

fun CountManualAdvisoryFindings :: "Finding list \<Rightarrow> nat" where
  "CountManualAdvisoryFindings [] = 0"
| "CountManualAdvisoryFindings (finding # findings) =
     (if f_Source finding = ManualAdvisorySource then 1 else 0) + CountManualAdvisoryFindings findings"

section \<open>Summaries\<close>

record ScanSummary =
  BySeverity :: "gostring \<rightharpoonup> nat"
  ByType :: "gostring \<rightharpoonup> nat"
  BySource :: "gostring \<rightharpoonup> nat"

text \<open>The statement \<open>m[k]++\<close> on a \<open>map[string]int\<close>.\<close>

definition incr :: "gostring \<Rightarrow> (gostring \<rightharpoonup> nat) \<Rightarrow> (gostring \<rightharpoonup> nat)" where
  "incr k m = m(k \<mapsto> (case m k of Some n \<Rightarrow> n | None \<Rightarrow> 0) + 1)"

definition EmptyScanSummary :: ScanSummary where
  "EmptyScanSummary = \<lparr>BySeverity = Map.empty, ByType = Map.empty, BySource = Map.empty\<rparr>"

definition add_finding :: "Finding \<Rightarrow> ScanSummary \<Rightarrow> ScanSummary" where
  "add_finding finding s = \<lparr>
     BySeverity = incr (NormalizeFindingSeverity finding) (BySeverity s),
     ByType = incr (f_Type finding) (ByType s),
     BySource = incr (f_Source finding) (BySource s)\<rparr>"

definition BuildScanSummary :: "Finding list \<Rightarrow> ScanSummary" where
  "BuildScanSummary findings = fold add_finding findings EmptyScanSummary"

section \<open>Merging is a semilattice operation\<close>

definition trimmed_set :: "gostring list \<Rightarrow> gostring set" where
  "trimmed_set xs = TrimSpace ` set xs - {[]}"

definition parent_set :: "PackageParent list \<Rightarrow> PackageParent set" where
  "parent_set ps = {p \<in> trim_parent ` set ps. par_Name p \<noteq> []}"

lemma trim_parent_idem [simp]: "trim_parent (trim_parent p) = trim_parent p"
  by (simp add: trim_parent_def)

lemma trim_parent_Name [simp]: "par_Name (trim_parent p) = TrimSpace (par_Name p)"
  by (simp add: trim_parent_def)

lemma inj_parent_key: "inj_on parent_key A"
  by (rule inj_onI) (simp add: parent_key_def)

lemma MergePackageStringSet_set [merge_simps]:
  "set (MergePackageStringSet l r) = trimmed_set l \<union> trimmed_set r"
  by (auto simp: MergePackageStringSet_def trimmed_set_def)

lemma MergePackageParents_set [merge_simps]:
  "set (MergePackageParents l r) = parent_set l \<union> parent_set r"
  by (auto simp: MergePackageParents_def parent_set_def)

lemma image_fixed: "(\<And>x. x \<in> A \<Longrightarrow> f x = x) \<Longrightarrow> f ` A = A"
  by (simp cong: image_cong)

lemma trimmed_set_merge [merge_simps]:
  "trimmed_set (MergePackageStringSet l r) = trimmed_set l \<union> trimmed_set r"
proof -
  have "TrimSpace ` (trimmed_set l \<union> trimmed_set r) = trimmed_set l \<union> trimmed_set r"
    by (rule image_fixed) (auto simp: trimmed_set_def)
  then show ?thesis
    unfolding trimmed_set_def [of "MergePackageStringSet l r"] MergePackageStringSet_set
    by (auto simp: trimmed_set_def)
qed

lemma parent_set_merge [merge_simps]:
  "parent_set (MergePackageParents l r) = parent_set l \<union> parent_set r"
proof -
  have "trim_parent ` (parent_set l \<union> parent_set r) = parent_set l \<union> parent_set r"
    by (rule image_fixed) (auto simp: parent_set_def)
  then show ?thesis
    unfolding parent_set_def [of "MergePackageParents l r"] MergePackageParents_set
    by (auto simp: parent_set_def)
qed

lemma trimmed_set_simps [merge_simps]:
  "trimmed_set [] = {}" "trimmed_set (xs @ ys) = trimmed_set xs \<union> trimmed_set ys"
  "trimmed_set (concat xss) = (\<Union>xs \<in> set xss. trimmed_set xs)"
  by (auto simp: trimmed_set_def)

lemma parent_set_simps [merge_simps]:
  "parent_set [] = {}" "parent_set (xs @ ys) = parent_set xs \<union> parent_set ys"
  "parent_set (concat xss) = (\<Union>xs \<in> set xss. parent_set xs)"
  by (auto simp: parent_set_def)

lemma MergePackageStringSet_cong:
  "trimmed_set l \<union> trimmed_set r = trimmed_set l' \<union> trimmed_set r' \<Longrightarrow>
    MergePackageStringSet l r = MergePackageStringSet l' r'"
  unfolding MergePackageStringSet_def
  by (rule sort_remdups_set_cong) (auto simp: trimmed_set_def)

lemma MergePackageParents_cong:
  assumes "parent_set l \<union> parent_set r = parent_set l' \<union> parent_set r'"
  shows "MergePackageParents l r = MergePackageParents l' r'"
  unfolding MergePackageParents_def
proof (rule sort_key_remdups_set_cong)
  have eq: "set (filter (\<lambda>p. par_Name p \<noteq> []) (map trim_parent (xs @ ys))) = parent_set xs \<union> parent_set ys"
    for xs ys by (auto simp: parent_set_def)
  show "set (filter (\<lambda>p. par_Name p \<noteq> []) (map trim_parent (l @ r))) =
      set (filter (\<lambda>p. par_Name p \<noteq> []) (map trim_parent (l' @ r')))"
    unfolding eq by (rule assms)
qed (rule inj_parent_key)

text \<open>What two packages carry besides the declared version, where the first one wins.\<close>

abbreviation undeclared :: "Package \<Rightarrow> Package" where
  "undeclared p \<equiv> p\<lparr>pk_DeclaredVersion := []\<rparr>"

lemma MergePackageMetadata_fields [merge_simps]:
  "pk_Name (MergePackageMetadata a b) = pk_Name a"
  "pk_Version (MergePackageMetadata a b) = pk_Version a"
  "pk_Ecosystem (MergePackageMetadata a b) = pk_Ecosystem a"
  "pk_Dev (MergePackageMetadata a b) \<longleftrightarrow> pk_Dev a \<and> pk_Dev b"
  "pk_Direct (MergePackageMetadata a b) \<longleftrightarrow> pk_Direct a \<or> pk_Direct b"
  "pk_Indirect (MergePackageMetadata a b) \<longleftrightarrow> pk_Indirect a \<or> pk_Indirect b"
  "pk_Optional (MergePackageMetadata a b) \<longleftrightarrow> pk_Optional a \<or> pk_Optional b"
  "pk_Peer (MergePackageMetadata a b) \<longleftrightarrow> pk_Peer a \<or> pk_Peer b"
  "pk_Via (MergePackageMetadata a b) = MergePackageStringSet (pk_Via a) (pk_Via b)"
  "pk_Parents (MergePackageMetadata a b) = MergePackageParents (pk_Parents a) (pk_Parents b)"
  "pk_SourceRefs (MergePackageMetadata a b) = MergePackageStringSet (pk_SourceRefs a) (pk_SourceRefs b)"
  "pk_DeclaredVersion (MergePackageMetadata a b) = (if TrimSpace (pk_DeclaredVersion a) = []
     then TrimSpace (pk_DeclaredVersion b) else pk_DeclaredVersion a)"
  by (auto simp: MergePackageMetadata_def)

lemmas merge_congs = MergePackageStringSet_cong MergePackageParents_cong

text \<open>
  The result of merging a sequence of duplicates into a package, field by field, in terms of
  sets only.
\<close>

definition MergeAll :: "Package \<Rightarrow> Package list \<Rightarrow> Package" where
  "MergeAll p bs = fold (\<lambda>b a. MergePackageMetadata a b) bs p"

lemma MergeAll_Cons [simp]: "MergeAll p (b # bs) = MergeAll (MergePackageMetadata p b) bs"
  and MergeAll_Nil [simp]: "MergeAll p [] = p"
  by (simp_all add: MergeAll_def)

lemma MergeAll_fields:
  "pk_Name (MergeAll p bs) = pk_Name p"
  "pk_Version (MergeAll p bs) = pk_Version p"
  "pk_Ecosystem (MergeAll p bs) = pk_Ecosystem p"
  "pk_Dev (MergeAll p bs) \<longleftrightarrow> pk_Dev p \<and> (\<forall>b \<in> set bs. pk_Dev b)"
  "pk_Direct (MergeAll p bs) \<longleftrightarrow> pk_Direct p \<or> (\<exists>b \<in> set bs. pk_Direct b)"
  "pk_Indirect (MergeAll p bs) \<longleftrightarrow> pk_Indirect p \<or> (\<exists>b \<in> set bs. pk_Indirect b)"
  "pk_Optional (MergeAll p bs) \<longleftrightarrow> pk_Optional p \<or> (\<exists>b \<in> set bs. pk_Optional b)"
  "pk_Peer (MergeAll p bs) \<longleftrightarrow> pk_Peer p \<or> (\<exists>b \<in> set bs. pk_Peer b)"
  by (induction bs arbitrary: p) (auto simp: merge_simps)

lemma MergeAll_lists:
  "bs \<noteq> [] \<Longrightarrow> pk_Via (MergeAll p bs) = MergePackageStringSet (pk_Via p) (concat (map pk_Via bs))"
  "bs \<noteq> [] \<Longrightarrow> pk_SourceRefs (MergeAll p bs) = MergePackageStringSet (pk_SourceRefs p) (concat (map pk_SourceRefs bs))"
  "bs \<noteq> [] \<Longrightarrow> pk_Parents (MergeAll p bs) = MergePackageParents (pk_Parents p) (concat (map pk_Parents bs))"
proof (induction bs arbitrary: p)
  case (Cons b bs)
  {
    case 1
    show ?case using Cons.IH(1) [of "MergePackageMetadata p b"]
      by (cases "bs = []") (auto simp: merge_simps intro!: merge_congs)
  next
    case 2
    show ?case using Cons.IH(2) [of "MergePackageMetadata p b"]
      by (cases "bs = []") (auto simp: merge_simps intro!: merge_congs)
  next
    case 3
    show ?case using Cons.IH(3) [of "MergePackageMetadata p b"]
      by (cases "bs = []") (auto simp: merge_simps intro!: merge_congs)
  }
qed simp_all

text \<open>
  Merging the metadata of duplicate packages does not depend on the order or the number of
  times the duplicates arrive: any two sequences with the same set of duplicates give the same
  package, its declared version apart (the first nonblank one wins).
\<close>

theorem MergeAll_order:
  assumes "set bs = set cs"
  shows "undeclared (MergeAll p bs) = undeclared (MergeAll p cs)"
proof (cases "bs = []")
  case False
  then have "cs \<noteq> []" using assms by auto
  with False assms show ?thesis
    by (intro Package.equality)
      (auto simp: MergeAll_fields MergeAll_lists merge_simps intro!: merge_congs)
qed (use assms in simp)

theorem MergeAll_order_witness:
  "undeclared (MergeAll (zero_package\<lparr>pk_Dev := True\<rparr>)
      [zero_package\<lparr>pk_Via := ['' b'', ''a'']\<rparr>, zero_package\<lparr>pk_Direct := True\<rparr>,
       zero_package\<lparr>pk_Via := ['' b'', ''a'']\<rparr>]) =
   undeclared (MergeAll (zero_package\<lparr>pk_Dev := True\<rparr>)
      [zero_package\<lparr>pk_Direct := True\<rparr>, zero_package\<lparr>pk_Via := ['' b'', ''a'']\<rparr>]) \<and>
   MergeAll (zero_package\<lparr>pk_Dev := True\<rparr>)
      [zero_package\<lparr>pk_Direct := True\<rparr>, zero_package\<lparr>pk_Via := ['' b'', ''a'']\<rparr>] =
   zero_package\<lparr>pk_Direct := True, pk_Via := [''a'', ''b'']\<rparr>"
proof
  have "set [b, c, b] = set [c, b]" for b c :: Package by auto
  from MergeAll_order [OF this]
  show "undeclared (MergeAll (zero_package\<lparr>pk_Dev := True\<rparr>)
      [zero_package\<lparr>pk_Via := ['' b'', ''a'']\<rparr>, zero_package\<lparr>pk_Direct := True\<rparr>,
       zero_package\<lparr>pk_Via := ['' b'', ''a'']\<rparr>]) =
    undeclared (MergeAll (zero_package\<lparr>pk_Dev := True\<rparr>)
      [zero_package\<lparr>pk_Direct := True\<rparr>, zero_package\<lparr>pk_Via := ['' b'', ''a'']\<rparr>])" .
qed code_simp

section \<open>The blocking policy\<close>

lemma FindingsBlock_iff: "FindingsBlock fs t \<longleftrightarrow> (\<exists>f \<in> set fs. FindingBlocks f t)"
  by (induction fs t rule: FindingsBlock.induct) auto

lemma FindingBlocks_mono:
  assumes "FindingBlocks f t" and "Rank t' \<le> Rank t" and "t' \<noteq> SeverityNone"
  shows "FindingBlocks f t'"
  using assms by (auto simp: FindingBlocks_def Blocks_def split: if_splits)

text \<open>
  The scan gate is monotone: findings that block under a threshold block under every threshold
  of at most its rank other than NONE, findings that block under NONE block under every
  threshold, and adding findings never unblocks a scan.
\<close>

theorem FindingsBlock_monotone:
  assumes "FindingsBlock fs t" and "set fs \<subseteq> set gs"
    and "t = SeverityNone \<or> (Rank t' \<le> Rank t \<and> t' \<noteq> SeverityNone)"
  shows "FindingsBlock gs t'"
proof -
  from assms(1,2) obtain f where f: "f \<in> set gs" "FindingBlocks f t" by (auto simp: FindingsBlock_iff)
  have "FindingBlocks f t'"
    using assms(3) f(2) FindingBlocks_mono [of f t t']
    by (auto simp: FindingBlocks_def split: if_splits)
  with f(1) show ?thesis by (auto simp: FindingsBlock_iff)
qed

definition zero_finding :: Finding where
  "zero_finding = \<lparr>f_Name = [], f_Version = [], f_Ecosystem = [], f_Type = [], f_Severity = [],
     f_AdvisoryID = [], f_Title = [], f_URL = [], f_Resources = [], f_FixedVersion = [],
     f_RiskType = [], f_Source = [], f_Locations = []\<rparr>"

theorem FindingsBlock_monotone_witness:
  "FindingsBlock [zero_finding\<lparr>f_Type := ''vulnerability'', f_Severity := ''HIGH''\<rparr>] ''MEDIUM'' \<and>
   \<not> FindingsBlock [zero_finding\<lparr>f_Type := ''vulnerability'', f_Severity := ''HIGH''\<rparr>] ''CRITICAL'' \<and>
   FindingsBlock [zero_finding, zero_finding\<lparr>f_Type := ''vulnerability'', f_Severity := ''HIGH''\<rparr>] ''LOW''"
proof (intro conjI)
  let ?f = "zero_finding\<lparr>f_Type := ''vulnerability'', f_Severity := ''HIGH''\<rparr>"
  show m: "FindingsBlock [?f] ''MEDIUM''" and "\<not> FindingsBlock [?f] ''CRITICAL''" by code_simp+
  show "FindingsBlock [zero_finding, ?f] ''LOW''"
    by (rule FindingsBlock_monotone [OF m]) (simp, code_simp)
qed

section \<open>The summary\<close>

lemma incr_fold:
  "fold (\<lambda>x. incr (k x)) xs m j =
     (case length (filter (\<lambda>x. k x = j) xs) of
        0 \<Rightarrow> m j
      | Suc n \<Rightarrow> Some ((case m j of Some c \<Rightarrow> c | None \<Rightarrow> 0) + Suc n))"
proof (induction xs arbitrary: m)
  case (Cons x xs)
  then show ?case by (auto simp: incr_def split: nat.splits option.splits)
qed simp

lemma BuildScanSummary_fields:
  "BySeverity (fold add_finding fs s) = fold (\<lambda>f. incr (NormalizeFindingSeverity f)) fs (BySeverity s)"
  "ByType (fold add_finding fs s) = fold (\<lambda>f. incr (f_Type f)) fs (ByType s)"
  "BySource (fold add_finding fs s) = fold (\<lambda>f. incr (f_Source f)) fs (BySource s)"
  by (induction fs arbitrary: s) (simp_all add: add_finding_def)

text \<open>How often a value occurs, as a map entry: absent when it does not occur.\<close>

definition occurrences :: "('a \<Rightarrow> gostring) \<Rightarrow> 'a list \<Rightarrow> gostring \<rightharpoonup> nat" where
  "occurrences k xs j = (let n = length (filter (\<lambda>x. k x = j) xs) in if n = 0 then None else Some n)"

lemma incr_fold_empty: "fold (\<lambda>x. incr (k x)) xs Map.empty = occurrences k xs"
  by (rule ext) (auto simp: incr_fold occurrences_def Let_def split: nat.split)

lemma occurrences_total: "(\<Sum>j \<in> dom (occurrences k xs). the (occurrences k xs j)) = length xs"
proof -
  have dom: "dom (occurrences k xs) = k ` set xs"
    by (auto simp: occurrences_def Let_def filter_empty_conv split: if_splits)
  have count: "count (mset (map k xs)) j = length (filter (\<lambda>x. k x = j) xs)" for j
    by (induction xs) auto
  have "(\<Sum>j \<in> dom (occurrences k xs). the (occurrences k xs j)) =
      (\<Sum>j \<in> k ` set xs. count (mset (map k xs)) j)"
    unfolding dom count
    by (rule sum.cong) (auto simp: occurrences_def Let_def filter_empty_conv)
  also have "\<dots> = size (mset (map k xs))" unfolding size_multiset_overloaded_eq by simp
  finally show ?thesis by simp
qed

text \<open>
  The summary counts each finding exactly once in each of its three tables: an entry holds the
  number of findings with that normalized severity, type or source, values that do not occur
  have no entry, and the entries of every table add up to the number of findings.
\<close>

theorem BuildScanSummary_counts:
  "BySeverity (BuildScanSummary fs) = occurrences NormalizeFindingSeverity fs \<and>
   ByType (BuildScanSummary fs) = occurrences f_Type fs \<and>
   BySource (BuildScanSummary fs) = occurrences f_Source fs \<and>
   (\<Sum>j \<in> dom (BySeverity (BuildScanSummary fs)). the (BySeverity (BuildScanSummary fs) j)) = length fs \<and>
   CountManualAdvisoryFindings fs = (case BySource (BuildScanSummary fs) ''manual'' of None \<Rightarrow> 0 | Some n \<Rightarrow> n)"
proof -
  have manual: "CountManualAdvisoryFindings fs = length (filter (\<lambda>f. f_Source f = ''manual'') fs)"
    by (induction fs) simp_all
  show ?thesis
    unfolding BuildScanSummary_def BuildScanSummary_fields
    by (simp add: EmptyScanSummary_def incr_fold_empty occurrences_total manual
        occurrences_def [of f_Source] Let_def)
qed

end
