(* ===== verification/Lifecycle.thy ===== *)
theory Lifecycle
  imports Domain
begin

text \<open>
  The end-of-life policy of \<open>internal/lifecycle\<close>: matching of release cycles
  (\<open>LongestMatchingReleases\<close>), the finding for a matched release (\<open>FindingForRelease\<close>) and the
  curated package maps. The clock is an argument.

  The lemmas show that one row per product is chosen and that none is longer, that a release's
  policy severity never falls as time passes, and that an end-of-life release blocks a scan at every
  threshold.
\<close>

section \<open>Data\<close>

abbreviation Source :: gostring where "Source \<equiv> ''endoflife.date''"

definition EOLSoonWindow :: duration where
  "EOLSoonWindow = 90 * 24 * 3600 * second"

abbreviation SeverityEOL :: Severity where "SeverityEOL \<equiv> SeverityCritical"
abbreviation SeverityEOLSoon :: Severity where "SeverityEOLSoon \<equiv> SeverityMedium"
abbreviation SeveritySecuritySupportOnly :: Severity where "SeveritySecuritySupportOnly \<equiv> SeverityLow"
abbreviation RiskTypeEOL :: gostring where "RiskTypeEOL \<equiv> ''eol''"
abbreviation RiskTypeEOLSoon :: gostring where "RiskTypeEOLSoon \<equiv> ''eol_soon''"
abbreviation RiskTypeSecuritySupportOnly :: gostring where "RiskTypeSecuritySupportOnly \<equiv> ''security_support_only''"

record PackageQuery =
  q_Ecosystem :: gostring
  q_Name :: gostring
  q_Version :: gostring

record Release =
  Cycle :: gostring
  Latest :: gostring
  ReleaseDate :: "gotime option"
  IsLTS :: bool
  LTSFrom :: "gotime option"
  IsEOAS :: bool
  EOASFrom :: "gotime option"
  IsEOL :: bool
  EOLFrom :: "gotime option"
  IsDiscontinued :: bool
  DiscontinuedFrom :: "gotime option"
  IsEOES :: "bool option"
  EOESFrom :: "gotime option"
  IsMaintained :: bool

record ReleaseRow =
  rr_ID :: gostring
  rr_Ecosystem :: gostring
  rr_PackageName :: gostring
  ProductSlug :: gostring
  ProductName :: gostring
  rr_Release :: Release

section \<open>Matching\<close>

definition cycleMatches :: "gostring \<Rightarrow> gostring \<Rightarrow> bool" where
  "cycleMatches version cycle =
     (let version = TrimSpace version; cycle = TrimSpace cycle in
      if version = [] \<or> cycle = [] then False
      else version = cycle \<or> HasPrefix version (cycle @ ''.''))"

text \<open>
  The map \<open>best\<close> from product slugs to rows, as the list of its rows: the entry of a slug is
  replaced in place, a new entry goes to the end.
\<close>

definition better :: "ReleaseRow \<Rightarrow> ReleaseRow \<Rightarrow> bool" where
  "better row current \<longleftrightarrow> length (Cycle (rr_Release row)) > length (Cycle (rr_Release current))"

fun put_best :: "ReleaseRow \<Rightarrow> ReleaseRow list \<Rightarrow> ReleaseRow list" where
  "put_best row [] = [row]"
| "put_best row (current # best) =
     (if ProductSlug current = ProductSlug row
      then (if better row current then row # best else current # best)
      else current # put_best row best)"

definition LongestMatchingReleases :: "ReleaseRow list \<Rightarrow> gostring \<Rightarrow> ReleaseRow list" where
  "LongestMatchingReleases rows version =
     (if TrimSpace version = [] then []
      else fold (\<lambda>row best. if \<not> cycleMatches version (Cycle (rr_Release row)) then best
                            else put_best row best) rows [])"

section \<open>The finding of a release\<close>

definition dateOnOrBefore :: "gotime option \<Rightarrow> gotime \<Rightarrow> bool" where
  "dateOnOrBefore date now = (case date of None \<Rightarrow> False | Some d \<Rightarrow> \<not> d > now)"

definition dateWithin :: "gotime option \<Rightarrow> gotime \<Rightarrow> duration \<Rightarrow> bool" where
  "dateWithin date now window =
     (case date of None \<Rightarrow> False | Some d \<Rightarrow> d > now \<and> \<not> d > now + window)"

definition buildFinding ::
    "PackageQuery \<Rightarrow> ReleaseRow \<Rightarrow> FindingType \<Rightarrow> Severity \<Rightarrow> gostring \<Rightarrow> gostring \<Rightarrow> Finding" where
  "buildFinding pkg row typ severity riskType phrase =
     (let trimmed = TrimSpace (ProductName row);
          productName = (if trimmed = [] then ProductSlug row else trimmed);
          url = ''https://endoflife.date/'' @ ProductSlug row;
          title = productName @ '' '' @ Cycle (rr_Release row) @ '' '' @ phrase
      in \<lparr>f_Name = q_Name pkg, f_Version = q_Version pkg, f_Ecosystem = q_Ecosystem pkg,
          f_Type = typ, f_Severity = severity,
          f_AdvisoryID = ''endoflife:'' @ ProductSlug row @ '':'' @ Cycle (rr_Release row) @ '':'' @ riskType,
          f_Title = title, f_URL = url, f_Resources = [\<lparr>rl_Label = Source, rl_URL = url\<rparr>],
          f_FixedVersion = [], f_RiskType = riskType, f_Source = Source, f_Locations = []\<rparr>)"

definition FindingForRelease :: "PackageQuery \<Rightarrow> ReleaseRow \<Rightarrow> gotime \<Rightarrow> Finding option" where
  "FindingForRelease pkg row now =
     (let release = rr_Release row in
      if IsEOL release \<or> dateOnOrBefore (EOLFrom release) now
      then Some (buildFinding pkg row FindingTypeSupplyChainRisk SeverityEOL RiskTypeEOL ''is end-of-life'')
      else if dateWithin (EOLFrom release) now EOLSoonWindow
      then Some (buildFinding pkg row FindingTypeLifecycle SeverityEOLSoon RiskTypeEOLSoon
                   ''reaches end-of-life soon'')
      else if IsEOAS release \<or> dateOnOrBefore (EOASFrom release) now
      then Some (buildFinding pkg row FindingTypeLifecycle SeveritySecuritySupportOnly
                   RiskTypeSecuritySupportOnly ''is in security support only'')
      else None)"

section \<open>Curated package maps\<close>

record PackageMap =
  pm_Ecosystem :: gostring
  pm_Name :: gostring
  pm_ProductSlug :: gostring
  PURLType :: gostring
  PURLNamespace :: gostring
  PURLName :: gostring
  pm_Source :: gostring

definition curatedPackageMaps :: "gostring \<rightharpoonup> PackageMap list" where
  "curatedPackageMaps = map_of
     [(''django'', [\<lparr>pm_Ecosystem = ''pypi'', pm_Name = ''django'', pm_ProductSlug = [], PURLType = ''pypi'',
         PURLNamespace = [], PURLName = ''django'', pm_Source = []\<rparr>]),
      (''laravel'', [\<lparr>pm_Ecosystem = ''composer'', pm_Name = ''laravel/framework'', pm_ProductSlug = [],
         PURLType = ''composer'', PURLNamespace = ''laravel'', PURLName = ''framework'', pm_Source = []\<rparr>]),
      (''ruby-on-rails'', [\<lparr>pm_Ecosystem = ''gem'', pm_Name = ''rails'', pm_ProductSlug = [], PURLType = ''gem'',
         PURLNamespace = [], PURLName = ''rails'', pm_Source = []\<rparr>])]"

definition CuratedPackageMaps :: "gostring \<Rightarrow> PackageMap list" where
  "CuratedPackageMaps productSlug =
     (case curatedPackageMaps productSlug of
        None \<Rightarrow> []
      | Some maps \<Rightarrow>
          map (\<lambda>m. m\<lparr>pm_ProductSlug := productSlug,
                   pm_Source := (if pm_Source m = [] then ''endoflife.date'' else pm_Source m)\<rparr>) maps)"

section \<open>One row per product, none longer\<close>

definition matching :: "gostring \<Rightarrow> ReleaseRow \<Rightarrow> bool" where
  "matching version row \<longleftrightarrow> TrimSpace version \<noteq> [] \<and> cycleMatches version (Cycle (rr_Release row))"

definition best_of :: "ReleaseRow set \<Rightarrow> ReleaseRow list \<Rightarrow> bool" where
  "best_of S best \<longleftrightarrow> set best \<subseteq> S \<and> distinct (map ProductSlug best) \<and>
     (\<forall>row \<in> S. \<exists>b \<in> set best. ProductSlug b = ProductSlug row \<and> \<not> better row b)"

lemma put_best_slugs:
  "set (map ProductSlug (put_best row best)) = insert (ProductSlug row) (set (map ProductSlug best))"
  by (induction best) auto

lemma put_best_distinct:
  "distinct (map ProductSlug best) \<Longrightarrow> distinct (map ProductSlug (put_best row best))"
proof (induction best)
  case (Cons c best)
  then show ?case using put_best_slugs [of row best] by auto
qed simp

lemma put_best_subset: "set (put_best row best) \<subseteq> insert row (set best)"
  by (induction best) auto

lemma put_best_covers:
  "\<exists>b \<in> set (put_best row best). ProductSlug b = ProductSlug row \<and> \<not> better row b"
  by (induction best) (auto simp: better_def)

lemma put_best_keeps:
  "c \<in> set best \<Longrightarrow> \<exists>b \<in> set (put_best row best). ProductSlug b = ProductSlug c \<and> \<not> better c b"
  by (induction best) (auto simp: better_def)

lemma better_trans: "\<not> better a b \<Longrightarrow> \<not> better b c \<Longrightarrow> \<not> better a c"
  by (simp add: better_def)

lemma best_of_put:
  assumes "best_of S best"
  shows "best_of (insert row S) (put_best row best)"
  unfolding best_of_def
proof (intro conjI ballI)
  show "set (put_best row best) \<subseteq> insert row S"
    using assms put_best_subset [of row best] by (auto simp: best_of_def)
  show "distinct (map ProductSlug (put_best row best))"
    using assms by (simp add: best_of_def put_best_distinct)
  fix r assume "r \<in> insert row S"
  then show "\<exists>b \<in> set (put_best row best). ProductSlug b = ProductSlug r \<and> \<not> better r b"
  proof
    assume "r \<in> S"
    then obtain c where "c \<in> set best" "ProductSlug c = ProductSlug r" "\<not> better r c"
      using assms by (auto simp: best_of_def)
    then show ?thesis using put_best_keeps [of c best row] better_trans by metis
  qed (use put_best_covers in auto)
qed

lemma LongestMatchingReleases_best:
  "best_of {row \<in> set rows. matching version row} (LongestMatchingReleases rows version)"
proof (cases "TrimSpace version = []")
  case True
  then show ?thesis by (simp add: LongestMatchingReleases_def matching_def best_of_def)
next
  case False
  let ?step = "\<lambda>row best. if \<not> cycleMatches version (Cycle (rr_Release row)) then best else put_best row best"
  have "best_of S best \<Longrightarrow> best_of (S \<union> {row \<in> set rows. matching version row}) (fold ?step rows best)"
    for S best
  proof (induction rows arbitrary: S best)
    case (Cons row rows)
    show ?case
    proof (cases "matching version row")
      case True
      have "S \<union> {r \<in> set (row # rows). matching version r} =
          insert row S \<union> {r \<in> set rows. matching version r}" using True by auto
      then show ?thesis
        using Cons.IH [OF best_of_put [OF Cons.prems, of row]] True by (simp add: matching_def)
    next
      case nomatch: False
      then have "{r \<in> set (row # rows). matching version r} = {r \<in> set rows. matching version r}" by auto
      then show ?thesis using Cons.IH [OF Cons.prems] nomatch False by (simp add: matching_def)
    qed
  qed simp
  from this [of "{}" "[]"] show ?thesis
    using False by (simp add: LongestMatchingReleases_def best_of_def)
qed

text \<open>
  \<open>LongestMatchingReleases\<close> returns rows of the input that match the version, exactly one for
  each product with a matching row, and no matching row of the same product has a longer cycle.
\<close>

theorem LongestMatchingReleases_longest:
  "set (LongestMatchingReleases rows version) \<subseteq> set rows \<inter> Collect (matching version) \<and>
   distinct (map ProductSlug (LongestMatchingReleases rows version)) \<and>
   set (map ProductSlug (LongestMatchingReleases rows version)) =
     ProductSlug ` (set rows \<inter> Collect (matching version)) \<and>
   list_all (\<lambda>row. list_all (\<lambda>r. length (Cycle (rr_Release r)) \<le> length (Cycle (rr_Release row)))
     (filter (\<lambda>r. matching version r \<and> ProductSlug r = ProductSlug row) rows))
     (LongestMatchingReleases rows version)"
proof -
  let ?L = "LongestMatchingReleases rows version"
  note best = LongestMatchingReleases_best [of rows version, unfolded best_of_def]
  have "length (Cycle (rr_Release r)) \<le> length (Cycle (rr_Release row))"
    if row: "row \<in> set ?L" and r: "r \<in> set rows" "matching version r" "ProductSlug r = ProductSlug row" for row r
  proof -
    obtain b where b: "b \<in> set ?L" "ProductSlug b = ProductSlug r" "\<not> better r b"
      using best r by auto
    then have "b = row" using best row r by (auto simp: distinct_map inj_on_def)
    with b(3) show ?thesis by (simp add: better_def)
  qed
  moreover have "set (map ProductSlug ?L) = ProductSlug ` (set rows \<inter> Collect (matching version))"
    using best by (auto simp: image_iff) (metis imageI)
  ultimately show ?thesis using best by (auto simp: list_all_iff)
qed

text \<open>
  The cycles are matched without surrounding white space but measured with it, so a padded cycle
  beats a more specific one.
\<close>

definition bare_row :: "gostring \<Rightarrow> ReleaseRow" where
  "bare_row c = \<lparr>rr_ID = [], rr_Ecosystem = [], rr_PackageName = [], ProductSlug = ''p'', ProductName = [],
     rr_Release = \<lparr>Cycle = c, Latest = [], ReleaseDate = None, IsLTS = False, LTSFrom = None,
       IsEOAS = False, EOASFrom = None, IsEOL = False, EOLFrom = None, IsDiscontinued = False,
       DiscontinuedFrom = None, IsEOES = None, EOESFrom = None, IsMaintained = True\<rparr>\<rparr>"

lemma LongestMatchingReleases_padded:
  "map (\<lambda>r. Cycle (rr_Release r)) (LongestMatchingReleases [bare_row ''1.2'', bare_row '' 1  ''] ''1.2.3'') = ['' 1  '']"
  by code_simp

section \<open>The policy over time\<close>

definition policy_rank :: "PackageQuery \<Rightarrow> ReleaseRow \<Rightarrow> gotime \<Rightarrow> nat" where
  "policy_rank pkg row now =
     (case FindingForRelease pkg row now of None \<Rightarrow> 0 | Some f \<Rightarrow> Rank (f_Severity f))"

lemma buildFinding_fields [simp]:
  "f_Type (buildFinding pkg row typ sev risk phrase) = typ"
  "f_Severity (buildFinding pkg row typ sev risk phrase) = sev"
  "f_RiskType (buildFinding pkg row typ sev risk phrase) = risk"
  "f_Source (buildFinding pkg row typ sev risk phrase) = Source"
  by (simp_all add: buildFinding_def Let_def)

lemma policy_rank_cases:
  "policy_rank pkg row now =
     (if IsEOL (rr_Release row) \<or> dateOnOrBefore (EOLFrom (rr_Release row)) now then 4
      else if dateWithin (EOLFrom (rr_Release row)) now EOLSoonWindow then 2
      else if IsEOAS (rr_Release row) \<or> dateOnOrBefore (EOASFrom (rr_Release row)) now then 1 else 0)"
  by (simp add: policy_rank_def FindingForRelease_def Rank_def Let_def)

text \<open>
  As time passes the severity of the finding for a release never falls: from no finding over
  security support only and end of life soon to end of life.
\<close>

theorem FindingForRelease_escalates:
  assumes "now \<le> later"
  shows "policy_rank pkg row now \<le> policy_rank pkg row later"
  using assms
  by (auto simp: policy_rank_cases dateOnOrBefore_def dateWithin_def split: option.splits)

theorem FindingForRelease_escalates_witness:
  "policy_rank \<lparr>q_Ecosystem = ''pypi'', q_Name = ''django'', q_Version = ''1.2.3''\<rparr>
     (bare_row ''1.2''\<lparr>rr_Release := rr_Release (bare_row ''1.2'')\<lparr>EOLFrom := Some (100 * 24 * 3600 * second)\<rparr>\<rparr>) 0 = 0 \<and>
   policy_rank \<lparr>q_Ecosystem = ''pypi'', q_Name = ''django'', q_Version = ''1.2.3''\<rparr>
     (bare_row ''1.2''\<lparr>rr_Release := rr_Release (bare_row ''1.2'')\<lparr>EOLFrom := Some (100 * 24 * 3600 * second)\<rparr>\<rparr>)
     (20 * 24 * 3600 * second) = 2 \<and>
   policy_rank \<lparr>q_Ecosystem = ''pypi'', q_Name = ''django'', q_Version = ''1.2.3''\<rparr>
     (bare_row ''1.2''\<lparr>rr_Release := rr_Release (bare_row ''1.2'')\<lparr>EOLFrom := Some (100 * 24 * 3600 * second)\<rparr>\<rparr>)
     (20 * 24 * 3600 * second) \<le>
   policy_rank \<lparr>q_Ecosystem = ''pypi'', q_Name = ''django'', q_Version = ''1.2.3''\<rparr>
     (bare_row ''1.2''\<lparr>rr_Release := rr_Release (bare_row ''1.2'')\<lparr>EOLFrom := Some (100 * 24 * 3600 * second)\<rparr>\<rparr>)
     (101 * 24 * 3600 * second)"
  by (intro conjI FindingForRelease_escalates)
    (simp_all add: policy_rank_cases bare_row_def dateOnOrBefore_def dateWithin_def EOLSoonWindow_def)

text \<open>
  A release that has reached its end of life yields a finding that blocks a scan under every
  threshold, NONE included; the other lifecycle findings block only from a threshold of at most
  their rank and never under NONE.
\<close>

theorem FindingForRelease_blocks:
  assumes "FindingForRelease pkg row now = Some f"
  shows "FindingBlocks f threshold \<longleftrightarrow>
    IsEOL (rr_Release row) \<or> dateOnOrBefore (EOLFrom (rr_Release row)) now \<or>
    threshold \<noteq> SeverityNone \<and> Rank threshold \<le> policy_rank pkg row now"
proof -
  have informational: "\<not> FindingIsInformational f"
  proof -
    have "\<not> EqualFold (TrimSpace RiskTypeEOL) RiskTypeMalwareHistory" by code_simp
    then show ?thesis
      using assms
      by (auto simp: FindingForRelease_def FindingIsInformational_def Let_def split: if_split_asm)
  qed
  let ?eol = "IsEOL (rr_Release row) \<or> dateOnOrBefore (EOLFrom (rr_Release row)) now"
  have type: "f_Type f = (if ?eol then FindingTypeSupplyChainRisk else FindingTypeLifecycle)"
    using assms by (auto simp: FindingForRelease_def Let_def split: if_split_asm)
  have "policy_rank pkg row now = Rank (f_Severity f)" by (simp add: policy_rank_def assms)
  then show ?thesis
    using informational type
    by (cases ?eol) (auto simp add: FindingBlocks_def FindingAlwaysBlocks_def Blocks_def)
qed

theorem FindingForRelease_blocks_witness:
  "FindingForRelease \<lparr>q_Ecosystem = ''pypi'', q_Name = ''django'', q_Version = ''1.2.3''\<rparr>
     (bare_row ''1.2''\<lparr>rr_Release := rr_Release (bare_row ''1.2'')\<lparr>IsEOL := True\<rparr>\<rparr>) 5 \<noteq> None \<and>
   FindingBlocks (the (FindingForRelease \<lparr>q_Ecosystem = ''pypi'', q_Name = ''django'', q_Version = ''1.2.3''\<rparr>
     (bare_row ''1.2''\<lparr>rr_Release := rr_Release (bare_row ''1.2'')\<lparr>IsEOL := True\<rparr>\<rparr>) 5)) ''NONE''"
proof -
  let ?q = "\<lparr>q_Ecosystem = ''pypi'', q_Name = ''django'', q_Version = ''1.2.3''\<rparr>"
  let ?row = "bare_row ''1.2''\<lparr>rr_Release := rr_Release (bare_row ''1.2'')\<lparr>IsEOL := True\<rparr>\<rparr>"
  obtain f where f: "FindingForRelease ?q ?row 5 = Some f"
    by (simp add: FindingForRelease_def Let_def)
  from FindingForRelease_blocks [OF f, of "''NONE''"] f show ?thesis by simp
qed

end
