(* ===== verification/Collection.thy ===== *)
theory Collection
  imports Domain
begin

text \<open>
  Package collection, \<open>internal/scanner/package_collector.go\<close>: packages from lock files and SBOMs
  are added to a collection that keeps one entry per identity (name, version, ecosystem) with an
  index from identities to positions, then stale go.sum versions and development packages are
  filtered out. The walk over the file system and the parsers come in as their results: a list of
  lock files with what their parser returned, and one outcome per SBOM path.

  The lemmas show that every operation keeps the index exact and the identities distinct, that
  adding refines a specification without an index, and what the filters keep.
\<close>

section \<open>Paths\<close>

text \<open>\<open>filepath.Clean\<close> and \<open>filepath.Base\<close> with the separator of Unix.\<close>

fun clean_comps :: "bool \<Rightarrow> gostring list \<Rightarrow> gostring list \<Rightarrow> gostring list" where
  "clean_comps rooted stack [] = rev stack"
| "clean_comps rooted stack (c # cs) =
     (if c = [] \<or> c = ''.'' then clean_comps rooted stack cs
      else if c = ''..'' then
        (if stack \<noteq> [] \<and> hd stack \<noteq> ''..'' then clean_comps rooted (tl stack) cs
         else if rooted then clean_comps rooted stack cs
         else clean_comps rooted (c # stack) cs)
      else clean_comps rooted (c # stack) cs)"

definition Clean :: "gostring \<Rightarrow> gostring" where
  "Clean p =
     (let rooted = HasPrefix p ''/'';
          comps = clean_comps rooted [] (Split p (CHR ''/''))
      in if rooted then ''/'' @ Join comps ''/''
         else if comps = [] then ''.''
         else Join comps ''/'')"

definition Base :: "gostring \<Rightarrow> gostring" where
  "Base p =
     (if p = [] then ''.''
      else let t = TrimRight p ''/'' in
        if t = [] then ''/'' else last (Split t (CHR ''/'')))"

section \<open>Inputs\<close>

record LockFile =
  RelPath :: gostring
  parsed :: "(gostring, Package list) result"

datatype SBOMOutcome =
    SBOMInput gostring gostring
  | SBOMParse gostring gostring
  | SBOMOk gostring "Package list" "gostring list"

record CollectConfig =
  Ecosystems :: "gostring list"
  SBOMPaths :: "gostring list"
  IncludeDev :: bool

section \<open>The collection\<close>

record CollectedPackage =
  cp_Package :: Package
  SourceFile :: gostring
  SourceType :: gostring

type_synonym packageCollectionKey = "gostring \<times> gostring \<times> gostring"

record PackageCollection =
  Packages :: "Package list"
  Entries :: "CollectedPackage list"
  ParseErrors :: "gostring list"
  FatalParseErrors :: "gostring list"
  LockFiles :: nat
  SBOMFiles :: nat
  index :: "(packageCollectionKey \<rightharpoonup> nat) option"

definition empty_collection :: PackageCollection where
  "empty_collection = \<lparr>Packages = [], Entries = [], ParseErrors = [], FatalParseErrors = [],
     LockFiles = 0, SBOMFiles = 0, index = None\<rparr>"

definition pkg_key :: "Package \<Rightarrow> packageCollectionKey" where
  "pkg_key pkg = (pk_Name pkg, pk_Version pkg, pk_Ecosystem pkg)"

definition entry_key :: "CollectedPackage \<Rightarrow> packageCollectionKey" where
  "entry_key e = pkg_key (cp_Package e)"

fun build_index :: "nat \<Rightarrow> CollectedPackage list \<Rightarrow> (packageCollectionKey \<rightharpoonup> nat) \<Rightarrow> (packageCollectionKey \<rightharpoonup> nat)" where
  "build_index i [] m = m"
| "build_index i (e # es) m = build_index (i + 1) es (m(entry_key e \<mapsto> i))"

definition rebuildIndex :: "PackageCollection \<Rightarrow> PackageCollection" where
  "rebuildIndex c = c\<lparr>index := Some (build_index 0 (Entries c) Map.empty)\<rparr>"

definition ensureIndex :: "PackageCollection \<Rightarrow> PackageCollection" where
  "ensureIndex c = (case index c of Some _ \<Rightarrow> c | None \<Rightarrow> rebuildIndex c)"

definition add :: "Package \<Rightarrow> gostring \<Rightarrow> gostring \<Rightarrow> PackageCollection \<Rightarrow> PackageCollection" where
  "add pkg sourceFile sourceType c0 =
     (let c = ensureIndex c0;
          idx = the (index c);
          k = pkg_key pkg
      in case idx k of
           Some i \<Rightarrow>
             c\<lparr>Entries := (Entries c)[i := (Entries c ! i)
                 \<lparr>cp_Package := MergePackageMetadata (cp_Package (Entries c ! i)) pkg\<rparr>]\<rparr>
         | None \<Rightarrow>
             c\<lparr>index := Some (idx(k \<mapsto> length (Entries c))),
               Entries := Entries c @ [\<lparr>cp_Package = pkg, SourceFile = sourceFile, SourceType = sourceType\<rparr>]\<rparr>)"

definition filterDev :: "PackageCollection \<Rightarrow> PackageCollection" where
  "filterDev c = rebuildIndex (c\<lparr>Entries := filter (\<lambda>e. \<not> pk_Dev (cp_Package e)) (Entries c)\<rparr>)"

definition isGoSumSource :: "gostring \<Rightarrow> bool" where
  "isGoSumSource sourceFile = EqualFold (Base (Clean sourceFile)) ''go.sum''"

definition selects :: "CollectedPackage \<Rightarrow> bool" where
  "selects e \<longleftrightarrow> \<not> (pk_Ecosystem (cp_Package e) \<noteq> ''go'' \<or> isGoSumSource (SourceFile e))"

definition at_key :: "Package \<Rightarrow> gostring" where
  "at_key pkg = pk_Name pkg @ ''@'' @ pk_Version pkg"

definition filterStaleGoSumVersions :: "PackageCollection \<Rightarrow> PackageCollection" where
  "filterStaleGoSumVersions c =
     (let sel = filter selects (Entries c);
          selected = map (\<lambda>e. at_key (cp_Package e)) sel;
          selectedNames = map (\<lambda>e. pk_Name (cp_Package e)) sel
      in if selectedNames = [] then c
         else rebuildIndex (c\<lparr>Entries := filter (\<lambda>e.
                let pkg = cp_Package e in
                \<not> (pk_Ecosystem pkg = ''go'' \<and> isGoSumSource (SourceFile e) \<and>
                   pk_Name pkg \<in> set selectedNames \<and> at_key pkg \<notin> set selected)) (Entries c)\<rparr>))"

definition rebuildPackages :: "PackageCollection \<Rightarrow> PackageCollection" where
  "rebuildPackages c = c\<lparr>Packages := map cp_Package (Entries c)\<rparr>"

section \<open>Collecting\<close>

text \<open>The filter is a set of lower-case names; the code's nil map is the empty one.\<close>

definition ecosystemFilter :: "gostring list \<Rightarrow> gostring list" where
  "ecosystemFilter ecosystems = filter (\<lambda>t. t \<noteq> []) (map (\<lambda>eco. ToLower (TrimSpace eco)) ecosystems)"

definition allows :: "gostring list \<Rightarrow> Ecosystem \<Rightarrow> bool" where
  "allows f eco = (if f = [] then True else ToLower eco \<in> set f)"

definition add_all ::
    "gostring list \<Rightarrow> gostring \<Rightarrow> gostring \<Rightarrow> Package list \<Rightarrow> PackageCollection \<Rightarrow> PackageCollection" where
  "add_all ecoFilter sourceFile sourceType pkgs c =
     fold (\<lambda>pkg c. if \<not> allows ecoFilter (pk_Ecosystem pkg) then c
                   else add pkg sourceFile sourceType c) pkgs c"

fun collect_lockfiles :: "gostring list \<Rightarrow> LockFile list \<Rightarrow> PackageCollection \<Rightarrow> PackageCollection" where
  "collect_lockfiles ecoFilter [] c = c"
| "collect_lockfiles ecoFilter (lf # lfs) c =
     collect_lockfiles ecoFilter lfs
       (case parsed lf of
          Err parseErr \<Rightarrow> c\<lparr>ParseErrors := ParseErrors c @ [RelPath lf @ '': '' @ parseErr]\<rparr>
        | Ok pkgs \<Rightarrow> add_all ecoFilter (RelPath lf) ''lockfile'' pkgs c)"

definition collectLockfilePackages ::
    "(gostring, LockFile list) result \<Rightarrow> gostring option \<Rightarrow> gostring list \<Rightarrow> PackageCollection
     \<Rightarrow> (gostring, PackageCollection) result" where
  "collectLockfilePackages walk openRoot ecoFilter c =
     (case walk of
        Err e \<Rightarrow> Err (''walk: '' @ e)
      | Ok lockFiles \<Rightarrow>
          (case openRoot of
             Some e \<Rightarrow> Err (''open scan root: '' @ e)
           | None \<Rightarrow> Ok (collect_lockfiles ecoFilter lockFiles (c\<lparr>LockFiles := length lockFiles\<rparr>))))"

definition sbomSkippedComponentReason :: "gostring \<Rightarrow> gostring" where
  "sbomSkippedComponentReason reason =
     (let r = TrimSpace reason in
      if r \<in> {''invalid package name'', ''missing purl'', ''unsupported component type'',
             ''unsupported or versionless purl''} then r
      else ''component could not be imported'')"

definition formatSBOMSkippedComponent :: "gostring \<Rightarrow> int \<Rightarrow> gostring \<Rightarrow> gostring" where
  "formatSBOMSkippedComponent path ordinal reason =
     (let ordinal = (if ordinal < 1 then 1 else ordinal) in
      path @ '': skipped SBOM component #'' @ Itoa ordinal @ '': '' @ sbomSkippedComponentReason reason)"

fun skipped_lines :: "gostring \<Rightarrow> nat \<Rightarrow> gostring list \<Rightarrow> gostring list" where
  "skipped_lines path i [] = []"
| "skipped_lines path i (r # rs) = formatSBOMSkippedComponent path (int i + 1) r # skipped_lines path (i + 1) rs"

fun collectExplicitSBOMPackages ::
    "(gostring \<Rightarrow> SBOMOutcome) \<Rightarrow> gostring list \<Rightarrow> gostring list \<Rightarrow> PackageCollection
     \<Rightarrow> (gostring, PackageCollection) result" where
  "collectExplicitSBOMPackages parse ecoFilter [] c = Ok c"
| "collectExplicitSBOMPackages parse ecoFilter (sbomPath # paths) c =
     (if TrimSpace sbomPath = [] then collectExplicitSBOMPackages parse ecoFilter paths c
      else let c = c\<lparr>SBOMFiles := SBOMFiles c + 1\<rparr> in
        case parse sbomPath of
          SBOMInput displayPath e \<Rightarrow> Err (displayPath @ '': '' @ e)
        | SBOMParse displayPath e \<Rightarrow>
            (let msg = displayPath @ '': '' @ e in
             collectExplicitSBOMPackages parse ecoFilter paths
               (c\<lparr>ParseErrors := ParseErrors c @ [msg], FatalParseErrors := FatalParseErrors c @ [msg]\<rparr>))
        | SBOMOk displayPath packages skipped \<Rightarrow>
            collectExplicitSBOMPackages parse ecoFilter paths
              (add_all ecoFilter displayPath ''sbom'' packages
                (c\<lparr>ParseErrors := ParseErrors c @ skipped_lines displayPath 0 skipped\<rparr>)))"

definition finalizePackageCollection :: "bool \<Rightarrow> PackageCollection \<Rightarrow> PackageCollection" where
  "finalizePackageCollection includeDev c =
     (let c = filterStaleGoSumVersions c;
          c = (if includeDev then c else filterDev c)
      in rebuildPackages c)"

definition CollectPackages ::
    "CollectConfig \<Rightarrow> (gostring, LockFile list) result \<Rightarrow> gostring option \<Rightarrow> (gostring \<Rightarrow> SBOMOutcome)
     \<Rightarrow> (gostring, PackageCollection) result" where
  "CollectPackages cfg walk openRoot parse =
     (let ecoFilter = ecosystemFilter (Ecosystems cfg) in
      case collectLockfilePackages walk openRoot ecoFilter empty_collection of
        Err e \<Rightarrow> Err e
      | Ok c \<Rightarrow>
          (case collectExplicitSBOMPackages parse ecoFilter (SBOMPaths cfg) c of
             Err e \<Rightarrow> Err e
           | Ok c \<Rightarrow> Ok (finalizePackageCollection (IncludeDev cfg) c)))"

section \<open>Diagnostics\<close>

definition MaxUserFacingParseDiagnostics :: nat where
  "MaxUserFacingParseDiagnostics = 20"

fun bounded_loop :: "gostring list \<Rightarrow> nat \<Rightarrow> gostring list \<Rightarrow> gostring list \<times> nat" where
  "bounded_loop visible omitted [] = (visible, omitted)"
| "bounded_loop visible omitted (e # es) =
     (let e = TrimSpace e in
      if e = [] then bounded_loop visible omitted es
      else if length visible < MaxUserFacingParseDiagnostics then bounded_loop (visible @ [e]) omitted es
      else bounded_loop visible (omitted + 1) es)"

definition BoundedParseDiagnostics :: "gostring list \<Rightarrow> gostring list \<times> nat" where
  "BoundedParseDiagnostics parseErrors =
     (if parseErrors = [] then ([], 0) else bounded_loop [] 0 parseErrors)"

definition ParseDiagnosticsOmittedSummary :: "int \<Rightarrow> gostring" where
  "ParseDiagnosticsOmittedSummary omitted =
     (if omitted \<le> 0 then []
      else Itoa omitted @ '' additional parse diagnostics omitted; see JSON parse_errors for full detail'')"

section \<open>The contract of a collection\<close>

text \<open>
  The specification of adding: merge into the entry of the same identity, or append an entry.
\<close>

definition add_spec ::
    "Package \<Rightarrow> gostring \<Rightarrow> gostring \<Rightarrow> CollectedPackage list \<Rightarrow> CollectedPackage list" where
  "add_spec pkg sourceFile sourceType es =
     (if pkg_key pkg \<in> entry_key ` set es
      then update_first (\<lambda>e. entry_key e = pkg_key pkg)
             (\<lambda>e. e\<lparr>cp_Package := MergePackageMetadata (cp_Package e) pkg\<rparr>) es
      else es @ [\<lparr>cp_Package = pkg, SourceFile = sourceFile, SourceType = sourceType\<rparr>])"

definition lookup :: "packageCollectionKey \<Rightarrow> CollectedPackage list \<Rightarrow> Package option" where
  "lookup k es = map_option cp_Package (find (\<lambda>e. entry_key e = k) es)"

text \<open>Merging one more duplicate into what is known of an identity.\<close>

definition absorb :: "Package \<Rightarrow> Package option \<Rightarrow> Package option" where
  "absorb p known = Some (case known of None \<Rightarrow> p | Some q \<Rightarrow> MergePackageMetadata q p)"

definition absorbed :: "packageCollectionKey \<Rightarrow> Package list \<Rightarrow> Package option \<Rightarrow> Package option" where
  "absorbed k ps known = fold absorb (filter (\<lambda>p. pkg_key p = k) ps) known"

lemma pkg_key_merge [simp]: "pkg_key (MergePackageMetadata a b) = pkg_key a"
  by (simp add: pkg_key_def merge_simps)

lemma find_None_key: "find (\<lambda>e. entry_key e = k) es = None \<longleftrightarrow> k \<notin> entry_key ` set es"
  by (auto simp: find_None_iff image_iff)

lemma lookup_add_spec:
  "lookup k (add_spec p f t es) =
     (if k = pkg_key p then absorb p (lookup k es) else lookup k es)"
proof (cases "pkg_key p \<in> entry_key ` set es")
  case True
  let ?g = "\<lambda>e. e\<lparr>cp_Package := MergePackageMetadata (cp_Package e) p\<rparr>"
  have key: "entry_key (?g e) = entry_key e" for e by (simp add: entry_key_def)
  show ?thesis
  proof (cases "k = pkg_key p")
    case eq: True
    from True obtain e where e: "find (\<lambda>e. entry_key e = pkg_key p) es = Some e"
      using find_None_key by (cases "find (\<lambda>e. entry_key e = pkg_key p) es") auto
    have "find (\<lambda>e. entry_key e = k) (update_first (\<lambda>e. entry_key e = pkg_key p) ?g es) =
        map_option ?g (find (\<lambda>e. entry_key e = k) es)"
      unfolding eq by (rule find_update_first) (simp add: key)
    with e True show ?thesis by (simp add: eq add_spec_def lookup_def absorb_def)
  next
    case False
    then have "find (\<lambda>e. entry_key e = k) (update_first (\<lambda>e. entry_key e = pkg_key p) ?g es) =
        find (\<lambda>e. entry_key e = k) es"
      by (induction es) (auto simp: key)
    with False True show ?thesis by (simp add: add_spec_def lookup_def)
  qed
next
  case False
  have app: "find P (xs @ ys) = (case find P xs of None \<Rightarrow> find P ys | Some x \<Rightarrow> Some x)"
    for P and xs ys :: "CollectedPackage list" by (induction xs) auto
  have "find (\<lambda>e. entry_key e = pkg_key p) es = None" using False find_None_key by blast
  with False show ?thesis
    by (auto simp: add_spec_def lookup_def absorb_def app entry_key_def split: option.split)
qed

lemma keys_add_spec:
  "map entry_key (add_spec p f t es) =
     (if pkg_key p \<in> entry_key ` set es then map entry_key es else map entry_key es @ [pkg_key p])"
  by (auto simp: add_spec_def entry_key_def intro!: map_update_first)

lemma absorbed_simps [simp]:
  "absorbed k [] known = known"
  "absorbed k (ps @ qs) known = absorbed k qs (absorbed k ps known)"
  by (simp_all add: absorbed_def)

locale collection =
  fixes inv :: "'c \<Rightarrow> bool"
    and entries :: "'c \<Rightarrow> CollectedPackage list"
    and insert_pkg :: "Package \<Rightarrow> gostring \<Rightarrow> gostring \<Rightarrow> 'c \<Rightarrow> 'c"
  assumes distinct_keys: "inv c \<Longrightarrow> distinct (map entry_key (entries c))"
    and insert_inv: "inv c \<Longrightarrow> inv (insert_pkg p f t c)"
    and insert_entries: "inv c \<Longrightarrow> entries (insert_pkg p f t c) = add_spec p f t (entries c)"
begin

lemma fold_insert:
  assumes "inv c"
  shows "inv (fold (\<lambda>p c. if P p then insert_pkg p f t c else c) ps c) \<and>
    lookup k (entries (fold (\<lambda>p c. if P p then insert_pkg p f t c else c) ps c)) =
      absorbed k (filter P ps) (lookup k (entries c))"
  using assms
proof (induction ps arbitrary: c)
  case (Cons p ps)
  show ?case
  proof (cases "P p")
    case True
    with Cons.IH [OF insert_inv [OF Cons.prems, of p f t]] show ?thesis
      by (simp add: insert_entries [OF Cons.prems] lookup_add_spec absorbed_def)
  qed (use Cons in simp)
qed simp

lemma lookup_mem:
  assumes "inv c" and "e \<in> set (entries c)"
  shows "lookup (entry_key e) (entries c) = Some (cp_Package e)"
  using distinct_map_inj_find [OF distinct_keys [OF assms(1)] assms(2)] by (simp add: lookup_def)

end

section \<open>The index is exact\<close>

definition exact_index :: "CollectedPackage list \<Rightarrow> (packageCollectionKey \<rightharpoonup> nat) \<Rightarrow> bool" where
  "exact_index es m \<longleftrightarrow> (\<forall>k i. m k = Some i \<longleftrightarrow> i < length es \<and> entry_key (es ! i) = k)"

definition collection_ok :: "PackageCollection \<Rightarrow> bool" where
  "collection_ok c \<longleftrightarrow> distinct (map entry_key (Entries c)) \<and>
     (case index c of None \<Rightarrow> True | Some m \<Rightarrow> exact_index (Entries c) m)"

lemma key_mem_nth: "k \<in> entry_key ` set es \<longleftrightarrow> (\<exists>i < length es. entry_key (es ! i) = k)"
  by (metis image_iff in_set_conv_nth)

lemma build_index_Some:
  assumes "distinct (map entry_key es)"
  shows "build_index n es m k = Some j \<longleftrightarrow>
    (\<exists>i < length es. entry_key (es ! i) = k \<and> j = n + i) \<or> k \<notin> entry_key ` set es \<and> m k = Some j"
  using assms
proof (induction es arbitrary: n m)
  case (Cons e es)
  have ex: "(\<exists>i < length (e # es). entry_key ((e # es) ! i) = k \<and> j = n + i) \<longleftrightarrow>
      entry_key e = k \<and> j = n \<or> (\<exists>i < length es. entry_key (es ! i) = k \<and> j = Suc n + i)"
    by (auto simp: less_Suc_eq_0_disj)
  with Cons show ?case unfolding ex by (auto simp: key_mem_nth)
qed simp

lemma build_index_exact:
  "distinct (map entry_key es) \<Longrightarrow> exact_index es (build_index 0 es Map.empty)"
  by (simp add: exact_index_def build_index_Some conj_commute)

lemma collection_ok_rebuild:
  "distinct (map entry_key (Entries c)) \<Longrightarrow> collection_ok (rebuildIndex c)"
  by (simp add: collection_ok_def rebuildIndex_def build_index_exact)

lemma collection_ok_ensure:
  assumes "collection_ok c"
  shows "collection_ok (ensureIndex c)" and "Entries (ensureIndex c) = Entries c"
    and "\<exists>m. index (ensureIndex c) = Some m \<and> exact_index (Entries c) m"
  using assms collection_ok_rebuild [of c]
  by (auto simp: ensureIndex_def collection_ok_def rebuildIndex_def split: option.splits)

lemma update_first_nth:
  assumes "i < length xs" and "P (xs ! i)" and "\<And>j. j < length xs \<Longrightarrow> P (xs ! j) \<Longrightarrow> j = i"
  shows "update_first P f xs = xs[i := f (xs ! i)]"
  using assms
proof (induction xs arbitrary: i)
  case (Cons x xs)
  show ?case
  proof (cases i)
    case 0
    then show ?thesis using Cons.prems by simp
  next
    case (Suc n)
    then have "\<not> P x" using Cons.prems(3) [of 0] by auto
    moreover have "update_first P f xs = xs[n := f (xs ! n)]"
    proof (rule Cons.IH)
      show "j = n" if "j < length xs" "P (xs ! j)" for j
        using Cons.prems(3) [of "Suc j"] that Suc by simp
    qed (use Cons.prems Suc in simp_all)
    ultimately show ?thesis using Suc by simp
  qed
qed simp

lemma add_Entries:
  assumes "collection_ok c"
  shows "Entries (add p f t c) = add_spec p f t (Entries c)"
proof -
  obtain m where m: "index (ensureIndex c) = Some m" "exact_index (Entries c) m"
    using collection_ok_ensure [OF assms] by blast
  note E = collection_ok_ensure(2) [OF assms]
  show ?thesis
  proof (cases "m (pkg_key p)")
    case None
    then have "pkg_key p \<notin> entry_key ` set (Entries c)"
      using m(2) unfolding key_mem_nth exact_index_def by (metis option.distinct(1))
    then show ?thesis using None m(1) E by (simp add: add_def add_spec_def Let_def)
  next
    case (Some i)
    have ex: "m (pkg_key p) = Some j \<longleftrightarrow> j < length (Entries c) \<and> entry_key (Entries c ! j) = pkg_key p" for j
      using m(2) unfolding exact_index_def by blast
    have i: "i < length (Entries c)" "entry_key (Entries c ! i) = pkg_key p"
      using Some ex [of i] by simp_all
    have upd: "update_first (\<lambda>e. entry_key e = pkg_key p) g (Entries c) = (Entries c)[i := g (Entries c ! i)]" for g
    proof (rule update_first_nth)
      show "j = i" if "j < length (Entries c)" "entry_key (Entries c ! j) = pkg_key p" for j
        using Some ex [of j] that by simp
    qed (rule i)+
    have "pkg_key p \<in> entry_key ` set (Entries c)" using i unfolding key_mem_nth by blast
    then have "add_spec p f t (Entries c) = (Entries c)[i := (Entries c ! i)
        \<lparr>cp_Package := MergePackageMetadata (cp_Package (Entries c ! i)) p\<rparr>]"
      by (simp only: add_spec_def upd if_True)
    moreover have "Entries (add p f t c) = (Entries c)[i := (Entries c ! i)
        \<lparr>cp_Package := MergePackageMetadata (cp_Package (Entries c ! i)) p\<rparr>]"
      using Some m(1) E by (simp add: add_def Let_def)
    ultimately show ?thesis by simp
  qed
qed

lemma add_collection_ok:
  assumes "collection_ok c"
  shows "collection_ok (add p f t c)"
proof -
  obtain m where m: "index (ensureIndex c) = Some m" "exact_index (Entries c) m"
    using collection_ok_ensure [OF assms] by blast
  note E = collection_ok_ensure(2) [OF assms]
  have dist: "distinct (map entry_key (Entries (add p f t c)))"
    using assms by (auto simp: add_Entries [OF assms] keys_add_spec collection_ok_def)
  moreover have "exact_index (Entries (add p f t c)) (the (index (add p f t c)))"
  proof (cases "m (pkg_key p)")
    case None
    then have "index (add p f t c) = Some (m(pkg_key p \<mapsto> length (Entries c)))"
      and "Entries (add p f t c) = Entries c @ [\<lparr>cp_Package = p, SourceFile = f, SourceType = t\<rparr>]"
      using m(1) E by (simp_all add: add_def Let_def)
    then show ?thesis
      using m(2) None
      by (auto simp: exact_index_def nth_append entry_key_def less_Suc_eq split: if_splits) (metis option.distinct(1))+
  next
    case (Some i)
    then have "pkg_key p \<in> entry_key ` set (Entries c)"
      using m(2) unfolding key_mem_nth exact_index_def by blast
    then have keys: "map entry_key (Entries (add p f t c)) = map entry_key (Entries c)"
      by (simp add: add_Entries [OF assms] keys_add_spec)
    have idx: "index (add p f t c) = Some m"
      using Some m by (simp add: add_def Let_def)
    have len: "length (Entries (add p f t c)) = length (Entries c)"
      using arg_cong [OF keys, of length] by simp
    have nth: "entry_key (Entries (add p f t c) ! i) = entry_key (Entries c ! i)" if "i < length (Entries c)" for i
      using arg_cong [OF keys, of "\<lambda>xs. xs ! i"] that len by simp
    show ?thesis using m(2) nth by (auto simp: exact_index_def idx len)
  qed
  moreover have "\<exists>m'. index (add p f t c) = Some m'"
    using m(1) by (simp add: add_def Let_def split: option.split)
  ultimately show ?thesis by (auto simp: collection_ok_def)
qed

interpretation pc: collection collection_ok Entries add
  by unfold_locales (simp_all add: add_Entries add_collection_ok, simp add: collection_ok_def)

section \<open>What a collection absorbs\<close>

definition lock_inputs :: "gostring list \<Rightarrow> LockFile list \<Rightarrow> Package list" where
  "lock_inputs ecoFilter lfs = concat (map (\<lambda>lf. case parsed lf of
       Err _ \<Rightarrow> [] | Ok ps \<Rightarrow> filter (\<lambda>p. allows ecoFilter (pk_Ecosystem p)) ps) lfs)"

definition sbom_inputs :: "gostring list \<Rightarrow> (gostring \<Rightarrow> SBOMOutcome) \<Rightarrow> gostring list \<Rightarrow> Package list" where
  "sbom_inputs ecoFilter parse paths = concat (map (\<lambda>path. if TrimSpace path = [] then [] else
       case parse path of SBOMOk _ ps _ \<Rightarrow> filter (\<lambda>p. allows ecoFilter (pk_Ecosystem p)) ps | _ \<Rightarrow> []) paths)"

text \<open>Every package the parsers delivered in an ecosystem the configuration admits.\<close>

definition all_inputs :: "CollectConfig \<Rightarrow> LockFile list \<Rightarrow> (gostring \<Rightarrow> SBOMOutcome) \<Rightarrow> Package list" where
  "all_inputs cfg lfs parse =
     lock_inputs (ecosystemFilter (Ecosystems cfg)) lfs @
     sbom_inputs (ecosystemFilter (Ecosystems cfg)) parse (SBOMPaths cfg)"

definition absorbs :: "Package list \<Rightarrow> PackageCollection \<Rightarrow> PackageCollection \<Rightarrow> bool" where
  "absorbs ps c c' \<longleftrightarrow> (collection_ok c \<longrightarrow> collection_ok c' \<and>
     (\<forall>k. lookup k (Entries c') = absorbed k ps (lookup k (Entries c))))"

lemma absorbs_trans: "absorbs ps a b \<Longrightarrow> absorbs qs b c \<Longrightarrow> absorbs (ps @ qs) a c"
  by (simp add: absorbs_def)

lemma absorbs_same: "Entries c' = Entries c \<Longrightarrow> index c' = index c \<Longrightarrow> absorbs [] c c'"
  by (cases "index c") (simp_all add: absorbs_def collection_ok_def)

lemma absorbs_add_all:
  "absorbs (filter (\<lambda>p. allows ecoFilter (pk_Ecosystem p)) ps) c (add_all ecoFilter f t ps c)"
proof -
  have "(\<lambda>pkg c. if \<not> allows ecoFilter (pk_Ecosystem pkg) then c else add pkg f t c) =
      (\<lambda>pkg c. if allows ecoFilter (pk_Ecosystem pkg) then add pkg f t c else c)"
    by (intro ext) simp
  then show ?thesis
    using pc.fold_insert [of c "\<lambda>p. allows ecoFilter (pk_Ecosystem p)" f t ps]
    by (simp add: absorbs_def add_all_def)
qed

lemma absorbs_collect_lockfiles: "absorbs (lock_inputs ecoFilter lfs) c (collect_lockfiles ecoFilter lfs c)"
proof (induction lfs arbitrary: c)
  case Nil
  then show ?case by (simp add: lock_inputs_def absorbs_def)
next
  case (Cons lf lfs)
  show ?case
  proof (cases "parsed lf")
    case (Inl e)
    let ?c = "c\<lparr>ParseErrors := ParseErrors c @ [RelPath lf @ '': '' @ e]\<rparr>"
    have "absorbs ([] @ lock_inputs ecoFilter lfs) c (collect_lockfiles ecoFilter lfs ?c)"
      by (rule absorbs_trans [OF absorbs_same Cons.IH]) simp_all
    then show ?thesis by (simp add: Inl lock_inputs_def)
  next
    case (Inr ps)
    have "absorbs (filter (\<lambda>p. allows ecoFilter (pk_Ecosystem p)) ps @ lock_inputs ecoFilter lfs) c
        (collect_lockfiles ecoFilter lfs (add_all ecoFilter (RelPath lf) ''lockfile'' ps c))"
      by (rule absorbs_trans [OF absorbs_add_all Cons.IH])
    then show ?thesis by (simp add: Inr lock_inputs_def)
  qed
qed

lemma absorbs_sboms:
  "collectExplicitSBOMPackages parse ecoFilter paths c = Ok c' \<Longrightarrow>
    absorbs (sbom_inputs ecoFilter parse paths) c c'"
proof (induction paths arbitrary: c)
  case Nil
  then show ?case by (simp add: sbom_inputs_def absorbs_def)
next
  case (Cons path paths)
  show ?case
  proof (cases "TrimSpace path = []")
    case True
    then show ?thesis using Cons by (simp add: sbom_inputs_def)
  next
    case False
    let ?c = "c\<lparr>SBOMFiles := SBOMFiles c + 1\<rparr>"
    show ?thesis
    proof (cases "parse path")
      case (SBOMInput d e)
      then show ?thesis using Cons.prems False by simp
    next
      case (SBOMParse d e)
      let ?c' = "?c\<lparr>ParseErrors := ParseErrors ?c @ [d @ '': '' @ e],
        FatalParseErrors := FatalParseErrors ?c @ [d @ '': '' @ e]\<rparr>"
      have "absorbs ([] @ sbom_inputs ecoFilter parse paths) c c'"
        by (rule absorbs_trans [OF absorbs_same Cons.IH [of ?c']])
          (use Cons.prems False SBOMParse in \<open>simp_all add: Let_def\<close>)
      then show ?thesis using False by (simp add: sbom_inputs_def SBOMParse)
    next
      case (SBOMOk d ps sk)
      let ?c1 = "?c\<lparr>ParseErrors := ParseErrors ?c @ skipped_lines d 0 sk\<rparr>"
      let ?c2 = "add_all ecoFilter d ''sbom'' ps ?c1"
      have ok: "collectExplicitSBOMPackages parse ecoFilter paths ?c2 = Ok c'"
        using Cons.prems False SBOMOk by (simp add: Let_def)
      have "absorbs ([] @ filter (\<lambda>p. allows ecoFilter (pk_Ecosystem p)) ps @ sbom_inputs ecoFilter parse paths) c c'"
        by (rule absorbs_trans [OF absorbs_same absorbs_trans [OF absorbs_add_all Cons.IH [OF ok]]]) simp_all
      then show ?thesis using False by (simp add: sbom_inputs_def SBOMOk)
    qed
  qed
qed

lemma CollectPackages_Ok:
  assumes "CollectPackages cfg (Ok lfs) openRoot parse = Ok c"
  obtains c0 where "c = finalizePackageCollection (IncludeDev cfg) c0" and "collection_ok c0"
    and "\<And>k. lookup k (Entries c0) = absorbed k (all_inputs cfg lfs parse) None"
proof -
  let ?f = "ecosystemFilter (Ecosystems cfg)"
  obtain c1 c0 where c1: "collectLockfilePackages (Ok lfs) openRoot ?f empty_collection = Ok c1"
    and c0: "collectExplicitSBOMPackages parse ?f (SBOMPaths cfg) c1 = Ok c0"
    and c: "c = finalizePackageCollection (IncludeDev cfg) c0"
    using assms by (auto simp: CollectPackages_def Let_def split: sum.splits)
  let ?e = "empty_collection\<lparr>LockFiles := length lfs\<rparr>"
  have "c1 = collect_lockfiles ?f lfs ?e"
    using c1 by (auto simp: collectLockfilePackages_def split: option.splits)
  then have "absorbs (lock_inputs ?f lfs) ?e c1" using absorbs_collect_lockfiles by simp
  from absorbs_trans [OF this absorbs_sboms [OF c0]]
  have "absorbs (all_inputs cfg lfs parse) ?e c0" by (simp add: all_inputs_def)
  moreover have "collection_ok ?e" and none: "\<And>k. lookup k (Entries ?e) = None"
    by (simp_all add: collection_ok_def empty_collection_def lookup_def)
  ultimately have ok: "collection_ok c0"
    and "\<forall>k. lookup k (Entries c0) = absorbed k (all_inputs cfg lfs parse) (lookup k (Entries ?e))"
    unfolding absorbs_def by blast+
  then have "lookup k (Entries c0) = absorbed k (all_inputs cfg lfs parse) None" for k
    using none by metis
  with c ok show thesis by (rule that)
qed

section \<open>What the filters keep\<close>

lemma finalize_Packages:
  "Packages (finalizePackageCollection dev c) =
     map cp_Package (filter (\<lambda>e. dev \<or> \<not> pk_Dev (cp_Package e)) (Entries (filterStaleGoSumVersions c)))"
  by (simp add: finalizePackageCollection_def rebuildPackages_def filterDev_def rebuildIndex_def Let_def)

lemma stale_Entries:
  "\<exists>P. Entries (filterStaleGoSumVersions c) = filter P (Entries c) \<and>
     (\<forall>e. pk_Ecosystem (cp_Package e) \<noteq> ''go'' \<longrightarrow> P e)"
proof (cases "filter selects (Entries c) = []")
  case True
  then have "Entries (filterStaleGoSumVersions c) = filter (\<lambda>e. True) (Entries c)"
    by (simp add: filterStaleGoSumVersions_def)
  then show ?thesis by blast
next
  case False
  then show ?thesis
    by (auto simp: filterStaleGoSumVersions_def rebuildIndex_def Let_def intro!: exI)
qed

lemma lookup_SomeD: "lookup k es = Some p \<Longrightarrow> \<exists>e \<in> set es. cp_Package e = p \<and> pkg_key p = k"
  by (auto simp: lookup_def find_Some_iff entry_key_def)

lemma finalize_inventory:
  assumes "collection_ok c"
  shows "distinct (map pkg_key (Packages (finalizePackageCollection dev c)))"
    and "p \<in> set (Packages (finalizePackageCollection dev c)) \<Longrightarrow>
      lookup (pkg_key p) (Entries c) = Some p \<and> (dev \<or> \<not> pk_Dev p)"
    and "lookup k (Entries c) = Some p \<Longrightarrow> dev \<or> \<not> pk_Dev p \<Longrightarrow> pk_Ecosystem p \<noteq> ''go'' \<Longrightarrow>
      p \<in> set (Packages (finalizePackageCollection dev c))"
proof -
  obtain P where P: "Entries (filterStaleGoSumVersions c) = filter P (Entries c)"
    "\<forall>e. pk_Ecosystem (cp_Package e) \<noteq> ''go'' \<longrightarrow> P e" using stale_Entries by blast
  have keys: "distinct (map entry_key (Entries c))" using assms by (simp add: collection_ok_def)
  have pk: "pkg_key (cp_Package e) = entry_key e" for e by (simp add: entry_key_def)
  show "distinct (map pkg_key (Packages (finalizePackageCollection dev c)))"
    using keys by (simp add: finalize_Packages P(1) comp_def pk distinct_map_filter)
  show "lookup (pkg_key p) (Entries c) = Some p \<and> (dev \<or> \<not> pk_Dev p)"
    if "p \<in> set (Packages (finalizePackageCollection dev c))"
    using that pc.lookup_mem [OF assms] by (auto simp: finalize_Packages P(1) pk)
  show "p \<in> set (Packages (finalizePackageCollection dev c))"
    if "lookup k (Entries c) = Some p" "dev \<or> \<not> pk_Dev p" "pk_Ecosystem p \<noteq> ''go''"
    using lookup_SomeD [OF that(1)] that(2,3) P by (auto simp: finalize_Packages image_iff)
qed

section \<open>Properties\<close>

lemma absorbed_MergeAll:
  "absorbed k ps None = (case filter (\<lambda>p. pkg_key p = k) ps of [] \<Rightarrow> None | q # qs \<Rightarrow> Some (MergeAll q qs))"
proof -
  have "fold absorb qs (Some q) = Some (MergeAll q qs)" for q qs
    by (induction qs arbitrary: q) (simp_all add: absorb_def)
  then show ?thesis by (auto simp: absorbed_def absorb_def split: list.split)
qed

text \<open>
  C34: Adding a package to a collection whose index is exact keeps the index exact and the
  identities distinct, and does what the specification without an index does: merge into the
  entry of the same identity, or append a new one.
\<close>

theorem add_refines:
  assumes "collection_ok c"
  shows "collection_ok (add p f t c) \<and> Entries (add p f t c) = add_spec p f t (Entries c)"
  using add_collection_ok [OF assms] add_Entries [OF assms] by simp

theorem add_refines_witness:
  "map (\<lambda>e. pk_Dev (cp_Package e)) (Entries
     (add (zero_package\<lparr>pk_Name := ''a''\<rparr>) ''go.mod'' ''lockfile''
       (add (zero_package\<lparr>pk_Name := ''a'', pk_Dev := True\<rparr>) ''x'' ''lockfile'' empty_collection))) = [False]"
proof -
  let ?c = "add (zero_package\<lparr>pk_Name := ''a'', pk_Dev := True\<rparr>) ''x'' ''lockfile'' empty_collection"
  have empty: "collection_ok empty_collection" by (simp add: collection_ok_def empty_collection_def)
  from add_refines [OF empty, of "zero_package\<lparr>pk_Name := ''a'', pk_Dev := True\<rparr>" "''x''" "''lockfile''"]
  have c: "collection_ok ?c" "Entries ?c = [\<lparr>cp_Package = zero_package\<lparr>pk_Name := ''a'', pk_Dev := True\<rparr>,
      SourceFile = ''x'', SourceType = ''lockfile''\<rparr>]"
    by (simp_all add: add_spec_def empty_collection_def)
  from add_refines [OF c(1)]
  have e: "Entries (add q f t ?c) = add_spec q f t (Entries ?c)" for q f t by blast
  show ?thesis unfolding e c(2) by code_simp
qed

text \<open>
  C35: The inventory of a successful collection has one package per identity, each the merge of all
  the packages of that identity the parsers delivered in admitted ecosystems, and without
  development packages unless they are asked for.
\<close>

theorem CollectPackages_inventory:
  assumes "CollectPackages cfg (Ok lfs) openRoot parse = Ok c"
  shows "distinct (map pkg_key (Packages c)) \<and>
    (\<forall>p \<in> set (Packages c). (IncludeDev cfg \<or> \<not> pk_Dev p) \<and>
       (\<exists>q qs. filter (\<lambda>r. pkg_key r = pkg_key p) (all_inputs cfg lfs parse) = q # qs \<and> p = MergeAll q qs))"
proof -
  obtain c0 where c0: "c = finalizePackageCollection (IncludeDev cfg) c0" "collection_ok c0"
    "\<And>k. lookup k (Entries c0) = absorbed k (all_inputs cfg lfs parse) None"
    using CollectPackages_Ok [OF assms] by blast
  show ?thesis
  proof (intro conjI ballI)
    show "distinct (map pkg_key (Packages c))" using finalize_inventory(1) [OF c0(2)] c0(1) by simp
    fix p assume p: "p \<in> set (Packages c)"
    have keep: "absorbed (pkg_key p) (all_inputs cfg lfs parse) None = Some p \<and> (IncludeDev cfg \<or> \<not> pk_Dev p)"
      using finalize_inventory(2) [OF c0(2), of p "IncludeDev cfg"] p c0 by simp
    then show "IncludeDev cfg \<or> \<not> pk_Dev p" by simp
    from keep show "\<exists>q qs. filter (\<lambda>r. pkg_key r = pkg_key p) (all_inputs cfg lfs parse) = q # qs \<and> p = MergeAll q qs"
      by (auto simp: absorbed_MergeAll split: list.splits)
  qed
qed

text \<open>
  C36: Outside the Go ecosystem no production dependency is lost: every package the parsers
  delivered in an admitted ecosystem and not as a development package is in the inventory under its
  identity, as a production package, whatever other files call it.
\<close>

theorem CollectPackages_keeps_production:
  assumes "CollectPackages cfg (Ok lfs) openRoot parse = Ok c"
    and "q \<in> set (all_inputs cfg lfs parse)" and "\<not> pk_Dev q" and "pk_Ecosystem q \<noteq> ''go''"
  shows "\<exists>p. p \<in> set (Packages c) \<and> pkg_key p = pkg_key q \<and> \<not> pk_Dev p"
proof -
  obtain c0 where c0: "c = finalizePackageCollection (IncludeDev cfg) c0" "collection_ok c0"
    "\<And>k. lookup k (Entries c0) = absorbed k (all_inputs cfg lfs parse) None"
    using CollectPackages_Ok [OF assms(1)] by blast
  let ?fs = "filter (\<lambda>r. pkg_key r = pkg_key q) (all_inputs cfg lfs parse)"
  have "q \<in> set ?fs" using assms(2) by simp
  then obtain a as where a: "?fs = a # as" by (cases ?fs) auto
  let ?p = "MergeAll a as"
  have "pkg_key a = pkg_key q" using a by (metis (mono_tags) filter_eq_ConsD)
  then have key: "pkg_key ?p = pkg_key q" by (simp add: pkg_key_def MergeAll_fields)
  have dev: "\<not> pk_Dev ?p"
    using \<open>q \<in> set ?fs\<close> assms(3) unfolding a by (auto simp: MergeAll_fields)
  have "lookup (pkg_key q) (Entries c0) = Some ?p" by (simp add: c0(3) absorbed_MergeAll a)
  moreover have "pk_Ecosystem ?p \<noteq> ''go''" using key assms(4) by (simp add: pkg_key_def)
  ultimately have "?p \<in> set (Packages c)"
    using finalize_inventory(3) [OF c0(2), of "pkg_key q" ?p "IncludeDev cfg"] dev c0(1) by simp
  with key dev show ?thesis by blast
qed

text \<open>An example: two lock files that share a package, one of them as a development package.\<close>

definition example_cfg :: CollectConfig where
  "example_cfg = \<lparr>Ecosystems = [], SBOMPaths = [], IncludeDev = False\<rparr>"

definition example_files :: "LockFile list" where
  "example_files =
     [\<lparr>RelPath = ''a/package-lock.json'', parsed = Ok
         [zero_package\<lparr>pk_Name := ''x'', pk_Version := ''1'', pk_Ecosystem := ''npm'', pk_Dev := True\<rparr>,
          zero_package\<lparr>pk_Name := ''y'', pk_Version := ''2'', pk_Ecosystem := ''npm'', pk_Dev := True\<rparr>]\<rparr>,
      \<lparr>RelPath = ''b/package-lock.json'', parsed = Ok
         [zero_package\<lparr>pk_Name := ''x'', pk_Version := ''1'', pk_Ecosystem := ''npm''\<rparr>]\<rparr>]"

definition example_result :: PackageCollection where
  "example_result = (case CollectPackages example_cfg (Ok example_files) None (\<lambda>_. SBOMInput [] []) of
     Ok c \<Rightarrow> c | Err _ \<Rightarrow> empty_collection)"

lemma example_collects:
  "CollectPackages example_cfg (Ok example_files) None (\<lambda>_. SBOMInput [] []) = Ok example_result"
  by (simp add: example_result_def CollectPackages_def collectLockfilePackages_def example_cfg_def Let_def)

theorem CollectPackages_inventory_witness:
  "distinct (map pkg_key (Packages example_result)) \<and>
   map pkg_key (Packages example_result) = [(''x'', ''1'', ''npm'')]"
proof
  show "distinct (map pkg_key (Packages example_result))"
    using CollectPackages_inventory [OF example_collects] by blast
  show "map pkg_key (Packages example_result) = [(''x'', ''1'', ''npm'')]" by code_simp
qed

theorem CollectPackages_keeps_production_witness:
  "\<exists>p. p \<in> set (Packages example_result) \<and> pkg_key p = (''x'', ''1'', ''npm'') \<and> \<not> pk_Dev p"
proof -
  let ?q = "zero_package\<lparr>pk_Name := ''x'', pk_Version := ''1'', pk_Ecosystem := ''npm''\<rparr>"
  have "?q \<in> set (all_inputs example_cfg example_files (\<lambda>_. SBOMInput [] []))" by code_simp
  moreover have "\<not> pk_Dev ?q" and "pk_Ecosystem ?q \<noteq> ''go''" and key: "pkg_key ?q = (''x'', ''1'', ''npm'')"
    by (simp_all add: zero_package_def pkg_key_def)
  ultimately show ?thesis
    using CollectPackages_keeps_production [OF example_collects, of ?q] unfolding key by blast
qed

text \<open>
  The hypothesis on the ecosystem is needed. The entry of a version keeps the file that delivered it
  first; when that is a go.sum, the version counts as stale although another module's go.mod
  requires it, and the filter drops it.
\<close>

definition go_dep :: "gostring \<Rightarrow> Package" where
  "go_dep v = zero_package\<lparr>pk_Name := ''x'', pk_Version := v, pk_Ecosystem := ''go'', pk_Direct := True\<rparr>"

definition two_modules :: "LockFile list" where
  "two_modules =
     [\<lparr>RelPath = ''a/go.mod'', parsed = Ok [go_dep ''v2'']\<rparr>,
      \<lparr>RelPath = ''a/go.sum'', parsed = Ok [go_dep ''v1'', go_dep ''v2'']\<rparr>,
      \<lparr>RelPath = ''b/go.mod'', parsed = Ok [go_dep ''v1'']\<rparr>]"

lemma filterStaleGoSumVersions_drops_required:
  "(case CollectPackages example_cfg (Ok two_modules) None (\<lambda>_. SBOMInput [] []) of
      Ok c \<Rightarrow> map pk_Version (Packages c) | Err _ \<Rightarrow> []) = [''v2'']"
  by code_simp

lemma bounded_loop_eq:
  "bounded_loop v n es =
     (let xs = filter (\<lambda>e. e \<noteq> []) (map TrimSpace es) in
      (v @ take (MaxUserFacingParseDiagnostics - length v) xs,
       n + (length xs - (MaxUserFacingParseDiagnostics - length v))))"
proof (induction v n es rule: bounded_loop.induct)
  case (2 v n e es)
  then show ?case
    by (cases "TrimSpace e = []"; cases "length v < MaxUserFacingParseDiagnostics")
      (auto simp: Let_def take_Cons' Suc_diff_Suc)
qed simp

text \<open>
  The user-facing diagnostics are the first twenty nonblank parse errors, trimmed, and the
  omitted ones are counted: shown and omitted together are all the nonblank errors.
\<close>

theorem BoundedParseDiagnostics_bounded:
  "fst (BoundedParseDiagnostics es) = take 20 (filter (\<lambda>e. e \<noteq> []) (map TrimSpace es)) \<and>
   length (fst (BoundedParseDiagnostics es)) + snd (BoundedParseDiagnostics es) =
     length (filter (\<lambda>e. e \<noteq> []) (map TrimSpace es))"
  by (cases "es = []")
    (simp_all add: BoundedParseDiagnostics_def bounded_loop_eq Let_def MaxUserFacingParseDiagnostics_def)

end
