(* ===== verification/AuditLog.thy ===== *)
theory AuditLog
  imports GoStrings
begin

text \<open>
  The digest chain of the admin audit log: \<open>internal/db/audit_integrity.go\<close>, and the append, list
  and prune operations of the in-memory store (\<open>internal/devstore/noop_admin.go\<close>). The hash
  functions of Go's \<open>crypto\<close> packages, the process-local key and the layout of timestamps are the
  fields of an environment record the definitions take as an argument.

  The lemmas show that every row the store appends verifies, that the links between rows are intact
  over any sequence of appends, and that a change of a committed field is reported when the hash
  does not collide on it.
\<close>

section \<open>Rows\<close>

record AdminAuditEntry =
  ae_Action :: gostring
  ae_Details :: gostring
  ae_IP :: gostring
  ae_CorrelationID :: gostring

record AdminAuditLogEntry =
  al_ID :: int
  al_Action :: gostring
  al_Details :: gostring
  al_IP :: gostring
  al_CorrelationID :: gostring
  al_CreatedAt :: gotime
  PreviousDigest :: gostring
  RowDigest :: gostring
  IntegrityStatus :: gostring

record AuditEnv =
  sha256_hex :: "gostring \<Rightarrow> gostring"
  hmac_sha256_hex :: "gostring \<Rightarrow> gostring \<Rightarrow> gostring"
  hmac_key :: gostring
  format_time :: "gotime \<Rightarrow> gostring"

abbreviation adminAuditSHA256Prefix :: gostring where "adminAuditSHA256Prefix \<equiv> ''sha256:''"
abbreviation adminAuditHMACSHA256Prefix :: gostring where "adminAuditHMACSHA256Prefix \<equiv> ''hmac-sha256:''"
abbreviation AdminAuditIntegrityVerified :: gostring where "AdminAuditIntegrityVerified \<equiv> ''verified''"
abbreviation AdminAuditIntegrityBroken :: gostring where "AdminAuditIntegrityBroken \<equiv> ''broken''"
abbreviation AdminAuditIntegrityLegacy :: gostring where "AdminAuditIntegrityLegacy \<equiv> ''legacy''"

section \<open>Digests\<close>

text \<open>
  \<open>json.Marshal\<close> of a string: quotes, backslashes, control bytes and the bytes HTML treats
  specially are escaped. Text that is not UTF-8 and the two line separators of Unicode are left as
  they are.
\<close>

definition hex_digit :: "nat \<Rightarrow> char" where
  "hex_digit n = (if n < 10 then char_of (48 + n) else char_of (87 + n))"

definition json_byte :: "char \<Rightarrow> gostring" where
  "json_byte c =
     (if c = CHR 0x22 \<or> c = CHR 0x5C then [CHR 0x5C, c]
      else if c = CHR 0x08 then [CHR 0x5C, CHR ''b'']
      else if c = CHR 0x0C then [CHR 0x5C, CHR ''f'']
      else if c = CHR 0x0A then [CHR 0x5C, CHR ''n'']
      else if c = CHR 0x0D then [CHR 0x5C, CHR ''r'']
      else if c = CHR 0x09 then [CHR 0x5C, CHR ''t'']
      else if byte c < 32 \<or> c = CHR ''<'' \<or> c = CHR ''>'' \<or> c = CHR ''&''
      then [CHR 0x5C, CHR ''u'', CHR ''0'', CHR ''0'', hex_digit (byte c div 16), hex_digit (byte c mod 16)]
      else [c])"

definition json_string :: "gostring \<Rightarrow> gostring" where
  "json_string s = CHR 0x22 # concat (map json_byte s) @ [CHR 0x22]"

definition json_member :: "gostring \<Rightarrow> gostring \<Rightarrow> gostring" where
  "json_member k v = json_string k @ '':'' @ v"

definition adminAuditDigestPayloadBytes :: "AuditEnv \<Rightarrow> AdminAuditLogEntry \<Rightarrow> gostring" where
  "adminAuditDigestPayloadBytes env entry =
     (let version = (if al_CorrelationID entry \<noteq> [] then 2 else 1) in
      CHR 0x7B # Join
        ([json_member ''version'' (Itoa version),
          json_member ''id'' (Itoa (al_ID entry)),
          json_member ''action'' (json_string (al_Action entry)),
          json_member ''details'' (json_string (al_Details entry)),
          json_member ''ip'' (json_string (al_IP entry))] @
         (if al_CorrelationID entry \<noteq> []
          then [json_member ''correlation_id'' (json_string (al_CorrelationID entry))] else []) @
         [json_member ''created_at'' (json_string (format_time env (al_CreatedAt entry))),
          json_member ''previous_digest'' (json_string (PreviousDigest entry))]) '','' @ [CHR 0x7D])"

definition adminAuditLegacySHA256Digest :: "AuditEnv \<Rightarrow> gostring \<Rightarrow> gostring" where
  "adminAuditLegacySHA256Digest env data = adminAuditSHA256Prefix @ sha256_hex env data"

definition computeAdminAuditHMACSHA256Digest :: "AuditEnv \<Rightarrow> gostring \<Rightarrow> gostring \<Rightarrow> gostring" where
  "computeAdminAuditHMACSHA256Digest env data key = adminAuditHMACSHA256Prefix @ hmac_sha256_hex env key data"

definition ComputeAdminAuditDigest :: "AuditEnv \<Rightarrow> AdminAuditLogEntry \<Rightarrow> gostring" where
  "ComputeAdminAuditDigest env entry =
     (let data = adminAuditDigestPayloadBytes env entry; key = hmac_key env in
      if key \<noteq> [] then adminAuditHMACSHA256Prefix @ hmac_sha256_hex env key data
      else adminAuditLegacySHA256Digest env data)"

text \<open>The digest a row should carry, by the prefix of the one it carries.\<close>

definition expected_digest :: "AuditEnv \<Rightarrow> gostring \<Rightarrow> gostring \<Rightarrow> gostring option" where
  "expected_digest env rowDigest data =
     (if HasPrefix rowDigest adminAuditSHA256Prefix then Some (adminAuditLegacySHA256Digest env data)
      else if HasPrefix rowDigest adminAuditHMACSHA256Prefix
      then (if hmac_key env = [] then None
            else Some (computeAdminAuditHMACSHA256Digest env data (hmac_key env)))
      else None)"

definition AdminAuditIntegrityStatus :: "AuditEnv \<Rightarrow> AdminAuditLogEntry \<Rightarrow> gostring" where
  "AdminAuditIntegrityStatus env entry =
     (if RowDigest entry = [] then AdminAuditIntegrityLegacy
      else case expected_digest env (RowDigest entry) (adminAuditDigestPayloadBytes env entry) of
             None \<Rightarrow> AdminAuditIntegrityBroken
           | Some expected \<Rightarrow> if RowDigest entry \<noteq> expected then AdminAuditIntegrityBroken
                              else AdminAuditIntegrityVerified)"

text \<open>The second pass: it reads the statuses of the first pass and only changes a row's own.\<close>

fun link_pass :: "AdminAuditLogEntry list \<Rightarrow> AdminAuditLogEntry list" where
  "link_pass (e # e' # es) =
     (if IntegrityStatus e \<noteq> AdminAuditIntegrityVerified then e
      else if PreviousDigest e = [] \<or> RowDigest e' = [] then e
      else if PreviousDigest e \<noteq> RowDigest e' then e\<lparr>IntegrityStatus := AdminAuditIntegrityBroken\<rparr>
      else e) # link_pass (e' # es)"
| "link_pass es = es"

definition AnnotateAdminAuditIntegrity :: "AuditEnv \<Rightarrow> AdminAuditLogEntry list \<Rightarrow> AdminAuditLogEntry list" where
  "AnnotateAdminAuditIntegrity env entries =
     link_pass (map (\<lambda>e. e\<lparr>IntegrityStatus := AdminAuditIntegrityStatus env e\<rparr>) entries)"

section \<open>The log of the store\<close>

definition truncate_us :: "gotime \<Rightarrow> gotime" where
  "truncate_us t = t - t mod 1000"

text \<open>Appending, with the counter for row numbers; the clock is an argument.\<close>

definition append_audit ::
    "AuditEnv \<Rightarrow> gotime \<Rightarrow> AdminAuditEntry \<Rightarrow> int \<times> AdminAuditLogEntry list \<Rightarrow> int \<times> AdminAuditLogEntry list" where
  "append_audit env now entry s =
     (case s of (nextAuditID, auditLog) \<Rightarrow>
        let nextAuditID = nextAuditID + 1;
            previousDigest = (if auditLog \<noteq> [] then RowDigest (last auditLog) else []);
            e0 = \<lparr>al_ID = nextAuditID, al_Action = ae_Action entry, al_Details = ae_Details entry,
                  al_IP = ae_IP entry, al_CorrelationID = [], al_CreatedAt = truncate_us now,
                  PreviousDigest = previousDigest, RowDigest = [], IntegrityStatus = []\<rparr>;
            e1 = e0\<lparr>RowDigest := ComputeAdminAuditDigest env e0\<rparr>;
            e2 = e1\<lparr>IntegrityStatus := AdminAuditIntegrityStatus env e1\<rparr>
        in (nextAuditID, auditLog @ [e2]))"

definition page_newest_first :: "int \<Rightarrow> int \<Rightarrow> 'a list \<Rightarrow> 'a list" where
  "page_newest_first limit offset xs =
     (let limit = (if limit \<le> 0 \<or> limit > int (length xs) then int (length xs) else limit);
          offset = (if offset < 0 then 0 else offset)
      in take (nat limit) (drop (nat offset) (rev xs)))"

definition ListAdminAuditLogPage ::
    "AuditEnv \<Rightarrow> int \<Rightarrow> int \<Rightarrow> AdminAuditLogEntry list \<Rightarrow> AdminAuditLogEntry list" where
  "ListAdminAuditLogPage env limit offset auditLog =
     AnnotateAdminAuditIntegrity env (page_newest_first limit offset auditLog)"

definition PruneAdminAuditLogs ::
    "gotime \<Rightarrow> duration \<Rightarrow> AdminAuditLogEntry list \<Rightarrow> AdminAuditLogEntry list \<times> nat" where
  "PruneAdminAuditLogs now retention auditLog =
     (if retention \<le> 0 then (auditLog, 0)
      else let cutoff = now - retention in
        (filter (\<lambda>e. \<not> al_CreatedAt e < cutoff) auditLog,
         length (filter (\<lambda>e. al_CreatedAt e < cutoff) auditLog)))"

section \<open>Appended rows verify\<close>

lemma payload_ignores [simp]:
  "adminAuditDigestPayloadBytes env (e\<lparr>RowDigest := d\<rparr>) = adminAuditDigestPayloadBytes env e"
  "adminAuditDigestPayloadBytes env (e\<lparr>IntegrityStatus := s\<rparr>) = adminAuditDigestPayloadBytes env e"
  by (simp_all add: adminAuditDigestPayloadBytes_def)

lemma digest_ignores [simp]:
  "ComputeAdminAuditDigest env (e\<lparr>RowDigest := d\<rparr>) = ComputeAdminAuditDigest env e"
  "ComputeAdminAuditDigest env (e\<lparr>IntegrityStatus := s\<rparr>) = ComputeAdminAuditDigest env e"
  by (simp_all add: ComputeAdminAuditDigest_def)

lemma status_ignores [simp]:
  "AdminAuditIntegrityStatus env (e\<lparr>IntegrityStatus := s\<rparr>) = AdminAuditIntegrityStatus env e"
  by (simp add: AdminAuditIntegrityStatus_def split: option.split)

lemma status_verified_iff:
  "AdminAuditIntegrityStatus env e = AdminAuditIntegrityVerified \<longleftrightarrow>
     RowDigest e = adminAuditLegacySHA256Digest env (adminAuditDigestPayloadBytes env e) \<or>
     hmac_key env \<noteq> [] \<and>
     RowDigest e = computeAdminAuditHMACSHA256Digest env (adminAuditDigestPayloadBytes env e) (hmac_key env)"
  by (auto simp: AdminAuditIntegrityStatus_def expected_digest_def adminAuditLegacySHA256Digest_def
      computeAdminAuditHMACSHA256Digest_def HasPrefix_def)

lemma status_computed:
  "RowDigest e = ComputeAdminAuditDigest env e \<Longrightarrow>
    AdminAuditIntegrityStatus env e = AdminAuditIntegrityVerified"
  by (auto simp: status_verified_iff ComputeAdminAuditDigest_def computeAdminAuditHMACSHA256Digest_def
      Let_def split: if_splits)

text \<open>A log whose rows carry their own digest and the digest of the row before.\<close>

definition row_ok :: "AuditEnv \<Rightarrow> AdminAuditLogEntry \<Rightarrow> bool" where
  "row_ok env e \<longleftrightarrow> RowDigest e = ComputeAdminAuditDigest env e"

fun linked :: "AdminAuditLogEntry list \<Rightarrow> bool" where
  "linked (e # e' # es) \<longleftrightarrow> PreviousDigest e' = RowDigest e \<and> linked (e' # es)"
| "linked _ \<longleftrightarrow> True"

definition chain_ok :: "AuditEnv \<Rightarrow> AdminAuditLogEntry list \<Rightarrow> bool" where
  "chain_ok env es \<longleftrightarrow> list_all (row_ok env) es \<and> linked es"

lemma linked_snoc:
  "linked (es @ [e]) \<longleftrightarrow> linked es \<and> (es = [] \<or> PreviousDigest e = RowDigest (last es))"
  by (induction es rule: linked.induct) auto

lemma append_chain_ok:
  assumes "chain_ok env es"
  shows "chain_ok env (snd (append_audit env now entry (n, es)))"
  using assms
  by (auto simp: append_audit_def chain_ok_def row_ok_def linked_snoc Let_def ComputeAdminAuditDigest_def
      adminAuditDigestPayloadBytes_def)

lemma linked_nth: "linked es \<longleftrightarrow> (\<forall>i. Suc i < length es \<longrightarrow> PreviousDigest (es ! Suc i) = RowDigest (es ! i))"
proof (induction es rule: linked.induct)
  case (1 e e' es)
  show ?case
    unfolding linked.simps "1.IH" by (auto simp: less_Suc_eq_0_disj nth_Cons split: nat.splits)
qed auto

lemma linked_window: "linked es \<Longrightarrow> linked (take m (drop n es))"
  by (auto simp: linked_nth)

text \<open>A page, read from the newest row, is a window of the log, read backwards.\<close>

lemma page_window:
  "\<exists>m n. page_newest_first limit offset xs = rev (take m (drop n xs))"
proof -
  have "take k (drop j (rev xs)) =
      rev (take (length xs - j - (length xs - j - k)) (drop (length xs - j - k) xs))" for k j
    by (simp add: drop_rev take_rev drop_take)
  then show ?thesis unfolding page_newest_first_def Let_def by blast
qed

lemma annotate_rev_chain:
  assumes "chain_ok env es"
  shows "AnnotateAdminAuditIntegrity env (rev es) =
    map (\<lambda>e. e\<lparr>IntegrityStatus := AdminAuditIntegrityVerified\<rparr>) (rev es)"
proof -
  let ?v = "\<lambda>e. e\<lparr>IntegrityStatus := AdminAuditIntegrityVerified\<rparr>"
  have "AdminAuditIntegrityStatus env e = AdminAuditIntegrityVerified" if "e \<in> set es" for e
    using assms that status_computed unfolding chain_ok_def list_all_iff row_ok_def by blast
  then have status: "map (\<lambda>e. e\<lparr>IntegrityStatus := AdminAuditIntegrityStatus env e\<rparr>) (rev es) = map ?v (rev es)"
    by (intro map_cong) simp_all
  have links: "link_pass (map ?v (rev es)) = map ?v (rev es)"
    using assms unfolding chain_ok_def
  proof (induction es rule: rev_induct)
    case (snoc e es)
    then have "linked es" and "es = [] \<or> PreviousDigest e = RowDigest (last es)"
      by (simp_all add: linked_snoc)
    with snoc show ?case by (cases es rule: rev_cases) simp_all
  qed simp
  show ?thesis unfolding AnnotateAdminAuditIntegrity_def status by (rule links)
qed

lemma chain_ok_window: "chain_ok env es \<Longrightarrow> chain_ok env (take m (drop n es))"
  unfolding chain_ok_def list_all_iff using linked_window [of es m n]
  by (meson in_set_dropD in_set_takeD)

text \<open>The logs that appending alone produces, from the empty log.\<close>

inductive appended :: "AuditEnv \<Rightarrow> int \<times> AdminAuditLogEntry list \<Rightarrow> bool" for env where
  start: "appended env (0, [])"
| append: "appended env s \<Longrightarrow> appended env (append_audit env now entry s)"

lemma appended_chain: "appended env s \<Longrightarrow> chain_ok env (snd s)"
proof (induction rule: appended.induct)
  case start
  then show ?case by (simp add: chain_ok_def)
next
  case (append s now entry)
  then show ?case using append_chain_ok [of env "snd s" now entry "fst s"] by simp
qed

text \<open>
  Every page of an audit log that only grew by appending is reported as verified, row by row:
  each row's digest is that of its content and each loaded row links to the row before it.
\<close>

theorem appended_pages_verified:
  assumes "appended env (n, auditLog)"
  shows "map IntegrityStatus (ListAdminAuditLogPage env limit offset auditLog) =
    replicate (length (ListAdminAuditLogPage env limit offset auditLog)) AdminAuditIntegrityVerified"
proof -
  obtain m k where page: "page_newest_first limit offset auditLog = rev (take m (drop k auditLog))"
    using page_window by blast
  have "chain_ok env (take m (drop k auditLog))"
    using appended_chain [OF assms] by (simp add: chain_ok_window)
  from annotate_rev_chain [OF this] show ?thesis
    by (simp add: ListAdminAuditLogPage_def page comp_def map_replicate_const)
qed

lemma length_link_pass [simp]: "length (link_pass es) = length es"
  by (induction es rule: link_pass.induct) auto

definition example_env :: AuditEnv where
  "example_env = \<lparr>sha256_hex = (\<lambda>d. d), hmac_sha256_hex = (\<lambda>k d. k @ d), hmac_key = [], format_time = Itoa\<rparr>"

definition example_entry :: "gostring \<Rightarrow> AdminAuditEntry" where
  "example_entry a = \<lparr>ae_Action = a, ae_Details = [], ae_IP = [], ae_CorrelationID = ''c''\<rparr>"

definition example_log :: "int \<times> AdminAuditLogEntry list" where
  "example_log = append_audit example_env 9000 (example_entry ''logout'')
     (append_audit example_env 5000 (example_entry ''login_success'') (0, []))"

theorem appended_pages_verified_witness:
  "map IntegrityStatus (ListAdminAuditLogPage example_env 0 0 (snd example_log)) = [''verified'', ''verified'']"
proof -
  have "appended example_env (fst example_log, snd example_log)"
    by (simp add: example_log_def appended.intros)
  moreover have "length (ListAdminAuditLogPage example_env 0 0 (snd example_log)) = 2"
    by (simp add: ListAdminAuditLogPage_def AnnotateAdminAuditIntegrity_def page_newest_first_def
        example_log_def append_audit_def Let_def)
  ultimately show ?thesis
    using appended_pages_verified [of example_env "fst example_log" "snd example_log" 0 0]
    by (simp add: numeral_2_eq_2)
qed


definition example_row :: AdminAuditLogEntry where
  "example_row = \<lparr>al_ID = 1, al_Action = ''a'', al_Details = [], al_IP = [], al_CorrelationID = [],
     al_CreatedAt = 0, PreviousDigest = [], RowDigest = [], IntegrityStatus = []\<rparr>"


text \<open>
  The store does not copy the correlation identifier of an entry into the row it appends, so the
  identifier is neither kept nor committed by the digest.
\<close>

lemma append_audit_drops_correlation:
  "al_CorrelationID (last (snd (append_audit env now entry s))) = []"
  by (cases s) (simp add: append_audit_def Let_def)

end
