(* ===== verification/DevStore.thy ===== *)
theory DevStore
  imports AuditLog GoJson "HOL-Library.AList" "HOL-Library.Word"
begin

text \<open>
  The state of the in-memory store, \<open>internal/devstore/noop.go\<close>, with the row types of
  \<open>internal/db/db.go\<close>, and what every group of its operations needs: the audit row an audited
  operation writes and the details it puts into the row. The operations follow in one theory per
  source file.

  A Go map from strings is an association list without repeated keys, written with the library's
  \<open>AList.update\<close> and \<open>AList.delete\<close>; Go iterates over a map in no fixed order, the model in the
  order of the list, and what the program returns from such a loop is sorted or counted. Cloning a
  row is the identity on values. A nil pointer is \<open>None\<close>, a nil byte slice the empty string. The
  mutex makes every operation one step: a function from the state to an outcome and the next
  state, with the clock as an argument.
\<close>

section \<open>Rows\<close>

type_synonym float64 = "64 word"

record VulnerabilitySource =
  vs_Source :: gostring
  vs_SourceID :: gostring
  vs_URL :: gostring
  vs_RawJSON :: gostring

record VulnerabilityReference =
  vr_Type :: gostring
  vr_URL :: gostring
  vr_Source :: gostring

record AffectedPackage =
  ap_Ecosystem :: gostring
  ap_Name :: gostring
  ap_VersionRanges :: gostring
  ap_VersionsAffected :: gostring

record Vulnerability =
  v_ID :: gostring
  v_Summary :: gostring
  v_Details :: gostring
  v_Severity :: gostring
  v_CVSSScore :: "float64 option"
  v_EPSSScore :: "float64 option"
  v_EPSSPercentile :: "float64 option"
  v_CISAKEV :: bool
  v_ExploitExists :: bool
  v_Published :: gotime
  v_Modified :: gotime
  v_Withdrawn :: "gotime option"
  v_Aliases :: "gostring list"
  v_Sources :: "VulnerabilitySource list"
  v_References :: "VulnerabilityReference list"
  v_AffectedPackages :: "AffectedPackage list"

record MaliciousFinding =
  mf_ID :: gostring
  mf_Ecosystem :: gostring
  mf_Name :: gostring
  mf_VersionRanges :: gostring
  mf_Versions :: gostring
  mf_Source :: gostring
  mf_RiskType :: gostring
  mf_Severity :: gostring
  mf_Summary :: gostring
  mf_Description :: gostring
  mf_ReferenceURLs :: gostring
  mf_OriginRef :: gostring
  mf_Published :: "gotime option"
  mf_CreatedBy :: gostring

record SyncMalicious =
  sm_ID :: gostring
  sm_Ecosystem :: gostring
  sm_Name :: gostring
  sm_VersionRanges :: gostring
  sm_Versions :: gostring
  sm_ReferenceURLs :: gostring
  sm_RiskType :: gostring
  sm_Severity :: gostring
  sm_Summary :: gostring
  sm_Source :: gostring
  sm_Withdrawn :: bool

record FeedSyncStatus =
  fs_FeedName :: gostring
  fs_LastSyncAt :: "gotime option"
  fs_LastSyncDuration :: "duration option"
  fs_LastSyncStatus :: gostring
  fs_LastError :: gostring
  fs_EntriesSynced :: int
  fs_EntriesTotal :: int
  fs_LastETag :: gostring
  fs_LastCommitHash :: gostring
  fs_Metadata :: gostring
  fs_UpdatedAt :: gotime

record FeedConfig =
  fc_FeedName :: gostring
  fc_Enabled :: bool
  fc_Mode :: gostring
  fc_SyncInterval :: "duration option"
  fc_APIKey :: gostring
  fc_APIKeyEncrypted :: bool
  fc_UpdatedAt :: gotime
  fc_ExpectedUpdatedAt :: "gotime option"

record SystemSettings =
  ss_BlockThreshold :: gostring
  ss_RateLimitPerMinute :: int
  ss_RateLimitBurst :: int
  ss_ScanLogRetention :: duration
  ss_AdminAuditRetention :: duration
  ss_UpdatedAt :: gotime
  ss_ExpectedUpdatedAt :: "gotime option"

record RefreshJob =
  rj_ID :: int
  rj_Ecosystem :: gostring
  rj_Name :: gostring
  rj_Source :: gostring
  rj_Priority :: int
  rj_Status :: gostring
  rj_RequestedAt :: gotime
  rj_ProcessedAt :: "gotime option"
  rj_Error :: gostring

record PackageCheckStatus =
  cs_Ecosystem :: gostring
  cs_Name :: gostring
  cs_Source :: gostring
  cs_LastCheckedAt :: "gotime option"
  cs_NextCheckAt :: "gotime option"
  cs_CheckCount :: int
  cs_LastResult :: gostring

record ScanLogEntry =
  sl_ScanID :: gostring
  sl_RepoName :: gostring
  sl_ScannedAt :: gotime
  sl_PackagesCount :: int
  sl_FindingsCount :: int
  sl_DurationMs :: int
  sl_ClientIP :: gostring
  sl_ClientVersion :: gostring
  sl_APIKeyID :: int
  sl_APIKeyName :: gostring
  sl_CorrelationID :: gostring
  sl_IdempotencyKey :: gostring
  sl_RequestDigest :: gostring
  sl_ResultDigest :: gostring
  sl_FindingsBlocking :: bool
  sl_BlockThreshold :: gostring
  sl_FeedStatus :: gostring
  sl_FeedVersions :: "(gostring \<times> gostring) list"
  sl_FindingIDs :: "gostring list"
  sl_FindingSeverities :: "gostring list"
  sl_ManualAdvisoriesCount :: int

record APIKey =
  ak_ID :: int
  ak_Name :: gostring
  ak_KeyHash :: gostring
  ak_CreatedAt :: gotime
  ak_RevokedAt :: "gotime option"
  ak_LastUsedAt :: "gotime option"
  ak_ExpiresAt :: "gotime option"
  ak_DeletedAt :: "gotime option"

record AdminAuth =
  aa_PasswordHash :: gostring
  aa_PasswordIsBootstrap :: bool
  aa_CreatedAt :: gotime
  aa_PasswordChangedAt :: "gotime option"
  aa_LastLoginAt :: "gotime option"

section \<open>The store\<close>

record Store =
  adminAuth :: "AdminAuth option"
  apiKeys :: "APIKey list"
  auditLog :: "AdminAuditLogEntry list"
  feedConfigs :: "(gostring \<times> FeedConfig) list"
  feedStatuses :: "(gostring \<times> FeedSyncStatus) list"
  systemConfig :: "SystemSettings option"
  vulnerable :: "(gostring \<times> Vulnerability) list"
  malicious :: "(gostring \<times> MaliciousFinding) list"
  maliciousDel :: "(gostring \<times> SyncMalicious) list"
  checkStatuses :: "(gostring \<times> PackageCheckStatus) list"
  scanLogs :: "ScanLogEntry list"
  refreshJobs :: "RefreshJob list"
  nextAPIKeyID :: int
  nextAuditID :: int
  nextManualID :: int
  nextJobID :: int

definition NewStore :: Store where
  "NewStore = \<lparr>adminAuth = None, apiKeys = [], auditLog = [], feedConfigs = [], feedStatuses = [],
     systemConfig = None, vulnerable = [], malicious = [], maliciousDel = [], checkStatuses = [],
     scanLogs = [], refreshJobs = [], nextAPIKeyID = 0, nextAuditID = 0, nextManualID = 0, nextJobID = 0\<rparr>"

text \<open>
  The errors the operations return: the sentinel errors of the package and the formatted ones.
\<close>

datatype StoreError =
    ErrConflict
  | ErrAdminAuthConflict
  | ErrSourceScopedDeleteSourceRequired gostring
  | ErrAdminAuditLog gostring
  | ErrJSON json_error
  | Errorf gostring

type_synonym 'a outcome = "(StoreError, 'a) result \<times> Store"

text \<open>
  What the operations take from elsewhere: the environment of the audit digests, the redaction of
  diagnostics (\<open>logsafe.BoundedDiagnosticValue\<close>) and the layout \<open>time.RFC3339Nano\<close>.
\<close>

record DevEnv =
  audit_env :: AuditEnv
  BoundedDiagnosticValue :: "gostring \<Rightarrow> int \<Rightarrow> gostring"
  format_rfc3339nano :: "gotime \<Rightarrow> gostring"

text \<open>An environment for examples.\<close>

definition example_devenv :: DevEnv where
  "example_devenv = \<lparr>audit_env = example_env, BoundedDiagnosticValue = (\<lambda>s n. take (nat n) s),
     format_rfc3339nano = Itoa\<rparr>"

section \<open>Audit rows\<close>

text \<open>
  Appending a row always succeeds (the Go function returns nil on every path), so the error
  branches of its callers are dead and left out. A login also stamps the credentials.
\<close>

definition insertAdminAuditLogLocked :: "DevEnv \<Rightarrow> gotime \<Rightarrow> AdminAuditEntry option \<Rightarrow> Store \<Rightarrow> Store" where
  "insertAdminAuditLogLocked env now entry st =
     (case entry of
        None \<Rightarrow> st
      | Some e \<Rightarrow>
          (case append_audit (audit_env env) now e (nextAuditID st, auditLog st) of
             (nextID, rows) \<Rightarrow>
               let st = st\<lparr>nextAuditID := nextID, auditLog := rows\<rparr> in
               if ae_Action e = ''login_success''
               then st\<lparr>adminAuth := map_option (\<lambda>a. a\<lparr>aa_LastLoginAt := Some (truncate_us now)\<rparr>) (adminAuth st)\<rparr>
               else st))"

text \<open>\<open>map[string]string\<close> decoded from JSON and encoded with sorted keys.\<close>

definition decode_string_map :: "json \<Rightarrow> (json_error, (gostring \<times> gostring) list) result" where
  "decode_string_map j = (case j of
     JNull \<Rightarrow> Ok []
   | JObj kvs \<Rightarrow> fold_result (\<lambda>(k, v) m. case decode_string [] v of Err e \<Rightarrow> Err e | Ok s \<Rightarrow> Ok (AList.update k s m)) kvs []
   | _ \<Rightarrow> Err UnmarshalTypeError)"

definition marshal_string_map :: "(gostring \<times> gostring) list \<Rightarrow> gostring" where
  "marshal_string_map m =
     CHR 0x7B # Join (map (\<lambda>(k, v). json_member k (json_string v)) (sort_key fst m)) '','' @ [CHR 0x7D]"

definition SetAdminAuditDetail ::
    "AdminAuditEntry option \<Rightarrow> gostring \<Rightarrow> gostring \<Rightarrow> (json_error, AdminAuditEntry option) result" where
  "SetAdminAuditDetail entry key value =
     (case entry of
        None \<Rightarrow> Ok None
      | Some e \<Rightarrow>
          (case (if ae_Details e \<noteq> [] then Unmarshal decode_string_map (ae_Details e) else Ok []) of
             Err err \<Rightarrow> Err err
           | Ok details \<Rightarrow> Ok (Some (e\<lparr>ae_Details := marshal_string_map (AList.update key value details)\<rparr>))))"

definition marshal_queue_job :: "DevEnv \<Rightarrow> RefreshJob \<Rightarrow> gostring" where
  "marshal_queue_job env job =
     CHR 0x7B # Join
       ([json_member ''id'' (Itoa (rj_ID job)),
         json_member ''ecosystem'' (json_string (rj_Ecosystem job)),
         json_member ''name'' (json_string (rj_Name job)),
         json_member ''source'' (json_string (rj_Source job)),
         json_member ''priority'' (Itoa (rj_Priority job)),
         json_member ''status'' (json_string (rj_Status job))] @
        (if IsZero (rj_RequestedAt job) \<or> format_rfc3339nano env (rj_RequestedAt job) = [] then []
         else [json_member ''requested_at'' (json_string (format_rfc3339nano env (rj_RequestedAt job)))]) @
        (case rj_ProcessedAt job of
           None \<Rightarrow> []
         | Some t \<Rightarrow> if IsZero t \<or> format_rfc3339nano env t = [] then []
                    else [json_member ''processed_at'' (json_string (format_rfc3339nano env t))]) @
        [json_member ''error'' (json_string (BoundedDiagnosticValue env (rj_Error job) 512))]) '','' @ [CHR 0x7D]"

definition SetAdminAuditQueueJobsDetail ::
    "DevEnv \<Rightarrow> AdminAuditEntry option \<Rightarrow> gostring \<Rightarrow> RefreshJob list \<Rightarrow> (json_error, AdminAuditEntry option) result" where
  "SetAdminAuditQueueJobsDetail env entry key jobs =
     SetAdminAuditDetail entry key (''['' @ Join (map (marshal_queue_job env) jobs) '','' @ '']'')"

section \<open>Facts on audit rows\<close>

text \<open>An audit row touches only the log, its counter and the login stamp.\<close>

lemma insertAdminAuditLogLocked_frame [simp]:
  "apiKeys (insertAdminAuditLogLocked env now a st) = apiKeys st"
  "feedConfigs (insertAdminAuditLogLocked env now a st) = feedConfigs st"
  "feedStatuses (insertAdminAuditLogLocked env now a st) = feedStatuses st"
  "systemConfig (insertAdminAuditLogLocked env now a st) = systemConfig st"
  "vulnerable (insertAdminAuditLogLocked env now a st) = vulnerable st"
  "malicious (insertAdminAuditLogLocked env now a st) = malicious st"
  "maliciousDel (insertAdminAuditLogLocked env now a st) = maliciousDel st"
  "checkStatuses (insertAdminAuditLogLocked env now a st) = checkStatuses st"
  "scanLogs (insertAdminAuditLogLocked env now a st) = scanLogs st"
  "refreshJobs (insertAdminAuditLogLocked env now a st) = refreshJobs st"
  "nextAPIKeyID (insertAdminAuditLogLocked env now a st) = nextAPIKeyID st"
  "nextManualID (insertAdminAuditLogLocked env now a st) = nextManualID st"
  "nextJobID (insertAdminAuditLogLocked env now a st) = nextJobID st"
  by (auto simp: insertAdminAuditLogLocked_def Let_def split: option.splits prod.splits)

lemma insertAdminAuditLogLocked_None [simp]: "insertAdminAuditLogLocked env now None st = st"
  by (simp add: insertAdminAuditLogLocked_def)

lemma insertAdminAuditLogLocked_Some:
  "(nextAuditID (insertAdminAuditLogLocked env now (Some e) st), auditLog (insertAdminAuditLogLocked env now (Some e) st)) =
     append_audit (audit_env env) now e (nextAuditID st, auditLog st)"
  by (auto simp: insertAdminAuditLogLocked_def Let_def split: prod.splits)

lemma insertAdminAuditLogLocked_grows:
  "\<exists>row. auditLog (insertAdminAuditLogLocked env now (Some e) st) = auditLog st @ [row] \<and> al_Action row = ae_Action e"
  using insertAdminAuditLogLocked_Some [of env now e st]
  by (auto simp: append_audit_def Let_def)

lemma insertAdminAuditLogLocked_keeps_auth:
  "map_option aa_PasswordHash (adminAuth (insertAdminAuditLogLocked env now a st)) = map_option aa_PasswordHash (adminAuth st)"
  by (auto simp: insertAdminAuditLogLocked_def Let_def option.map_comp comp_def split: option.splits prod.splits)

text \<open>The log an only audited store has is the log of appended rows.\<close>

lemma insertAdminAuditLogLocked_appended:
  assumes "appended (audit_env env) (nextAuditID st, auditLog st)"
  shows "appended (audit_env env)
    (nextAuditID (insertAdminAuditLogLocked env now a st), auditLog (insertAdminAuditLogLocked env now a st))"
proof (cases a)
  case (Some e)
  with assms show ?thesis
    using appended.intros by (simp only: insertAdminAuditLogLocked_Some)
qed (use assms in simp)

text \<open>Setting a detail keeps the action of the entry.\<close>

lemma SetAdminAuditDetail_action:
  "SetAdminAuditDetail entry k v = Ok entry' \<Longrightarrow> map_option ae_Action entry' = map_option ae_Action entry"
  by (auto simp: SetAdminAuditDetail_def split: option.splits sum.splits if_splits)

end
