(* ===== verification/RefreshQueue.thy ===== *)
theory RefreshQueue
  imports DevStore
begin

text \<open>
  The refresh queue: its statuses (\<open>internal/db/refresh_status.go\<close>) and the operations of the store
  on jobs and package check statuses (\<open>internal/devstore/noop_refresh_queue.go\<close>), the audited ones
  included. Workers claim jobs by priority and age, a claim is the instant it was made at, and
  administrators reprioritise, retry, pause, resume, purge and clear.

  The lemmas show the order in which jobs are claimed, that a run of claims drains the queue, that a
  stale claim completes nothing, what positions mean, which invariants hold over every sequence of
  operations, and that an audited operation does what the plain one does and writes one row.
\<close>

section \<open>Statuses\<close>

abbreviation RefreshStatusPending :: gostring where "RefreshStatusPending \<equiv> ''pending''"
abbreviation RefreshStatusProcessing :: gostring where "RefreshStatusProcessing \<equiv> ''processing''"
abbreviation RefreshStatusPaused :: gostring where "RefreshStatusPaused \<equiv> ''paused''"
abbreviation RefreshStatusDone :: gostring where "RefreshStatusDone \<equiv> ''done''"
abbreviation RefreshStatusError :: gostring where "RefreshStatusError \<equiv> ''error''"

definition refreshStatuses :: "gostring list" where
  "refreshStatuses = [RefreshStatusPending, RefreshStatusProcessing, RefreshStatusPaused,
     RefreshStatusDone, RefreshStatusError]"

definition terminalRefreshStatuses :: "gostring list" where
  "terminalRefreshStatuses = [RefreshStatusDone, RefreshStatusError]"

definition NormalizeRefreshStatus :: "gostring \<Rightarrow> gostring option" where
  "NormalizeRefreshStatus raw =
     (let status = ToLower (TrimSpace raw) in if status \<in> set refreshStatuses then Some status else None)"

definition IsActiveRefreshStatus :: "gostring \<Rightarrow> bool" where
  "IsActiveRefreshStatus status = (case NormalizeRefreshStatus status of
     None \<Rightarrow> False
   | Some s \<Rightarrow> s = RefreshStatusPending \<or> s = RefreshStatusProcessing \<or> s = RefreshStatusPaused)"

definition IsDrainableRefreshStatus :: "gostring \<Rightarrow> bool" where
  "IsDrainableRefreshStatus status = (case NormalizeRefreshStatus status of
     None \<Rightarrow> False
   | Some s \<Rightarrow> s = RefreshStatusPending \<or> s = RefreshStatusProcessing)"

definition IsTerminalRefreshStatus :: "gostring \<Rightarrow> bool" where
  "IsTerminalRefreshStatus status = (case NormalizeRefreshStatus status of
     None \<Rightarrow> False
   | Some s \<Rightarrow> s = RefreshStatusDone \<or> s = RefreshStatusError)"

definition CanClearRefreshStatus :: "gostring \<Rightarrow> bool" where
  "CanClearRefreshStatus status = (case NormalizeRefreshStatus status of
     None \<Rightarrow> False
   | Some s \<Rightarrow> s = RefreshStatusPending \<or> s = RefreshStatusPaused \<or> IsTerminalRefreshStatus s)"

definition CanRetryRefreshStatus :: "gostring \<Rightarrow> bool" where
  "CanRetryRefreshStatus status = (case NormalizeRefreshStatus status of
     None \<Rightarrow> False
   | Some s \<Rightarrow> s = RefreshStatusDone \<or> s = RefreshStatusError \<or> s = RefreshStatusPaused)"

fun clearable_loop :: "gostring list \<Rightarrow> gostring list \<Rightarrow> gostring list" where
  "clearable_loop out [] = out"
| "clearable_loop out (raw # rest) =
     (case NormalizeRefreshStatus raw of
        None \<Rightarrow> clearable_loop out rest
      | Some status \<Rightarrow>
          if \<not> CanClearRefreshStatus status then clearable_loop out rest
          else if status \<in> set out then clearable_loop out rest
          else clearable_loop (out @ [status]) rest)"

definition NormalizeClearableRefreshStatuses :: "gostring list \<Rightarrow> gostring list" where
  "NormalizeClearableRefreshStatuses statuses = clearable_loop [] statuses"

section \<open>Positions\<close>

definition noopRefreshJobBefore :: "RefreshJob \<Rightarrow> RefreshJob \<Rightarrow> bool" where
  "noopRefreshJobBefore a b =
     (if rj_Priority a \<noteq> rj_Priority b then rj_Priority a < rj_Priority b
      else if rj_RequestedAt a \<noteq> rj_RequestedAt b then rj_RequestedAt a < rj_RequestedAt b
      else rj_ID a < rj_ID b)"

definition queuePositionLocked :: "int \<Rightarrow> RefreshJob list \<Rightarrow> int" where
  "queuePositionLocked jobID jobs =
     (case find (\<lambda>j. rj_ID j = jobID) jobs of
        None \<Rightarrow> 0
      | Some target \<Rightarrow>
          if \<not> IsDrainableRefreshStatus (rj_Status target) then 0
          else 1 + int (length (filter (\<lambda>job.
            \<not> (\<not> IsDrainableRefreshStatus (rj_Status job) \<or> rj_Source job \<noteq> rj_Source target \<or>
               rj_ID job = rj_ID target) \<and>
            noopRefreshJobBefore job target) jobs)))"

section \<open>Enqueueing\<close>

definition same_active :: "RefreshJob \<Rightarrow> RefreshJob \<Rightarrow> bool" where
  "same_active job existing \<longleftrightarrow>
     rj_Ecosystem existing = rj_Ecosystem job \<and> rj_Name existing = rj_Name job \<and>
     rj_Source existing = rj_Source job \<and> IsActiveRefreshStatus (rj_Status existing)"

definition raise_priority :: "int \<Rightarrow> RefreshJob \<Rightarrow> RefreshJob" where
  "raise_priority p existing = (if p < rj_Priority existing then existing\<lparr>rj_Priority := p\<rparr> else existing)"

definition enqueue_status :: "gostring \<Rightarrow> gostring" where
  "enqueue_status status =
     (if status = [] then RefreshStatusPending
      else case NormalizeRefreshStatus status of Some s \<Rightarrow> s | None \<Rightarrow> RefreshStatusPending)"

definition enqueueRefreshLocked :: "gotime \<Rightarrow> RefreshJob \<Rightarrow> Store \<Rightarrow> (bool \<times> int) outcome" where
  "enqueueRefreshLocked now job st =
     (case find (same_active job) (refreshJobs st) of
        Some existing \<Rightarrow>
          (let jobs = update_first (same_active job) (raise_priority (rj_Priority job)) (refreshJobs st) in
           (Ok (False, queuePositionLocked (rj_ID existing) jobs), st\<lparr>refreshJobs := jobs\<rparr>))
      | None \<Rightarrow>
          (let nextID = nextJobID st + 1;
               new = job\<lparr>rj_ID := nextID, rj_RequestedAt := now, rj_Status := enqueue_status (rj_Status job)\<rparr>;
               jobs = refreshJobs st @ [new]
           in (Ok (True, queuePositionLocked nextID jobs), st\<lparr>nextJobID := nextID, refreshJobs := jobs\<rparr>)))"

definition EnqueueRefresh :: "gotime \<Rightarrow> RefreshJob \<Rightarrow> Store \<Rightarrow> (bool \<times> int) outcome" where
  "EnqueueRefresh now job st = enqueueRefreshLocked now job st"

definition EnqueueRefreshWithAudit ::
    "DevEnv \<Rightarrow> gotime \<Rightarrow> RefreshJob \<Rightarrow> (bool \<Rightarrow> int \<Rightarrow> AdminAuditEntry) option \<Rightarrow> Store \<Rightarrow> (bool \<times> int) outcome" where
  "EnqueueRefreshWithAudit env now job audit st =
     (case enqueueRefreshLocked now job st of
        (Err e, st') \<Rightarrow> (Err e, st')
      | (Ok (created, position), st') \<Rightarrow>
          (case audit of
             None \<Rightarrow> (Ok (created, position), st')
           | Some build \<Rightarrow>
               (Ok (created, position), insertAdminAuditLogLocked env now (Some (build created position)) st')))"

section \<open>Claiming and completing\<close>

definition claimable :: "gostring \<Rightarrow> RefreshJob \<Rightarrow> bool" where
  "claimable source job \<longleftrightarrow>
     \<not> (rj_Status job \<noteq> RefreshStatusPending) \<and> \<not> (source \<noteq> [] \<and> rj_Source job \<noteq> source)"

definition better_claim :: "RefreshJob \<Rightarrow> RefreshJob \<Rightarrow> bool" where
  "better_claim job best \<longleftrightarrow> rj_Priority job < rj_Priority best \<or>
     (rj_Priority job = rj_Priority best \<and> rj_RequestedAt job < rj_RequestedAt best)"

fun bestIndex_loop :: "gostring \<Rightarrow> RefreshJob list \<Rightarrow> nat \<Rightarrow> nat option \<Rightarrow> RefreshJob list \<Rightarrow> nat option" where
  "bestIndex_loop source jobs i best [] = best"
| "bestIndex_loop source jobs i best (job # rest) =
     bestIndex_loop source jobs (i + 1)
       (if \<not> claimable source job then best
        else case best of
               None \<Rightarrow> Some i
             | Some b \<Rightarrow> if better_claim job (jobs ! b) then Some i else best) rest"

definition DequeueRefresh :: "gotime \<Rightarrow> gostring \<Rightarrow> Store \<Rightarrow> RefreshJob option outcome" where
  "DequeueRefresh now source st =
     (case bestIndex_loop source (refreshJobs st) 0 None (refreshJobs st) of
        None \<Rightarrow> (Ok None, st)
      | Some i \<Rightarrow>
          (let job = (refreshJobs st ! i)\<lparr>rj_Status := RefreshStatusProcessing, rj_ProcessedAt := Some now\<rparr> in
           (Ok (Some job), st\<lparr>refreshJobs := (refreshJobs st)[i := job]\<rparr>)))"

definition completeRefreshJob :: "DevEnv \<Rightarrow> gotime \<Rightarrow> gostring option \<Rightarrow> RefreshJob \<Rightarrow> RefreshJob" where
  "completeRefreshJob env now jobErr job =
     (case jobErr of
        Some e \<Rightarrow> job\<lparr>rj_ProcessedAt := Some now, rj_Status := RefreshStatusError,
                     rj_Error := BoundedDiagnosticValue env e 512\<rparr>
      | None \<Rightarrow> job\<lparr>rj_ProcessedAt := Some now, rj_Status := RefreshStatusDone, rj_Error := []\<rparr>)"

definition CompleteRefresh :: "DevEnv \<Rightarrow> gotime \<Rightarrow> int \<Rightarrow> gostring option \<Rightarrow> Store \<Rightarrow> unit outcome" where
  "CompleteRefresh env now jobID jobErr st =
     (Ok (), st\<lparr>refreshJobs := update_first (\<lambda>j. rj_ID j = jobID) (completeRefreshJob env now jobErr) (refreshJobs st)\<rparr>)"

definition complete_claimed :: "DevEnv \<Rightarrow> gotime \<Rightarrow> gotime \<Rightarrow> gostring option \<Rightarrow> RefreshJob \<Rightarrow> RefreshJob" where
  "complete_claimed env now claimedAt jobErr job =
     (if rj_Status job \<noteq> RefreshStatusProcessing \<or> rj_ProcessedAt job = None \<or>
         the (rj_ProcessedAt job) \<noteq> claimedAt then job
      else completeRefreshJob env now jobErr job)"

definition CompleteClaimedRefresh ::
    "DevEnv \<Rightarrow> gotime \<Rightarrow> int \<Rightarrow> gotime option \<Rightarrow> gostring option \<Rightarrow> Store \<Rightarrow> unit outcome" where
  "CompleteClaimedRefresh env now jobID claimedAt jobErr st =
     (case claimedAt of
        None \<Rightarrow> (Err (Errorf (''queue job '' @ Itoa jobID @ '' missing claim timestamp'')), st)
      | Some t \<Rightarrow>
          (Ok (), st\<lparr>refreshJobs :=
             update_first (\<lambda>j. rj_ID j = jobID) (complete_claimed env now t jobErr) (refreshJobs st)\<rparr>))"

definition is_stuck :: "gotime \<Rightarrow> gostring \<Rightarrow> duration \<Rightarrow> RefreshJob \<Rightarrow> bool" where
  "is_stuck now source stuckThreshold job \<longleftrightarrow>
     \<not> (rj_Status job \<noteq> RefreshStatusProcessing \<or> rj_ProcessedAt job = None) \<and>
     \<not> (source \<noteq> [] \<and> rj_Source job \<noteq> source) \<and>
     \<not> now - the (rj_ProcessedAt job) \<le> stuckThreshold"

definition ResetStuckJobs :: "gotime \<Rightarrow> gostring \<Rightarrow> duration \<Rightarrow> Store \<Rightarrow> nat outcome" where
  "ResetStuckJobs now source stuckThreshold st =
     (Ok (length (filter (is_stuck now source stuckThreshold) (refreshJobs st))),
      st\<lparr>refreshJobs := map (\<lambda>j. if is_stuck now source stuckThreshold j
          then j\<lparr>rj_Status := RefreshStatusPending, rj_ProcessedAt := None, rj_Error := []\<rparr> else j) (refreshJobs st)\<rparr>)"

section \<open>Package check statuses\<close>

definition packageCheckStatusKey :: "gostring \<Rightarrow> gostring \<Rightarrow> gostring \<Rightarrow> gostring" where
  "packageCheckStatusKey ecosystem name source = ecosystem @ CHR 0x00 # name @ CHR 0x00 # source"

definition GetPackageCheckStatus :: "gostring \<Rightarrow> gostring \<Rightarrow> gostring \<Rightarrow> Store \<Rightarrow> PackageCheckStatus option" where
  "GetPackageCheckStatus ecosystem name source st =
     map_of (checkStatuses st) (packageCheckStatusKey ecosystem name source)"

definition UpsertPackageCheckStatus :: "PackageCheckStatus option \<Rightarrow> Store \<Rightarrow> unit outcome" where
  "UpsertPackageCheckStatus status st =
     (case status of
        None \<Rightarrow> (Ok (), st)
      | Some s \<Rightarrow>
          if TrimSpace (cs_Ecosystem s) = [] \<or> TrimSpace (cs_Name s) = [] \<or> TrimSpace (cs_Source s) = []
          then (Ok (), st)
          else let s' = (if cs_CheckCount s \<le> 0 then s\<lparr>cs_CheckCount := 1\<rparr> else s) in
            (Ok (), st\<lparr>checkStatuses :=
               AList.update (packageCheckStatusKey (cs_Ecosystem s') (cs_Name s') (cs_Source s')) s' (checkStatuses st)\<rparr>))"

definition packageCheckStatusUpdatedAt :: "PackageCheckStatus \<Rightarrow> gotime" where
  "packageCheckStatusUpdatedAt status =
     (case cs_LastCheckedAt status of
        Some t \<Rightarrow> t
      | None \<Rightarrow> (case cs_NextCheckAt status of Some t \<Rightarrow> t | None \<Rightarrow> 0))"

definition check_status_expired :: "gotime \<Rightarrow> PackageCheckStatus \<Rightarrow> bool" where
  "check_status_expired cutoff status \<longleftrightarrow>
     cs_Source status = ''socket'' \<and> packageCheckStatusUpdatedAt status < cutoff"

definition PrunePackageCheckStatus :: "gotime \<Rightarrow> duration \<Rightarrow> Store \<Rightarrow> nat outcome" where
  "PrunePackageCheckStatus now retention st =
     (if retention \<le> 0 then (Ok 0, st)
      else let cutoff = now - retention in
        (Ok (length (filter (\<lambda>(k, s). check_status_expired cutoff s) (checkStatuses st))),
         st\<lparr>checkStatuses := filter (\<lambda>(k, s). \<not> check_status_expired cutoff s) (checkStatuses st)\<rparr>))"

section \<open>Reading the queue\<close>

record QueueStatsResult =
  qs_Pending :: nat
  qs_Processing :: nat
  qs_Done :: nat
  qs_Error :: nat
  qs_Paused :: nat

definition count_status :: "RefreshJob \<Rightarrow> QueueStatsResult \<Rightarrow> QueueStatsResult" where
  "count_status job stats =
     (if rj_Status job = RefreshStatusPending then stats\<lparr>qs_Pending := qs_Pending stats + 1\<rparr>
      else if rj_Status job = RefreshStatusProcessing then stats\<lparr>qs_Processing := qs_Processing stats + 1\<rparr>
      else if rj_Status job = RefreshStatusDone then stats\<lparr>qs_Done := qs_Done stats + 1\<rparr>
      else if rj_Status job = RefreshStatusError then stats\<lparr>qs_Error := qs_Error stats + 1\<rparr>
      else if rj_Status job = RefreshStatusPaused then stats\<lparr>qs_Paused := qs_Paused stats + 1\<rparr>
      else stats)"

definition QueueStats :: "Store \<Rightarrow> QueueStatsResult" where
  "QueueStats st = fold count_status (refreshJobs st)
     \<lparr>qs_Pending = 0, qs_Processing = 0, qs_Done = 0, qs_Error = 0, qs_Paused = 0\<rparr>"

definition note_oldest :: "RefreshJob \<Rightarrow> (gostring \<times> gotime) list \<Rightarrow> (gostring \<times> gotime) list" where
  "note_oldest job oldest =
     (if rj_Source job = [] \<or> \<not> IsDrainableRefreshStatus (rj_Status job) then oldest
      else case map_of oldest (rj_Source job) of
             None \<Rightarrow> AList.update (rj_Source job) (rj_RequestedAt job) oldest
           | Some current \<Rightarrow>
               if rj_RequestedAt job < current then AList.update (rj_Source job) (rj_RequestedAt job) oldest
               else oldest)"

definition OldestQueueJobs :: "Store \<Rightarrow> (gostring \<times> gotime) list" where
  "OldestQueueJobs st = fold note_oldest (refreshJobs st) []"

fun page_loop :: "('a \<Rightarrow> bool) \<Rightarrow> int \<Rightarrow> int \<Rightarrow> int \<Rightarrow> 'a list \<Rightarrow> 'a list \<Rightarrow> 'a list" where
  "page_loop keep limit offset skipped out [] = out"
| "page_loop keep limit offset skipped out (x # xs) =
     (if \<not> keep x then page_loop keep limit offset skipped out xs
      else if skipped < offset then page_loop keep limit offset (skipped + 1) out xs
      else let out = out @ [x] in
        if limit > 0 \<and> int (length out) \<ge> limit then out else page_loop keep limit offset skipped out xs)"

definition ListQueueJobsPage :: "gostring \<Rightarrow> int \<Rightarrow> int \<Rightarrow> Store \<Rightarrow> RefreshJob list" where
  "ListQueueJobsPage status limit offset st =
     (let offset = (if offset < 0 then 0 else offset);
          status = (case NormalizeRefreshStatus status of Some s \<Rightarrow> s | None \<Rightarrow> [])
      in page_loop (\<lambda>j. \<not> (status \<noteq> [] \<and> rj_Status j \<noteq> status)) limit offset 0 [] (rev (refreshJobs st)))"

definition ListQueueJobs :: "gostring \<Rightarrow> int \<Rightarrow> Store \<Rightarrow> RefreshJob list" where
  "ListQueueJobs status limit st = ListQueueJobsPage status limit 0 st"

section \<open>Removing jobs\<close>

definition remove_jobs :: "(RefreshJob \<Rightarrow> bool) \<Rightarrow> Store \<Rightarrow> nat \<times> Store" where
  "remove_jobs gone st =
     (length (filter gone (refreshJobs st)), st\<lparr>refreshJobs := filter (\<lambda>j. \<not> gone j) (refreshJobs st)\<rparr>)"

definition purgeQueueLocked :: "Store \<Rightarrow> nat \<times> Store" where
  "purgeQueueLocked st = remove_jobs (\<lambda>j. IsTerminalRefreshStatus (rj_Status j)) st"

definition PurgeQueue :: "Store \<Rightarrow> nat outcome" where
  "PurgeQueue st = (case purgeQueueLocked st of (n, st') \<Rightarrow> (Ok n, st'))"

definition refreshQueueTerminalTime :: "RefreshJob \<Rightarrow> gotime" where
  "refreshQueueTerminalTime job = (case rj_ProcessedAt job of Some t \<Rightarrow> t | None \<Rightarrow> rj_RequestedAt job)"

definition PruneRefreshQueue :: "gotime \<Rightarrow> duration \<Rightarrow> Store \<Rightarrow> nat outcome" where
  "PruneRefreshQueue now retention st =
     (if retention \<le> 0 then (Ok 0, st)
      else case remove_jobs (\<lambda>j. IsTerminalRefreshStatus (rj_Status j) \<and> refreshQueueTerminalTime j < now - retention) st of
             (n, st') \<Rightarrow> (Ok n, st'))"

definition queueJobsForStatusesLocked :: "gostring list \<Rightarrow> Store \<Rightarrow> RefreshJob list" where
  "queueJobsForStatusesLocked allowed st =
     (if allowed = [] then [] else filter (\<lambda>j. rj_Status j \<in> set allowed) (refreshJobs st))"

definition clearQueueWithAllowedLocked :: "gostring list \<Rightarrow> Store \<Rightarrow> nat \<times> Store" where
  "clearQueueWithAllowedLocked allowed st =
     (if allowed = [] then (0, st) else remove_jobs (\<lambda>j. rj_Status j \<in> set allowed) st)"

definition ClearQueue :: "gostring list \<Rightarrow> Store \<Rightarrow> nat outcome" where
  "ClearQueue statuses st =
     (case clearQueueWithAllowedLocked (NormalizeClearableRefreshStatuses statuses) st of (n, st') \<Rightarrow> (Ok n, st'))"

text \<open>Both audited removals record the jobs and their number before the rows go.\<close>

definition removal_audit ::
    "DevEnv \<Rightarrow> gostring \<Rightarrow> gostring \<Rightarrow> RefreshJob list \<Rightarrow> AdminAuditEntry option
     \<Rightarrow> (json_error, AdminAuditEntry option) result" where
  "removal_audit env jobs_key count_key jobs audit =
     (case SetAdminAuditQueueJobsDetail env audit jobs_key jobs of
        Err e \<Rightarrow> Err e
      | Ok audit \<Rightarrow> SetAdminAuditDetail audit count_key (Itoa (int (length jobs))))"

definition PurgeQueueWithAudit :: "DevEnv \<Rightarrow> gotime \<Rightarrow> AdminAuditEntry option \<Rightarrow> Store \<Rightarrow> nat outcome" where
  "PurgeQueueWithAudit env now audit st =
     (case removal_audit env ''purged_jobs'' ''purged''
             (queueJobsForStatusesLocked terminalRefreshStatuses st) audit of
        Err e \<Rightarrow> (Err (ErrJSON e), st)
      | Ok audit \<Rightarrow>
          (case purgeQueueLocked (insertAdminAuditLogLocked env now audit st) of (n, st') \<Rightarrow> (Ok n, st')))"

definition ClearQueueWithAudit ::
    "DevEnv \<Rightarrow> gotime \<Rightarrow> gostring list \<Rightarrow> AdminAuditEntry option \<Rightarrow> Store \<Rightarrow> nat outcome" where
  "ClearQueueWithAudit env now statuses audit st =
     (let allowed = NormalizeClearableRefreshStatuses statuses in
      case removal_audit env ''cleared_jobs'' ''cleared'' (queueJobsForStatusesLocked allowed st) audit of
        Err e \<Rightarrow> (Err (ErrJSON e), st)
      | Ok audit \<Rightarrow>
          (case clearQueueWithAllowedLocked allowed (insertAdminAuditLogLocked env now audit st) of
             (n, st') \<Rightarrow> (Ok n, st')))"

section \<open>Administering jobs\<close>

definition job_error :: "int \<Rightarrow> gostring \<Rightarrow> StoreError" where
  "job_error jobID what = Errorf (''queue job '' @ Itoa jobID @ what)"

text \<open>
  The administrative operations share one shape: find the job, refuse it unless its status allows
  the change, change it. The audited ones write the audit row between the check and the change.
\<close>

definition change_job ::
    "int \<Rightarrow> (RefreshJob \<Rightarrow> bool) \<Rightarrow> gostring \<Rightarrow> (RefreshJob \<Rightarrow> RefreshJob) \<Rightarrow> (Store \<Rightarrow> Store) \<Rightarrow> Store \<Rightarrow> unit outcome" where
  "change_job jobID allowed refusal change audit st =
     (case find (\<lambda>j. rj_ID j = jobID) (refreshJobs st) of
        None \<Rightarrow> (Err (job_error jobID '' not found''), st)
      | Some j \<Rightarrow>
          if \<not> allowed j then (Err (job_error jobID refusal), st)
          else let st = audit st in
            (Ok (), st\<lparr>refreshJobs := update_first (\<lambda>j. rj_ID j = jobID) change (refreshJobs st)\<rparr>))"

definition reset_pending :: "RefreshJob \<Rightarrow> RefreshJob" where
  "reset_pending job = job\<lparr>rj_Status := RefreshStatusPending, rj_ProcessedAt := None, rj_Error := []\<rparr>"

definition retry_job :: "gotime \<Rightarrow> RefreshJob \<Rightarrow> RefreshJob" where
  "retry_job now job = (reset_pending job)\<lparr>rj_RequestedAt := now\<rparr>"

definition UpdateQueueJobPriority :: "int \<Rightarrow> int \<Rightarrow> Store \<Rightarrow> unit outcome" where
  "UpdateQueueJobPriority jobID priority st =
     change_job jobID (\<lambda>_. True) [] (\<lambda>j. j\<lparr>rj_Priority := priority\<rparr>) (\<lambda>st. st) st"

definition UpdateQueueJobPriorityWithAudit ::
    "DevEnv \<Rightarrow> gotime \<Rightarrow> int \<Rightarrow> int \<Rightarrow> AdminAuditEntry option \<Rightarrow> Store \<Rightarrow> unit outcome" where
  "UpdateQueueJobPriorityWithAudit env now jobID priority audit st =
     change_job jobID (\<lambda>_. True) [] (\<lambda>j. j\<lparr>rj_Priority := priority\<rparr>) (insertAdminAuditLogLocked env now audit) st"

definition RetryQueueJob :: "gotime \<Rightarrow> int \<Rightarrow> Store \<Rightarrow> unit outcome" where
  "RetryQueueJob now jobID st =
     change_job jobID (\<lambda>j. CanRetryRefreshStatus (rj_Status j)) '' is not retryable'' (retry_job now) (\<lambda>st. st) st"

definition RetryQueueJobWithAudit ::
    "DevEnv \<Rightarrow> gotime \<Rightarrow> int \<Rightarrow> AdminAuditEntry option \<Rightarrow> Store \<Rightarrow> unit outcome" where
  "RetryQueueJobWithAudit env now jobID audit st =
     change_job jobID (\<lambda>j. CanRetryRefreshStatus (rj_Status j)) '' is not retryable'' (retry_job now)
       (insertAdminAuditLogLocked env now audit) st"

definition PauseQueueJob :: "int \<Rightarrow> Store \<Rightarrow> unit outcome" where
  "PauseQueueJob jobID st =
     change_job jobID (\<lambda>j. rj_Status j = RefreshStatusPending) '' is not pending''
       (\<lambda>j. j\<lparr>rj_Status := RefreshStatusPaused\<rparr>) (\<lambda>st. st) st"

definition PauseQueueJobWithAudit ::
    "DevEnv \<Rightarrow> gotime \<Rightarrow> int \<Rightarrow> AdminAuditEntry option \<Rightarrow> Store \<Rightarrow> unit outcome" where
  "PauseQueueJobWithAudit env now jobID audit st =
     change_job jobID (\<lambda>j. rj_Status j = RefreshStatusPending) '' is not pending''
       (\<lambda>j. j\<lparr>rj_Status := RefreshStatusPaused\<rparr>) (insertAdminAuditLogLocked env now audit) st"

definition ResumeQueueJob :: "int \<Rightarrow> Store \<Rightarrow> unit outcome" where
  "ResumeQueueJob jobID st =
     change_job jobID (\<lambda>j. rj_Status j = RefreshStatusPaused) '' is not paused'' reset_pending (\<lambda>st. st) st"

definition ResumeQueueJobWithAudit ::
    "DevEnv \<Rightarrow> gotime \<Rightarrow> int \<Rightarrow> AdminAuditEntry option \<Rightarrow> Store \<Rightarrow> unit outcome" where
  "ResumeQueueJobWithAudit env now jobID audit st =
     change_job jobID (\<lambda>j. rj_Status j = RefreshStatusPaused) '' is not paused'' reset_pending
       (insertAdminAuditLogLocked env now audit) st"

section \<open>Facts on statuses\<close>

lemma NormalizeRefreshStatus_known: "s \<in> set refreshStatuses \<Longrightarrow> NormalizeRefreshStatus s = Some s"
proof -
  have "list_all (\<lambda>s. NormalizeRefreshStatus s = Some s) refreshStatuses" by code_simp
  then show "s \<in> set refreshStatuses \<Longrightarrow> NormalizeRefreshStatus s = Some s" by (simp add: list_all_iff)
qed

lemma NormalizeRefreshStatus_known' [queue_simps]:
  "NormalizeRefreshStatus RefreshStatusPending = Some RefreshStatusPending"
  "NormalizeRefreshStatus RefreshStatusProcessing = Some RefreshStatusProcessing"
  "NormalizeRefreshStatus RefreshStatusPaused = Some RefreshStatusPaused"
  "NormalizeRefreshStatus RefreshStatusDone = Some RefreshStatusDone"
  "NormalizeRefreshStatus RefreshStatusError = Some RefreshStatusError"
  by (rule NormalizeRefreshStatus_known, simp add: refreshStatuses_def)+

lemma status_predicates [queue_simps]:
  "IsActiveRefreshStatus RefreshStatusPending" "IsActiveRefreshStatus RefreshStatusProcessing"
  "IsActiveRefreshStatus RefreshStatusPaused" "\<not> IsActiveRefreshStatus RefreshStatusDone"
  "\<not> IsActiveRefreshStatus RefreshStatusError"
  "IsDrainableRefreshStatus RefreshStatusPending" "IsDrainableRefreshStatus RefreshStatusProcessing"
  "\<not> IsDrainableRefreshStatus RefreshStatusPaused" "\<not> IsDrainableRefreshStatus RefreshStatusDone"
  "\<not> IsDrainableRefreshStatus RefreshStatusError"
  by (simp_all add: IsActiveRefreshStatus_def IsDrainableRefreshStatus_def NormalizeRefreshStatus_known')

lemma NormalizeRefreshStatus_range: "NormalizeRefreshStatus raw = Some s \<Longrightarrow> s \<in> set refreshStatuses"
  by (auto simp: NormalizeRefreshStatus_def Let_def split: if_splits)

lemma known_statuses [simp]:
  "RefreshStatusPending \<in> set refreshStatuses" "RefreshStatusProcessing \<in> set refreshStatuses"
  "RefreshStatusPaused \<in> set refreshStatuses" "RefreshStatusDone \<in> set refreshStatuses"
  "RefreshStatusError \<in> set refreshStatuses"
  by (simp_all add: refreshStatuses_def)

lemma enqueue_status_known [simp]: "enqueue_status s \<in> set refreshStatuses"
  using NormalizeRefreshStatus_range by (auto simp: enqueue_status_def split: option.split)

text \<open>On the five statuses, the status classes are the lists the code gives for them.\<close>

lemma terminal_known: "s \<in> set refreshStatuses \<Longrightarrow> IsTerminalRefreshStatus s \<longleftrightarrow> s \<in> set terminalRefreshStatuses"
  by (auto simp: IsTerminalRefreshStatus_def NormalizeRefreshStatus_known terminalRefreshStatuses_def)

section \<open>Lists changed in place\<close>

lemma list_all2_update_first:
  assumes "find P xs = Some x" and "R x (f x)" and "\<And>y. R y y"
  shows "list_all2 R xs (update_first P f xs)"
  using assms(1) by (induction xs) (auto simp: assms(2,3) list_all2_refl split: if_splits)

lemma list_all2_update_first_all:
  assumes "\<And>y. P y \<Longrightarrow> R y (f y)" and "\<And>y. R y y"
  shows "list_all2 R xs (update_first P f xs)"
  by (induction xs) (auto simp: assms list_all2_refl)

lemma list_all2_list_update:
  assumes "R (xs ! i) y" and "\<And>y. R y y"
  shows "list_all2 R xs (xs[i := y])"
  using assms by (cases "i < length xs") (auto simp: list_all2_conv_all_nth nth_list_update)

lemma subseq_filter_evolved:
  assumes "list_all2 (\<lambda>a b. P b \<longrightarrow> P a \<and> g b = g a) xs ys"
  shows "subseq (map g (filter P ys)) (map g (filter P xs))"
  using assms by (induction rule: list_all2_induct) (auto intro: subseq_Cons')

lemma subseq_filter_filter: "subseq (map g (filter P (filter Q xs))) (map g (filter P xs))"
  by (induction xs) auto

lemma distinct_subseq: "subseq xs ys \<Longrightarrow> distinct ys \<Longrightarrow> distinct xs"
  by (induction rule: list_emb.induct) (auto dest: list_emb_set)

section \<open>The invariants\<close>

abbreviation active_job :: "RefreshJob \<Rightarrow> bool" where
  "active_job j \<equiv> IsActiveRefreshStatus (rj_Status j)"

definition job_identity :: "RefreshJob \<Rightarrow> gostring \<times> gostring \<times> gostring" where
  "job_identity j = (rj_Ecosystem j, rj_Name j, rj_Source j)"

text \<open>Numbers ascend along the queue and were all assigned, and every status is a known one.\<close>

definition queue_ok :: "Store \<Rightarrow> bool" where
  "queue_ok st \<longleftrightarrow> sorted_wrt (<) (map rj_ID (refreshJobs st)) \<and>
     list_all (\<lambda>j. 0 < rj_ID j \<and> rj_ID j \<le> nextJobID st \<and> rj_Status j \<in> set refreshStatuses) (refreshJobs st) \<and>
     0 \<le> nextJobID st"

definition unique_active :: "Store \<Rightarrow> bool" where
  "unique_active st \<longleftrightarrow> distinct (map job_identity (filter active_job (refreshJobs st)))"

text \<open>What a job may become without leaving the invariants.\<close>

definition evolves :: "RefreshJob \<Rightarrow> RefreshJob \<Rightarrow> bool" where
  "evolves a b \<longleftrightarrow> rj_ID b = rj_ID a \<and> (rj_Status b = rj_Status a \<or> rj_Status b \<in> set refreshStatuses)"

definition settles :: "RefreshJob \<Rightarrow> RefreshJob \<Rightarrow> bool" where
  "settles a b \<longleftrightarrow> evolves a b \<and> (active_job b \<longrightarrow> active_job a \<and> job_identity b = job_identity a)"

lemma evolves_refl [simp]: "evolves a a" and settles_refl [simp]: "settles a a"
  by (simp_all add: evolves_def settles_def)

lemma settles_evolves: "list_all2 settles xs ys \<Longrightarrow> list_all2 evolves xs ys"
  by (erule list_all2_mono) (auto simp: settles_def)

lemma queue_ok_evolves:
  assumes "queue_ok st" and "list_all2 evolves (refreshJobs st) (refreshJobs st')" and "nextJobID st' = nextJobID st"
  shows "queue_ok st'"
proof -
  have "map rj_ID (refreshJobs st') = map rj_ID (refreshJobs st)"
    using assms(2) by (induction rule: list_all2_induct) (auto simp: evolves_def)
  moreover have "list_all (\<lambda>j. 0 < rj_ID j \<and> rj_ID j \<le> n \<and> rj_Status j \<in> set refreshStatuses) (refreshJobs st')"
    if "list_all (\<lambda>j. 0 < rj_ID j \<and> rj_ID j \<le> n \<and> rj_Status j \<in> set refreshStatuses) (refreshJobs st)" for n
    using assms(2) that by (induction rule: list_all2_induct) (auto simp: evolves_def)
  ultimately show ?thesis using assms(1,3) by (auto simp: queue_ok_def)
qed

lemma unique_active_settles:
  assumes "unique_active st" and "list_all2 settles (refreshJobs st) (refreshJobs st')"
  shows "unique_active st'"
proof -
  have "subseq (map job_identity (filter active_job (refreshJobs st')))
      (map job_identity (filter active_job (refreshJobs st)))"
    by (rule subseq_filter_evolved) (rule list_all2_mono [OF assms(2)], auto simp: settles_def)
  then show ?thesis using assms(1) unfolding unique_active_def by (rule distinct_subseq)
qed

lemma invariants_filter:
  assumes "refreshJobs st' = filter P (refreshJobs st)" and "nextJobID st' = nextJobID st"
  shows "queue_ok st \<Longrightarrow> queue_ok st'" and "unique_active st \<Longrightarrow> unique_active st'"
proof -
  show "queue_ok st \<Longrightarrow> queue_ok st'"
    using assms by (auto simp: queue_ok_def list_all_iff sorted_wrt_map intro: sorted_wrt_filter)
  show "unique_active st \<Longrightarrow> unique_active st'"
    unfolding unique_active_def assms(1) by (rule distinct_subseq [OF subseq_filter_filter])
qed

section \<open>Steps\<close>

text \<open>
  The operations on the queue as steps between stores. Retrying a job is apart from the others,
  because it is the only one that makes a finished job active again.
\<close>

inductive queue_step :: "DevEnv \<Rightarrow> Store \<Rightarrow> Store \<Rightarrow> bool" for env where
  enqueue: "queue_step env st (snd (EnqueueRefresh now job st))"
| enqueue_audited: "queue_step env st (snd (EnqueueRefreshWithAudit env now job builder st))"
| dequeue: "queue_step env st (snd (DequeueRefresh now source st))"
| complete: "queue_step env st (snd (CompleteRefresh env now jobID jobErr st))"
| complete_claim: "queue_step env st (snd (CompleteClaimedRefresh env now jobID claimedAt jobErr st))"
| reset_stuck: "queue_step env st (snd (ResetStuckJobs now source threshold st))"
| priority: "queue_step env st (snd (UpdateQueueJobPriority jobID p st))"
| priority_audited: "queue_step env st (snd (UpdateQueueJobPriorityWithAudit env now jobID p audit st))"
| pause: "queue_step env st (snd (PauseQueueJob jobID st))"
| pause_audited: "queue_step env st (snd (PauseQueueJobWithAudit env now jobID audit st))"
| resume: "queue_step env st (snd (ResumeQueueJob jobID st))"
| resume_audited: "queue_step env st (snd (ResumeQueueJobWithAudit env now jobID audit st))"
| purge: "queue_step env st (snd (PurgeQueue st))"
| purge_audited: "queue_step env st (snd (PurgeQueueWithAudit env now audit st))"
| prune: "queue_step env st (snd (PruneRefreshQueue now retention st))"
| clear: "queue_step env st (snd (ClearQueue statuses st))"
| clear_audited: "queue_step env st (snd (ClearQueueWithAudit env now statuses audit st))"
| check_status: "queue_step env st (snd (UpsertPackageCheckStatus status st))"
| prune_status: "queue_step env st (snd (PrunePackageCheckStatus now retention st))"

inductive retry_step :: "DevEnv \<Rightarrow> Store \<Rightarrow> Store \<Rightarrow> bool" for env where
  retry: "retry_step env st (snd (RetryQueueJob now jobID st))"
| retry_audited: "retry_step env st (snd (RetryQueueJobWithAudit env now jobID audit st))"

text \<open>The queue and its counter after a step, for steps that only change jobs in place.\<close>

lemma change_job_jobs:
  assumes "\<And>st. refreshJobs (audit st) = refreshJobs st" and "\<And>st. nextJobID (audit st) = nextJobID st"
    and "\<And>j. allowed j \<Longrightarrow> R j (change j)" and "\<And>j. R j j"
  shows "list_all2 R (refreshJobs st) (refreshJobs (snd (change_job jobID allowed refusal change audit st)))"
    and "nextJobID (snd (change_job jobID allowed refusal change audit st)) = nextJobID st"
proof -
  show "list_all2 R (refreshJobs st) (refreshJobs (snd (change_job jobID allowed refusal change audit st)))"
  proof (cases "find (\<lambda>j. rj_ID j = jobID) (refreshJobs st)")
    case (Some j)
    then show ?thesis
      by (auto simp: change_job_def Let_def assms list_all2_refl intro: list_all2_update_first [OF Some])
  qed (simp add: change_job_def assms list_all2_refl)
  show "nextJobID (snd (change_job jobID allowed refusal change audit st)) = nextJobID st"
    by (simp add: change_job_def Let_def assms split: option.split)
qed

lemma settles_changes:
  "settles j (j\<lparr>rj_Priority := p\<rparr>)"
  "rj_Status j = RefreshStatusPending \<Longrightarrow> settles j (j\<lparr>rj_Status := RefreshStatusPaused\<rparr>)"
  "rj_Status j = RefreshStatusPaused \<Longrightarrow> settles j (reset_pending j)"
  "settles j (completeRefreshJob env now jobErr j)"
  "rj_Status j = RefreshStatusPending \<Longrightarrow>
     settles j (j\<lparr>rj_Status := RefreshStatusProcessing, rj_ProcessedAt := t\<rparr>)"
  "rj_Status j = RefreshStatusProcessing \<Longrightarrow>
     settles j (j\<lparr>rj_Status := RefreshStatusPending, rj_ProcessedAt := t, rj_Error := e\<rparr>)"
  "settles j (raise_priority p j)"
  by (auto simp: settles_def evolves_def job_identity_def reset_pending_def completeRefreshJob_def
      raise_priority_def queue_simps split: option.split)

lemma bestIndex_claimable:
  assumes "bestIndex_loop source jobs i best rest = Some b" and "jobs = pre @ rest" and "i = length pre"
    and "\<And>k. best = Some k \<Longrightarrow> k < length jobs \<and> claimable source (jobs ! k)"
  shows "b < length jobs \<and> claimable source (jobs ! b)"
  using assms
proof (induction rest arbitrary: i best pre)
  case (Cons job rest)
  show ?case
    by (rule Cons.IH [OF Cons.prems(1) [unfolded bestIndex_loop.simps], of "pre @ [job]"])
      (use Cons.prems in \<open>auto simp: nth_append split: if_splits option.splits\<close>)
qed simp

lemma in_place_settles:
  "list_all2 settles (refreshJobs st) (refreshJobs (snd (DequeueRefresh now source st)))"
  "list_all2 settles (refreshJobs st) (refreshJobs (snd (CompleteRefresh env now jobID jobErr st)))"
  "list_all2 settles (refreshJobs st) (refreshJobs (snd (CompleteClaimedRefresh env now jobID claimedAt jobErr st)))"
  "list_all2 settles (refreshJobs st) (refreshJobs (snd (ResetStuckJobs now source threshold st)))"
proof -
  show "list_all2 settles (refreshJobs st) (refreshJobs (snd (DequeueRefresh now source st)))"
    using bestIndex_claimable [of source "refreshJobs st" 0 None "refreshJobs st" _ "[]"]
    by (auto simp: DequeueRefresh_def Let_def list_all2_refl claimable_def settles_changes
        intro!: list_all2_list_update split: option.split)
  show "list_all2 settles (refreshJobs st) (refreshJobs (snd (CompleteRefresh env now jobID jobErr st)))"
    by (simp add: CompleteRefresh_def list_all2_update_first_all settles_changes)
  show "list_all2 settles (refreshJobs st) (refreshJobs (snd (CompleteClaimedRefresh env now jobID claimedAt jobErr st)))"
    by (auto simp: CompleteClaimedRefresh_def complete_claimed_def list_all2_refl settles_changes
        intro!: list_all2_update_first_all split: option.split)
  show "list_all2 settles (refreshJobs st) (refreshJobs (snd (ResetStuckJobs now source threshold st)))"
    by (auto simp: ResetStuckJobs_def list_all2_conv_all_nth is_stuck_def settles_changes)
qed

lemma enqueue_cases:
  obtains (raised) existing where "find (same_active job) (refreshJobs st) = Some existing"
      and "list_all2 settles (refreshJobs st) (refreshJobs (snd (enqueueRefreshLocked now job st)))"
      and "nextJobID (snd (enqueueRefreshLocked now job st)) = nextJobID st"
  | (created) new where "find (same_active job) (refreshJobs st) = None"
      and "refreshJobs (snd (enqueueRefreshLocked now job st)) = refreshJobs st @ [new]"
      and "rj_ID new = nextJobID st + 1" and "job_identity new = job_identity job"
      and "rj_Status new = enqueue_status (rj_Status job)" and "rj_RequestedAt new = now"
      and "rj_Priority new = rj_Priority job"
      and "nextJobID (snd (enqueueRefreshLocked now job st)) = nextJobID st + 1"
proof (cases "find (same_active job) (refreshJobs st)")
  case None
  with created show thesis
    by (auto simp: enqueueRefreshLocked_def Let_def job_identity_def)
next
  case (Some existing)
  then have "list_all2 settles (refreshJobs st) (refreshJobs (snd (enqueueRefreshLocked now job st)))"
    by (auto simp: enqueueRefreshLocked_def Let_def settles_changes intro: list_all2_update_first_all)
  with Some raised show thesis by (simp add: enqueueRefreshLocked_def Let_def)
qed

lemma enqueue_invariants:
  shows "queue_ok st \<Longrightarrow> queue_ok (snd (enqueueRefreshLocked now job st))"
    and "unique_active st \<Longrightarrow> unique_active (snd (enqueueRefreshLocked now job st))"
proof -
  show "queue_ok (snd (enqueueRefreshLocked now job st))" if "queue_ok st"
  proof (cases rule: enqueue_cases [of job st now])
    case raised
    with that show ?thesis by (auto intro: queue_ok_evolves settles_evolves)
  next
    case (created new)
    with that show ?thesis by (auto simp: queue_ok_def sorted_wrt_append list_all_iff)
  qed
  show "unique_active (snd (enqueueRefreshLocked now job st))" if "unique_active st"
  proof (cases rule: enqueue_cases [of job st now])
    case raised
    with that show ?thesis by (auto intro: unique_active_settles)
  next
    case (created new)
    then have "\<not> same_active job j" if "j \<in> set (refreshJobs st)" for j
      using that by (auto simp: find_None_iff)
    with that created show ?thesis
      by (auto simp: unique_active_def same_active_def job_identity_def)
  qed
qed

lemma enqueue_audited_jobs:
  "refreshJobs (snd (EnqueueRefreshWithAudit env now job builder st)) = refreshJobs (snd (enqueueRefreshLocked now job st))"
  "nextJobID (snd (EnqueueRefreshWithAudit env now job builder st)) = nextJobID (snd (enqueueRefreshLocked now job st))"
  by (auto simp: EnqueueRefreshWithAudit_def split: prod.splits sum.splits option.splits)

lemma invariants_cong:
  assumes "refreshJobs st' = refreshJobs st" and "nextJobID st' = nextJobID st"
  shows "queue_ok st' = queue_ok st" and "unique_active st' = unique_active st"
  using assms by (simp_all add: queue_ok_def unique_active_def)

text \<open>Every step other than a retry is an enqueue, a change in place, or a removal.\<close>

definition queue_effect :: "Store \<Rightarrow> Store \<Rightarrow> bool" where
  "queue_effect st st' \<longleftrightarrow>
     (\<exists>now job. refreshJobs st' = refreshJobs (snd (enqueueRefreshLocked now job st)) \<and>
        nextJobID st' = nextJobID (snd (enqueueRefreshLocked now job st))) \<or>
     nextJobID st' = nextJobID st \<and>
     (list_all2 settles (refreshJobs st) (refreshJobs st') \<or> (\<exists>P. refreshJobs st' = filter P (refreshJobs st)))"

lemma enqueue_effect:
  "queue_effect st (snd (EnqueueRefresh now job st))"
  "queue_effect st (snd (EnqueueRefreshWithAudit env now job builder st))"
  using enqueue_audited_jobs by (auto simp: queue_effect_def EnqueueRefresh_def)

lemma in_place_effect:
  "queue_effect st (snd (DequeueRefresh now source st))"
  "queue_effect st (snd (CompleteRefresh env now jobID jobErr st))"
  "queue_effect st (snd (CompleteClaimedRefresh env now jobID claimedAt jobErr st))"
  "queue_effect st (snd (ResetStuckJobs now source threshold st))"
  using in_place_settles
  by (auto simp: queue_effect_def DequeueRefresh_def CompleteRefresh_def CompleteClaimedRefresh_def
      ResetStuckJobs_def Let_def split: option.split)

lemma change_effect:
  "queue_effect st (snd (UpdateQueueJobPriority jobID p st))"
  "queue_effect st (snd (UpdateQueueJobPriorityWithAudit env now jobID p audit st))"
  "queue_effect st (snd (PauseQueueJob jobID st))"
  "queue_effect st (snd (PauseQueueJobWithAudit env now jobID audit st))"
  "queue_effect st (snd (ResumeQueueJob jobID st))"
  "queue_effect st (snd (ResumeQueueJobWithAudit env now jobID audit st))"
  by (simp_all add: queue_effect_def UpdateQueueJobPriority_def UpdateQueueJobPriorityWithAudit_def
      PauseQueueJob_def PauseQueueJobWithAudit_def ResumeQueueJob_def ResumeQueueJobWithAudit_def
      change_job_jobs settles_changes)

lemma remove_jobs_effect:
  "queue_effect st (snd (remove_jobs P st))"
  "queue_effect st (snd (remove_jobs P (insertAdminAuditLogLocked env now audit st)))"
  "queue_effect st st" "queue_effect st (insertAdminAuditLogLocked env now audit st)"
  by (auto simp: queue_effect_def remove_jobs_def list_all2_refl)

lemma removal_effect:
  "queue_effect st (snd (PurgeQueue st))"
  "queue_effect st (snd (PurgeQueueWithAudit env now audit st))"
  "queue_effect st (snd (PruneRefreshQueue now retention st))"
  "queue_effect st (snd (ClearQueue statuses st))"
  "queue_effect st (snd (ClearQueueWithAudit env now statuses audit st))"
  by (auto simp: PurgeQueue_def PurgeQueueWithAudit_def PruneRefreshQueue_def ClearQueue_def
      ClearQueueWithAudit_def purgeQueueLocked_def clearQueueWithAllowedLocked_def Let_def
      remove_jobs_effect case_prod_beta split: sum.split)

lemma check_status_effect:
  "queue_effect st (snd (UpsertPackageCheckStatus status st))"
  "queue_effect st (snd (PrunePackageCheckStatus now retention st))"
  by (auto simp: queue_effect_def UpsertPackageCheckStatus_def PrunePackageCheckStatus_def Let_def
      list_all2_refl split: option.split)

lemma queue_step_effect: "queue_step env st st' \<Longrightarrow> queue_effect st st'"
  by (induction rule: queue_step.induct)
    (rule enqueue_effect in_place_effect change_effect removal_effect check_status_effect)+

lemma queue_effect_invariants:
  assumes "queue_effect st st'"
  shows "queue_ok st \<Longrightarrow> queue_ok st'" and "unique_active st \<Longrightarrow> unique_active st'"
  using assms unfolding queue_effect_def
  by (metis enqueue_invariants invariants_cong invariants_filter queue_ok_evolves settles_evolves
      unique_active_settles)+

lemma retry_step_ok: "retry_step env st st' \<Longrightarrow> queue_ok st \<Longrightarrow> queue_ok st'"
proof (induction rule: retry_step.induct)
  have ev: "evolves j (retry_job now j)" for j now
    by (simp add: evolves_def retry_job_def reset_pending_def)
  {
    case (retry st now jobID)
    then show ?case
      unfolding RetryQueueJob_def
      by (rule queue_ok_evolves) (simp_all add: change_job_jobs ev)
  next
    case (retry_audited st now jobID audit)
    then show ?case
      unfolding RetryQueueJobWithAudit_def
      by (rule queue_ok_evolves) (simp_all add: change_job_jobs ev)
  }
qed

lemma NewStore_ok: "queue_ok NewStore" "unique_active NewStore"
  by (simp_all add: queue_ok_def unique_active_def NewStore_def)

section \<open>Invariants over every run\<close>

definition job_for :: "gostring \<Rightarrow> int \<Rightarrow> RefreshJob" where
  "job_for name p = \<lparr>rj_ID = 0, rj_Ecosystem = ''npm'', rj_Name = name, rj_Source = ''socket'',
     rj_Priority = p, rj_Status = [], rj_RequestedAt = 0, rj_ProcessedAt = None, rj_Error = []\<rparr>"

text \<open>
  Whatever sequence of queue operations runs, plain, audited or retrying, the job numbers ascend
  along the queue, lie between one and the counter, and every job has one of the five statuses.
\<close>

theorem queue_invariant:
  assumes "(\<lambda>s s'. queue_step env s s' \<or> retry_step env s s')\<^sup>*\<^sup>* NewStore st"
  shows "sorted_wrt (<) (map rj_ID (refreshJobs st)) \<and>
    list_all (\<lambda>j. 0 < rj_ID j \<and> rj_ID j \<le> nextJobID st \<and> rj_Status j \<in> set refreshStatuses) (refreshJobs st)"
proof -
  from assms have "queue_ok st"
    by (induction rule: rtranclp_induct)
      (auto simp: NewStore_ok intro: retry_step_ok queue_effect_invariants(1) queue_step_effect)
  then show ?thesis by (simp add: queue_ok_def)
qed

theorem queue_invariant_witness:
  "map rj_ID (refreshJobs (snd (RetryQueueJob 9 1 (snd (EnqueueRefresh 5 (job_for ''a'' 1) NewStore))))) = [1] \<and>
   list_all (\<lambda>j. rj_Status j \<in> set refreshStatuses)
     (refreshJobs (snd (RetryQueueJob 9 1 (snd (EnqueueRefresh 5 (job_for ''a'' 1) NewStore)))))"
proof -
  let ?st = "snd (RetryQueueJob 9 1 (snd (EnqueueRefresh 5 (job_for ''a'' 1) NewStore)))"
  have "(\<lambda>s s'. queue_step example_devenv s s' \<or> retry_step example_devenv s s')\<^sup>*\<^sup>* NewStore ?st"
    by (rule rtranclp.rtrancl_into_rtrancl [OF r_into_rtranclp])
      (blast intro: queue_step.enqueue, blast intro: retry_step.retry)
  from queue_invariant [OF this] have "list_all (\<lambda>j. rj_Status j \<in> set refreshStatuses) (refreshJobs ?st)"
    by (simp add: list_all_iff)
  moreover have "map rj_ID (refreshJobs ?st) = [1]" by code_simp
  ultimately show ?thesis by simp
qed

text \<open>
  C33: As long as no job is retried, at most one job per ecosystem, name and source is active (pending,
  processing or paused), whatever else runs: enqueueing never duplicates work in flight.
\<close>

theorem active_jobs_unique:
  assumes "(queue_step env)\<^sup>*\<^sup>* NewStore st"
  shows "distinct (map job_identity (filter (\<lambda>j. IsActiveRefreshStatus (rj_Status j)) (refreshJobs st)))"
proof -
  from assms have "unique_active st"
    by (induction rule: rtranclp_induct)
      (auto simp: NewStore_ok intro: queue_effect_invariants(2) queue_step_effect)
  then show ?thesis by (simp add: unique_active_def)
qed

theorem active_jobs_unique_witness:
  "distinct (map job_identity (filter (\<lambda>j. IsActiveRefreshStatus (rj_Status j))
     (refreshJobs (snd (EnqueueRefresh 7 (job_for ''a'' 0) (snd (EnqueueRefresh 5 (job_for ''a'' 1) NewStore)))))))"
proof (rule active_jobs_unique)
  show "(queue_step example_devenv)\<^sup>*\<^sup>* NewStore
      (snd (EnqueueRefresh 7 (job_for ''a'' 0) (snd (EnqueueRefresh 5 (job_for ''a'' 1) NewStore))))"
    by (rule rtranclp.rtrancl_into_rtrancl [OF r_into_rtranclp]) (rule queue_step.enqueue)+
qed

text \<open>
  Retrying does duplicate: a job that is done, enqueued a second time and then retried gives two
  pending jobs for the same ecosystem, name and source, since \<open>RetryQueueJob\<close> does not look for an
  active one.
\<close>

lemma retry_duplicates:
  "(let st1 = snd (EnqueueRefresh 1 (job_for ''a'' 1) NewStore);
        st2 = snd (CompleteRefresh example_devenv 2 1 None st1);
        st3 = snd (EnqueueRefresh 3 (job_for ''a'' 1) st2);
        st4 = snd (RetryQueueJob 4 1 st3)
    in map (\<lambda>j. (rj_ID j, rj_Name j, rj_Status j)) (refreshJobs st4)) =
   [(1, ''a'', ''pending''), (2, ''a'', ''pending'')]"
  by code_simp

section \<open>The order of claims\<close>

definition claim_key :: "RefreshJob \<Rightarrow> int \<times> int \<times> int" where
  "claim_key j = (rj_Priority j, rj_RequestedAt j, rj_ID j)"

lemma better_claim_key:
  "better_claim a b \<longleftrightarrow> (rj_Priority a, rj_RequestedAt a) < (rj_Priority b, rj_RequestedAt b)"
  by (auto simp: better_claim_def)

lemma before_key: "noopRefreshJobBefore a b \<longleftrightarrow> claim_key a < claim_key b"
  by (auto simp: noopRefreshJobBefore_def claim_key_def)

text \<open>The best of the first jobs: claimable, not worse than any claimable one, better than the earlier ones.\<close>

definition best_of_first :: "gostring \<Rightarrow> RefreshJob list \<Rightarrow> nat \<Rightarrow> nat option \<Rightarrow> bool" where
  "best_of_first source jobs n best = (case best of
     None \<Rightarrow> \<forall>k < n. \<not> claimable source (jobs ! k)
   | Some b \<Rightarrow> b < n \<and> claimable source (jobs ! b) \<and>
       (\<forall>k < n. claimable source (jobs ! k) \<longrightarrow>
          \<not> better_claim (jobs ! k) (jobs ! b) \<and> (k < b \<longrightarrow> better_claim (jobs ! b) (jobs ! k))))"

lemma best_of_first_Suc:
  assumes "best_of_first source jobs n best"
  shows "best_of_first source jobs (Suc n)
    (if \<not> claimable source (jobs ! n) then best
     else case best of None \<Rightarrow> Some n | Some b \<Rightarrow> if better_claim (jobs ! n) (jobs ! b) then Some n else best)"
  using assms
  by (auto simp: best_of_first_def less_Suc_eq better_claim_key split: option.splits)

lemma bestIndex_best:
  assumes "jobs = pre @ rest" and "best_of_first source jobs (length pre) best"
  shows "best_of_first source jobs (length jobs) (bestIndex_loop source jobs (length pre) best rest)"
  using assms
proof (induction rest arbitrary: best pre)
  case (Cons job rest)
  then have job: "jobs ! length pre = job" by simp
  have "best_of_first source jobs (length (pre @ [job]))
      (if \<not> claimable source job then best
       else case best of None \<Rightarrow> Some (length pre)
              | Some b \<Rightarrow> if better_claim job (jobs ! b) then Some (length pre) else best)"
    using best_of_first_Suc [OF Cons.prems(2)] by (simp only: job length_append_singleton)
  from Cons.IH [OF _ this] have "best_of_first source jobs (length jobs)
      (bestIndex_loop source jobs (length (pre @ [job]))
        (if \<not> claimable source job then best
         else case best of None \<Rightarrow> Some (length pre)
                | Some b \<Rightarrow> if better_claim job (jobs ! b) then Some (length pre) else best) rest)"
    using Cons.prems(1) by simp
  then show ?case by (simp only: bestIndex_loop.simps length_append_singleton Suc_eq_plus1)
qed simp

lemma DequeueRefresh_cases:
  obtains (empty) "DequeueRefresh now source st = (Ok None, st)"
      and "filter (claimable source) (refreshJobs st) = []"
  | (claimed) i job where "i < length (refreshJobs st)" and "claimable source (refreshJobs st ! i)"
      and "job = (refreshJobs st ! i)\<lparr>rj_Status := RefreshStatusProcessing, rj_ProcessedAt := Some now\<rparr>"
      and "DequeueRefresh now source st = (Ok (Some job), st\<lparr>refreshJobs := (refreshJobs st)[i := job]\<rparr>)"
      and "best_of_first source (refreshJobs st) (length (refreshJobs st)) (Some i)"
proof -
  have best: "best_of_first source (refreshJobs st) (length (refreshJobs st))
      (bestIndex_loop source (refreshJobs st) 0 None (refreshJobs st))"
    using bestIndex_best [of "refreshJobs st" "[]" "refreshJobs st" source None]
    by (simp add: best_of_first_def)
  show thesis
  proof (cases "bestIndex_loop source (refreshJobs st) 0 None (refreshJobs st)")
    case None
    with best have "filter (claimable source) (refreshJobs st) = []"
      by (auto simp: best_of_first_def filter_empty_conv in_set_conv_nth)
    with None empty show thesis by (simp add: DequeueRefresh_def)
  next
    case (Some i)
    with best claimed [of i] show thesis
      by (auto simp: best_of_first_def DequeueRefresh_def Let_def)
  qed
qed

lemma best_claim_key:
  assumes "queue_ok st" and "best_of_first source (refreshJobs st) (length (refreshJobs st)) (Some i)"
    and "k < length (refreshJobs st)" and "claimable source (refreshJobs st ! k)"
  shows "claim_key (refreshJobs st ! i) \<le> claim_key (refreshJobs st ! k)"
proof -
  have "i < k \<Longrightarrow> rj_ID (refreshJobs st ! i) < rj_ID (refreshJobs st ! k)"
    using assms(1,3) by (auto simp: queue_ok_def sorted_wrt_map sorted_wrt_iff_nth_less)
  moreover have "\<not> better_claim (refreshJobs st ! k) (refreshJobs st ! i)"
    and "k < i \<Longrightarrow> better_claim (refreshJobs st ! i) (refreshJobs st ! k)"
    using assms(2-4) by (simp_all add: best_of_first_def)
  ultimately show ?thesis
    by (cases k i rule: linorder_cases) (auto simp: better_claim_def claim_key_def)
qed

text \<open>
  A worker gets the next pending job of its source (of any source if it names none): no other
  such job has a lower priority number, was requested earlier at the same priority, or has a lower
  job number at the same priority and time. The job is marked as processing since now, and no other
  job changes. It gets nothing only if no such job is pending, and then nothing changes.
\<close>

theorem DequeueRefresh_next:
  assumes "queue_ok st"
  shows "case DequeueRefresh now source st of
      (Ok None, st') \<Rightarrow> st' = st \<and> filter (claimable source) (refreshJobs st) = []
    | (Ok (Some job), st') \<Rightarrow>
        (\<exists>i < length (refreshJobs st). claimable source (refreshJobs st ! i) \<and>
          job = (refreshJobs st ! i)\<lparr>rj_Status := ''processing'', rj_ProcessedAt := Some now\<rparr> \<and>
          st' = st\<lparr>refreshJobs := (refreshJobs st)[i := job]\<rparr>) \<and>
        list_all (\<lambda>other. (rj_Priority job, rj_RequestedAt job, rj_ID job) \<le>
          (rj_Priority other, rj_RequestedAt other, rj_ID other)) (filter (claimable source) (refreshJobs st))
    | (Err e, st') \<Rightarrow> False"
proof (cases rule: DequeueRefresh_cases [of now source st])
  case (claimed i job)
  have "claim_key job \<le> claim_key other" if "other \<in> set (filter (claimable source) (refreshJobs st))" for other
    using that claimed(3) best_claim_key [OF assms claimed(5)] by (auto simp: in_set_conv_nth claim_key_def)
  with claimed show ?thesis by (auto simp: list_all_iff claim_key_def)
qed simp

definition two_jobs :: Store where
  "two_jobs = snd (EnqueueRefresh 7 (job_for ''b'' 0) (snd (EnqueueRefresh 5 (job_for ''a'' 1) NewStore)))"

lemma two_jobs_ok: "queue_ok two_jobs"
  by (simp add: two_jobs_def EnqueueRefresh_def enqueue_invariants NewStore_ok)

theorem DequeueRefresh_next_witness:
  "\<exists>job st'. DequeueRefresh 9 ''socket'' two_jobs = (Ok (Some job), st') \<and> rj_Name job = ''b'' \<and>
     list_all (\<lambda>other. rj_Priority job \<le> rj_Priority other) (filter (claimable ''socket'') (refreshJobs two_jobs))"
proof -
  have name: "map_option rj_Name (projr (fst (DequeueRefresh 9 ''socket'' two_jobs))) = Some ''b''" by code_simp
  show ?thesis
    using DequeueRefresh_next [OF two_jobs_ok, where now = 9 and source = "''socket''"] name
    by (auto simp: list_all_iff split: prod.splits sum.splits option.splits)
qed

section \<open>Draining the queue\<close>

text \<open>A worker that claims one job at each of the given instants, and the jobs it gets.\<close>

fun claim_run :: "gostring \<Rightarrow> gotime list \<Rightarrow> Store \<Rightarrow> RefreshJob list \<times> Store" where
  "claim_run source [] st = ([], st)"
| "claim_run source (now # later) st =
     (case DequeueRefresh now source st of
        (Ok (Some job), st') \<Rightarrow> (case claim_run source later st' of (jobs, st'') \<Rightarrow> (job # jobs, st''))
      | (_, st') \<Rightarrow> claim_run source later st')"

definition task :: "RefreshJob \<Rightarrow> (gostring \<times> gostring \<times> gostring) \<times> int \<times> int \<times> int" where
  "task j = (job_identity j, claim_key j)"

lemma mset_filter_update:
  assumes "i < length xs" and "P (xs ! i)" and "\<not> P y"
  shows "mset (map f (filter P xs)) = add_mset (f (xs ! i)) (mset (map f (filter P (xs[i := y]))))"
  using assms by (subst id_take_nth_drop [OF assms(1)]) (simp add: upd_conv_take_nth_drop)

lemma length_filter_update:
  assumes "i < length xs" and "P (xs ! i)" and "\<not> P y"
  shows "length (filter P xs) = Suc (length (filter P (xs[i := y])))"
  using arg_cong [OF mset_filter_update [OF assms, of id], of size]
  by (simp only: size_mset size_add_mset length_map)

lemma claimed_not_claimable: "\<not> claimable source (j\<lparr>rj_Status := RefreshStatusProcessing, rj_ProcessedAt := t\<rparr>)"
  by (simp add: claimable_def)

lemma task_claim [simp]: "task (j\<lparr>rj_Status := s, rj_ProcessedAt := t\<rparr>) = task j"
  by (simp add: task_def job_identity_def claim_key_def)

lemma sorted_tasks_Cons:
  assumes "set (map task jobs) \<subseteq> set (map task others)"
    and "\<And>other. other \<in> set others \<Longrightarrow> claim_key job \<le> claim_key other" and "sorted (map claim_key jobs)"
  shows "sorted (map claim_key (job # jobs))"
proof -
  have "claim_key job \<le> claim_key j" if "j \<in> set jobs" for j
  proof -
    from that assms(1) obtain other where "other \<in> set others" and "task j = task other" by auto
    with assms(2) show ?thesis by (auto simp: task_def)
  qed
  with assms(3) show ?thesis by simp
qed

lemma claim_run_tasks:
  assumes "queue_ok st" and "length (filter (claimable source) (refreshJobs st)) \<le> length nows"
  shows "mset (map task (fst (claim_run source nows st))) = mset (map task (filter (claimable source) (refreshJobs st)))
    \<and> sorted (map claim_key (fst (claim_run source nows st)))
    \<and> filter (claimable source) (refreshJobs (snd (claim_run source nows st))) = []"
  using assms
proof (induction nows arbitrary: st)
  case (Cons now later)
  show ?case
  proof (cases rule: DequeueRefresh_cases [of now source st])
    case empty
    with Cons.IH [OF Cons.prems(1)] show ?thesis by simp
  next
    case (claimed i job)
    let ?st' = "st\<lparr>refreshJobs := (refreshJobs st)[i := job]\<rparr>"
    have ok: "queue_ok ?st'"
      using queue_effect_invariants(1) [OF in_place_effect(1) [of st now source] Cons.prems(1)] claimed(4) by simp
    have job: "\<not> claimable source job" using claimed(3) by (simp add: claimed_not_claimable)
    note ms = mset_filter_update [of i "refreshJobs st" "claimable source" job task, OF claimed(1,2) job]
    have "length (filter (claimable source) ((refreshJobs st)[i := job])) \<le> length later"
      using length_filter_update [of i "refreshJobs st" "claimable source" job, OF claimed(1,2) job] Cons.prems(2)
      by simp
    with Cons.IH [OF ok] have IH: "mset (map task (fst (claim_run source later ?st'))) =
          mset (map task (filter (claimable source) ((refreshJobs st)[i := job])))"
        "sorted (map claim_key (fst (claim_run source later ?st')))"
        "filter (claimable source) (refreshJobs (snd (claim_run source later ?st'))) = []" by simp_all
    have keys: "claim_key job \<le> claim_key other"
      if "other \<in> set (filter (claimable source) (refreshJobs st))" for other
      using that claimed(3) best_claim_key [OF Cons.prems(1) claimed(5)]
      by (auto simp: in_set_conv_nth claim_key_def)
    have "set (map task (fst (claim_run source later ?st'))) \<subseteq> set (map task (filter (claimable source) (refreshJobs st)))"
      using arg_cong [OF IH(1), of set_mset] arg_cong [OF ms, of set_mset] by auto
    from sorted_tasks_Cons [OF this keys IH(2)] IH(1,3) show ?thesis
      using claimed(3,4) ms by (simp add: case_prod_beta)
  qed
qed simp

lemma claim_run_order:
  assumes "queue_ok st" and "length (filter (claimable source) (refreshJobs st)) \<le> length nows"
  shows "map rj_ID (fst (claim_run source nows st)) =
      map rj_ID (sort_key claim_key (filter (claimable source) (refreshJobs st))) \<and>
    filter (claimable source) (refreshJobs (snd (claim_run source nows st))) = []"
proof -
  let ?jobs = "fst (claim_run source nows st)" and ?all = "filter (claimable source) (refreshJobs st)"
  have ms: "mset (map task ?jobs) = mset (map task ?all)" and sorted: "sorted (map claim_key ?jobs)"
    and none: "filter (claimable source) (refreshJobs (snd (claim_run source nows st))) = []"
    using claim_run_tasks [OF assms] by simp_all
  have "map claim_key ?jobs = sort (map claim_key ?all)"
  proof (rule properties_for_sort [symmetric])
    show "mset (map claim_key ?jobs) = mset (map claim_key ?all)"
      using arg_cong [OF ms, of "image_mset snd"] by (simp add: task_def multiset.map_comp comp_def)
  qed (rule sorted)
  also have "\<dots> = map claim_key (sort_key claim_key ?all)"
    by (rule properties_for_sort) simp_all
  finally have "map (snd \<circ> snd) (map claim_key ?jobs) = map (snd \<circ> snd) (map claim_key (sort_key claim_key ?all))"
    by (rule arg_cong)
  with none show ?thesis by (simp add: claim_key_def comp_def)
qed

text \<open>
  C12: A worker that keeps asking drains its queue in order: with at least as many requests as there
  are pending jobs of its source, it gets each of them exactly once, by ascending priority number,
  then request time, then job number, and afterwards none is pending.
\<close>

theorem claim_run_drains:
  assumes "queue_ok st" and "length (filter (claimable source) (refreshJobs st)) \<le> length nows"
  shows "map rj_ID (fst (claim_run source nows st)) =
      map rj_ID (sort_key claim_key (filter (claimable source) (refreshJobs st))) \<and>
    filter (claimable source) (refreshJobs (snd (claim_run source nows st))) = []"
  using claim_run_order [OF assms] .

theorem claim_run_drains_witness:
  "map rj_ID (fst (claim_run ''socket'' [9, 10, 11] two_jobs)) = [2, 1]"
proof -
  have "length (filter (claimable ''socket'') (refreshJobs two_jobs)) \<le> length [9 :: int, 10, 11]" by code_simp
  from claim_run_drains [OF two_jobs_ok this]
  have "map rj_ID (fst (claim_run ''socket'' [9, 10, 11] two_jobs)) =
      map rj_ID (sort_key claim_key (filter (claimable ''socket'') (refreshJobs two_jobs)))" by simp
  also have "\<dots> = [2, 1]" by code_simp
  finally show ?thesis .
qed

section \<open>Positions\<close>

lemma nth_count_smaller:
  assumes "sorted_wrt (<) (map k ys)" and "y \<in> set ys"
  shows "length (filter (\<lambda>z. k z < (k y :: 'b :: linorder)) ys) < length ys \<and>
    ys ! length (filter (\<lambda>z. k z < k y) ys) = y"
  using assms
proof (induction ys)
  case (Cons a ys)
  show ?case
  proof (cases "y = a")
    case True
    with Cons.prems have "filter (\<lambda>z. k z < k y) (a # ys) = []" by (auto simp: filter_empty_conv)
    with True show ?thesis by simp
  next
    case False
    with Cons show ?thesis by auto
  qed
qed simp

lemma sort_key_distinct_strict:
  fixes k :: "'a \<Rightarrow> 'b :: linorder"
  assumes "distinct (map k xs)"
  shows "sorted_wrt (<) (map k (sort_key k xs))"
proof -
  have "distinct (map k (sort_key k xs))"
    using assms by (metis mset_eq_imp_distinct_iff mset_map mset_sort)
  then show ?thesis by (simp add: strict_sorted_iff)
qed

lemma queue_ok_distinct:
  assumes "queue_ok st"
  shows "distinct (map rj_ID (refreshJobs st))" and "distinct (map claim_key (filter P (refreshJobs st)))"
proof -
  show ids: "distinct (map rj_ID (refreshJobs st))"
    using assms by (simp add: queue_ok_def strict_sorted_iff)
  have "inj_on rj_ID (set (refreshJobs st))" and "distinct (refreshJobs st)"
    using ids by (simp_all add: distinct_map)
  then show "distinct (map claim_key (filter P (refreshJobs st)))"
    by (auto simp: distinct_map claim_key_def inj_on_def)
qed

text \<open>For a source no job of which is being processed, a position counts the claims until the job's turn.\<close>

lemma position_counts:
  assumes "queue_ok st" and "j \<in> set (refreshJobs st)" and "claimable (rj_Source j) j" and "rj_Source j \<noteq> []"
    and "\<And>k. k \<in> set (refreshJobs st) \<Longrightarrow> rj_Source k = rj_Source j \<Longrightarrow> rj_Status k \<noteq> RefreshStatusProcessing"
  shows "queuePositionLocked (rj_ID j) (refreshJobs st) =
    1 + int (length (filter (\<lambda>z. claim_key z < claim_key j) (filter (claimable (rj_Source j)) (refreshJobs st))))"
proof -
  have pending: "IsDrainableRefreshStatus (rj_Status j)"
    using assms(3) by (simp add: claimable_def queue_simps)
  have same: "\<not> (\<not> IsDrainableRefreshStatus (rj_Status z) \<or> rj_Source z \<noteq> rj_Source j \<or> rj_ID z = rj_ID j) \<and>
      noopRefreshJobBefore z j \<longleftrightarrow> claim_key z < claim_key j \<and> claimable (rj_Source j) z"
    if z: "z \<in> set (refreshJobs st)" for z
  proof -
    have st: "rj_Status z \<in> set refreshStatuses" using assms(1) z by (simp add: queue_ok_def list_all_iff)
    have "z = j" if "rj_ID z = rj_ID j"
      using queue_ok_distinct(1) [OF assms(1)] z assms(2) that by (auto simp: distinct_map inj_on_def)
    moreover have "IsDrainableRefreshStatus (rj_Status z) \<longleftrightarrow> rj_Status z = RefreshStatusPending"
      if "rj_Source z = rj_Source j"
      using st assms(5) [OF z that] by (auto simp: refreshStatuses_def queue_simps)
    ultimately show ?thesis using assms(4) by (auto simp: before_key claimable_def)
  qed
  have found: "find (\<lambda>k. rj_ID k = rj_ID j) (refreshJobs st) = Some j"
    by (rule distinct_map_inj_find [OF queue_ok_distinct(1) [OF assms(1)] assms(2)])
  have "queuePositionLocked (rj_ID j) (refreshJobs st) =
      1 + int (length (filter (\<lambda>z. claim_key z < claim_key j \<and> claimable (rj_Source j) z) (refreshJobs st)))"
    using pending filter_cong [OF refl same, of "refreshJobs st"] by (simp add: queuePositionLocked_def found)
  then show ?thesis by (simp add: conj_commute)
qed

text \<open>
  The position reported for a pending job is its turn: while no job of its source is being
  processed, it lies between one and the number of pending jobs of the source, and a worker of that
  source that keeps asking gets the job as its position-th claim.
\<close>

theorem queue_position_is_turn:
  assumes "queue_ok st" and "j \<in> set (refreshJobs st)" and "rj_Status j = ''pending''"
    and "rj_Source j = source" and "source \<noteq> []"
    and "\<forall>k \<in> set (refreshJobs st). rj_Source k = source \<longrightarrow> rj_Status k \<noteq> ''processing''"
    and "length (filter (claimable source) (refreshJobs st)) \<le> length nows"
    and "p = queuePositionLocked (rj_ID j) (refreshJobs st)"
  shows "1 \<le> p \<and> p \<le> int (length (filter (claimable source) (refreshJobs st))) \<and>
    map rj_ID (fst (claim_run source nows st)) ! nat (p - 1) = rj_ID j"
proof -
  let ?all = "filter (claimable source) (refreshJobs st)"
  let ?n = "length (filter (\<lambda>z. claim_key z < claim_key j) ?all)"
  have j: "j \<in> set ?all" using assms(2-4) by (simp add: claimable_def)
  have "j \<in> set (sort_key claim_key ?all)" using j by simp
  note turn = nth_count_smaller [OF sort_key_distinct_strict [OF queue_ok_distinct(2) [OF assms(1)]] this]
  have n: "length (filter (\<lambda>z. claim_key z < claim_key j) (sort_key claim_key ?all)) = ?n"
    by (metis mset_filter mset_sort size_mset)
  have p: "p = 1 + int ?n"
    using position_counts [of st j] assms j by (auto simp: claimable_def)
  have "map rj_ID (fst (claim_run source nows st)) = map rj_ID (sort_key claim_key ?all)"
    using claim_run_order [OF assms(1,7)] by simp
  then show ?thesis using turn p unfolding n by simp
qed

theorem queue_position_is_turn_witness:
  "queuePositionLocked 1 (refreshJobs two_jobs) = 2 \<and>
   map rj_ID (fst (claim_run ''socket'' [9, 10] two_jobs)) ! nat (2 - 1) = 1"
proof -
  let ?j = "refreshJobs two_jobs ! 0"
  have p: "queuePositionLocked 1 (refreshJobs two_jobs) = 2" by code_simp
  have id: "rj_ID ?j = 1" by code_simp
  have jobs: "length (refreshJobs two_jobs) = 2" by code_simp
  have mem: "?j \<in> set (refreshJobs two_jobs)" by (simp add: jobs)
  have st: "rj_Status ?j = ''pending''" and src: "rj_Source ?j = ''socket''" by code_simp+
  have all: "\<forall>k \<in> set (refreshJobs two_jobs). rj_Source k = ''socket'' \<longrightarrow> rj_Status k \<noteq> ''processing''" by code_simp
  have len: "length (filter (claimable ''socket'') (refreshJobs two_jobs)) \<le> length [9 :: int, 10]" by code_simp
  have "2 = queuePositionLocked (rj_ID ?j) (refreshJobs two_jobs)" by (simp only: id p)
  from queue_position_is_turn [OF two_jobs_ok mem st src _ all len this] show ?thesis
    by (simp add: p id)
qed

section \<open>Claims\<close>

lemma find_id_update:
  "(\<And>j. rj_ID (f j) = rj_ID j) \<Longrightarrow>
    find (\<lambda>j. rj_ID j = jobID) (map f jobs) = map_option f (find (\<lambda>j. rj_ID j = jobID) jobs)"
  by (induction jobs) auto

lemma update_first_same: "(\<And>x. find P xs = Some x \<Longrightarrow> f x = x) \<Longrightarrow> update_first P f xs = xs"
  by (induction xs) auto

lemma dequeue_find:
  assumes "DequeueRefresh now source st = (Ok (Some job), st')" and "queue_ok st"
  shows "find (\<lambda>k. rj_ID k = rj_ID job) (refreshJobs st') = Some job" and "rj_Status job = RefreshStatusProcessing"
    and "rj_ProcessedAt job = Some now" and "queue_ok st'"
    and "find (\<lambda>k. rj_ID k = n) (refreshJobs st') = Some k \<Longrightarrow>
      k = job \<or> find (\<lambda>k. rj_ID k = n) (refreshJobs st) = Some k"
proof -
  from assms(1) obtain i where i: "i < length (refreshJobs st)"
    and job: "job = (refreshJobs st ! i)\<lparr>rj_Status := RefreshStatusProcessing, rj_ProcessedAt := Some now\<rparr>"
    and st': "st' = st\<lparr>refreshJobs := (refreshJobs st)[i := job]\<rparr>"
    by (cases rule: DequeueRefresh_cases [of now source st]) auto
  show ok: "queue_ok st'"
    using queue_effect_invariants(1) [OF in_place_effect(1) [of st now source] assms(2)] assms(1) by simp
  show "find (\<lambda>k. rj_ID k = rj_ID job) (refreshJobs st') = Some job"
    by (rule distinct_map_inj_find [OF queue_ok_distinct(1) [OF ok]]) (simp add: st' set_update_memI i)
  show "rj_Status job = RefreshStatusProcessing" "rj_ProcessedAt job = Some now" by (simp_all add: job)
  assume k: "find (\<lambda>k. rj_ID k = n) (refreshJobs st') = Some k"
  then have mem: "k \<in> set (refreshJobs st')" and n: "rj_ID k = n" by (auto simp: find_Some_iff)
  then have "k = job \<or> k \<in> set (refreshJobs st)"
    using set_update_subset_insert [of "refreshJobs st" i job] by (auto simp: st')
  then show "k = job \<or> find (\<lambda>k. rj_ID k = n) (refreshJobs st) = Some k"
    using distinct_map_inj_find [OF queue_ok_distinct(1) [OF assms(2)]] n by auto
qed

lemma complete_claimed_noop:
  assumes "\<And>k. find (\<lambda>j. rj_ID j = jobID) (refreshJobs st) = Some k \<Longrightarrow>
    rj_Status k \<noteq> RefreshStatusProcessing \<or> rj_ProcessedAt k \<noteq> Some claim"
  shows "CompleteClaimedRefresh env now jobID (Some claim) jobErr st = (Ok (), st)"
proof -
  have "update_first (\<lambda>j. rj_ID j = jobID) (complete_claimed env now claim jobErr) (refreshJobs st) = refreshJobs st"
    by (rule update_first_same) (use assms in \<open>auto simp: complete_claimed_def\<close>)
  then show ?thesis by (simp add: CompleteClaimedRefresh_def)
qed

lemma reset_find:
  assumes "ResetStuckJobs now source threshold st = (r, st')"
  shows "find (\<lambda>k. rj_ID k = n) (refreshJobs st') = map_option
    (\<lambda>j. if is_stuck now source threshold j
       then j\<lparr>rj_Status := RefreshStatusPending, rj_ProcessedAt := None, rj_Error := []\<rparr> else j)
    (find (\<lambda>k. rj_ID k = n) (refreshJobs st))" and "queue_ok st \<Longrightarrow> queue_ok st'"
proof -
  show "find (\<lambda>k. rj_ID k = n) (refreshJobs st') = map_option
      (\<lambda>j. if is_stuck now source threshold j
         then j\<lparr>rj_Status := RefreshStatusPending, rj_ProcessedAt := None, rj_Error := []\<rparr> else j)
      (find (\<lambda>k. rj_ID k = n) (refreshJobs st))"
    using assms by (auto simp: ResetStuckJobs_def find_id_update)
  show "queue_ok st \<Longrightarrow> queue_ok st'"
    using queue_effect_invariants(1) [OF in_place_effect(4) [of st now source threshold]] assms by simp
qed

text \<open>
  What a step does to the claims at the instants of \<open>C\<close>: a job that was there before keeps its number
  and its source, and it is under such a claim afterwards only if it was before. Only a claim at one of
  these instants does otherwise. A new job gets a number above the counter.
\<close>

definition under_claim :: "gotime \<Rightarrow> RefreshJob \<Rightarrow> bool" where
  "under_claim t j \<longleftrightarrow> rj_Status j = RefreshStatusProcessing \<and> rj_ProcessedAt j = Some t"

definition job_kept :: "gotime set \<Rightarrow> RefreshJob \<Rightarrow> RefreshJob \<Rightarrow> bool" where
  "job_kept C a b \<longleftrightarrow> rj_ID b = rj_ID a \<and> rj_Source b = rj_Source a \<and> (\<forall>t \<in> C. under_claim t b \<longrightarrow> under_claim t a)"

definition claims_kept :: "gotime set \<Rightarrow> Store \<Rightarrow> Store \<Rightarrow> bool" where
  "claims_kept C st st' \<longleftrightarrow> nextJobID st \<le> nextJobID st' \<and>
     (\<forall>b \<in> set (refreshJobs st'). rj_ID b \<le> nextJobID st \<longrightarrow> (\<exists>a \<in> set (refreshJobs st). job_kept C a b))"

lemma job_kept_refl [simp]: "job_kept C a a"
  by (simp add: job_kept_def)

lemma job_kept_changes [simp]:
  "job_kept C j (j\<lparr>rj_Priority := p\<rparr>)" "job_kept C j (raise_priority p j)"
  "job_kept C j (j\<lparr>rj_Status := RefreshStatusPaused\<rparr>)"
  "job_kept C j (j\<lparr>rj_Status := RefreshStatusPending, rj_ProcessedAt := t, rj_Error := e\<rparr>)"
  "job_kept C j (reset_pending j)" "job_kept C j (retry_job now j)" "job_kept C j (completeRefreshJob env now jobErr j)"
  "now \<notin> C \<Longrightarrow> job_kept C j (j\<lparr>rj_Status := RefreshStatusProcessing, rj_ProcessedAt := Some now\<rparr>)"
  by (auto simp: job_kept_def under_claim_def raise_priority_def reset_pending_def retry_job_def completeRefreshJob_def
      split: option.split)

lemma job_kept_here: "a \<in> S \<Longrightarrow> \<exists>b \<in> S. job_kept C b a"
  by (rule bexI [of _ a]) simp_all

lemma claims_kept_in_place:
  assumes "list_all2 (job_kept C) (refreshJobs st) (refreshJobs st')" and "nextJobID st' = nextJobID st"
  shows "claims_kept C st st'"
  using assms by (fastforce simp: claims_kept_def list_all2_conv_all_nth in_set_conv_nth)

lemma claims_kept_subset:
  "set (refreshJobs st') \<subseteq> set (refreshJobs st) \<Longrightarrow> nextJobID st' = nextJobID st \<Longrightarrow> claims_kept C st st'"
  by (auto simp: claims_kept_def intro: job_kept_here)

lemma claims_keptD:
  assumes "claims_kept C st st'" and "b \<in> set (refreshJobs st')" and "rj_ID b \<le> nextJobID st"
  obtains a where "a \<in> set (refreshJobs st)" and "job_kept C a b"
  using assms unfolding claims_kept_def by blast

lemma claims_kept_trans:
  assumes "claims_kept C st st'" and "claims_kept C st' st''"
  shows "claims_kept C st st''"
proof -
  have "job_kept C a b \<Longrightarrow> job_kept C b c \<Longrightarrow> job_kept C a c" for a b c by (auto simp: job_kept_def)
  moreover have "job_kept C b c \<Longrightarrow> rj_ID c = rj_ID b" for b c by (simp add: job_kept_def)
  ultimately show ?thesis using assms unfolding claims_kept_def by (metis order_trans)
qed

lemma claims_kept_enqueue: "claims_kept C st (snd (enqueueRefreshLocked now job st))"
proof (cases "find (same_active job) (refreshJobs st)")
  case None
  then show ?thesis by (auto simp: enqueueRefreshLocked_def Let_def claims_kept_def intro: job_kept_here)
next
  case (Some existing)
  then show ?thesis
    by (intro claims_kept_in_place) (auto simp: enqueueRefreshLocked_def Let_def intro: list_all2_update_first_all)
qed

lemma claims_kept_cong:
  "refreshJobs st' = refreshJobs st1 \<Longrightarrow> nextJobID st' = nextJobID st1 \<Longrightarrow> claims_kept C st st1 \<Longrightarrow> claims_kept C st st'"
  by (simp add: claims_kept_def)

lemma claims_kept_change_job:
  assumes "\<And>st. refreshJobs (audit st) = refreshJobs st" and "\<And>st. nextJobID (audit st) = nextJobID st"
    and "\<And>j. allowed j \<Longrightarrow> job_kept C j (change j)"
  shows "claims_kept C st (snd (change_job jobID allowed refusal change audit st))"
  by (intro claims_kept_in_place change_job_jobs) (use assms in simp_all)

lemma claims_kept_complete:
  "claims_kept C st (snd (CompleteRefresh env now jobID jobErr st))"
  "claims_kept C st (snd (CompleteClaimedRefresh env now jobID claimedAt jobErr st))"
  "claims_kept C st (snd (ResetStuckJobs now source threshold st))"
proof -
  show "claims_kept C st (snd (CompleteRefresh env now jobID jobErr st))"
    by (rule claims_kept_in_place) (simp_all add: CompleteRefresh_def list_all2_update_first_all)
  show "claims_kept C st (snd (CompleteClaimedRefresh env now jobID claimedAt jobErr st))"
    by (rule claims_kept_in_place)
      (auto simp: CompleteClaimedRefresh_def complete_claimed_def list_all2_refl intro!: list_all2_update_first_all split: option.split)
  show "claims_kept C st (snd (ResetStuckJobs now source threshold st))"
    by (rule claims_kept_in_place) (simp_all add: ResetStuckJobs_def list_all2_conv_all_nth)
qed

lemma claims_kept_dequeue: "now \<notin> C \<Longrightarrow> claims_kept C st (snd (DequeueRefresh now source st))"
  by (rule claims_kept_in_place)
    (auto simp: DequeueRefresh_def Let_def list_all2_refl intro!: list_all2_list_update split: option.split)

lemma claims_kept_remove:
  "claims_kept C st (snd (remove_jobs P st))"
  "claims_kept C st (snd (remove_jobs P (insertAdminAuditLogLocked env now audit st)))"
  "claims_kept C st st" "claims_kept C st (insertAdminAuditLogLocked env now audit st)"
  by (rule claims_kept_subset; auto simp: remove_jobs_def)+

text \<open>
  A step of the queue, a retry included, that claims no job at the instant \<open>t\<close>: if it does what a claim
  at \<open>t\<close> would do, it does nothing.
\<close>

definition queue_moves :: "DevEnv \<Rightarrow> Store \<Rightarrow> Store \<Rightarrow> bool" where
  "queue_moves env st st' \<longleftrightarrow> queue_step env st st' \<or> retry_step env st st'"

definition moves_unless_claim :: "DevEnv \<Rightarrow> gotime \<Rightarrow> Store \<Rightarrow> Store \<Rightarrow> bool" where
  "moves_unless_claim env t st st' \<longleftrightarrow>
     queue_moves env st st' \<and> (\<forall>source. st' = snd (DequeueRefresh t source st) \<longrightarrow> st' = st)"

lemma retry_claims_kept: "retry_step env st st' \<Longrightarrow> claims_kept C st st'"
  by (induction rule: retry_step.induct)
    (simp_all add: RetryQueueJob_def RetryQueueJobWithAudit_def claims_kept_change_job)

lemma queue_claims_kept:
  assumes "queue_step env st st'" and "\<And>now source. now \<in> C \<Longrightarrow> st' = snd (DequeueRefresh now source st) \<Longrightarrow> st' = st"
  shows "claims_kept C st st'"
  using assms
proof (induction rule: queue_step.induct)
  case (dequeue st now source)
  show ?case
    using dequeue(1) [of now source] claims_kept_dequeue [of now C st source] claims_kept_remove(3) [of C st]
    by (cases "now \<in> C") simp_all
qed (auto simp: EnqueueRefresh_def enqueue_audited_jobs claims_kept_enqueue claims_kept_complete claims_kept_change_job
      UpdateQueueJobPriority_def UpdateQueueJobPriorityWithAudit_def PauseQueueJob_def PauseQueueJobWithAudit_def
      ResumeQueueJob_def ResumeQueueJobWithAudit_def PurgeQueue_def PurgeQueueWithAudit_def PruneRefreshQueue_def ClearQueue_def
      ClearQueueWithAudit_def purgeQueueLocked_def clearQueueWithAllowedLocked_def Let_def claims_kept_remove
      UpsertPackageCheckStatus_def PrunePackageCheckStatus_def case_prod_beta
      intro: claims_kept_cong [OF _ _ claims_kept_enqueue] claims_kept_subset split: sum.split option.split)

lemma moves_claims_kept:
  "(queue_moves env)\<^sup>*\<^sup>* st st' \<Longrightarrow> claims_kept {} st st'"
  "(moves_unless_claim env t)\<^sup>*\<^sup>* st st' \<Longrightarrow> claims_kept {t} st st'"
proof -
  have one: "queue_moves env a b \<Longrightarrow> claims_kept {} a b" for a b
    using queue_claims_kept [of env a b "{}"] retry_claims_kept by (auto simp: queue_moves_def)
  show "(queue_moves env)\<^sup>*\<^sup>* st st' \<Longrightarrow> claims_kept {} st st'"
    by (induction rule: rtranclp_induct) (blast intro: claims_kept_remove(3) claims_kept_trans one)+
  have two: "moves_unless_claim env t a b \<Longrightarrow> claims_kept {t} a b" for a b
    using queue_claims_kept [of env a b "{t}"] retry_claims_kept by (auto simp: moves_unless_claim_def queue_moves_def)
  show "(moves_unless_claim env t)\<^sup>*\<^sup>* st st' \<Longrightarrow> claims_kept {t} st st'"
    by (induction rule: rtranclp_induct) (blast intro: claims_kept_remove(3) claims_kept_trans two)+
qed

lemma no_claim_made:
  assumes "queue_moves env st st'" and "\<forall>j \<in> set (refreshJobs st'). rj_ProcessedAt j \<noteq> Some t"
  shows "moves_unless_claim env t st st'"
  unfolding moves_unless_claim_def
proof (intro conjI allI impI assms(1))
  fix source assume claim: "st' = snd (DequeueRefresh t source st)"
  show "st' = st"
  proof (cases rule: DequeueRefresh_cases [of t source st])
    case (claimed i job)
    then have "job \<in> set (refreshJobs st')" "rj_ProcessedAt job = Some t" using claim by (auto simp: set_update_memI)
    then show ?thesis using assms(2) by blast
  qed (use claim in simp)
qed

lemma reset_takes_claim:
  assumes "k \<in> set (refreshJobs (snd (ResetStuckJobs t2 src threshold st)))" and "under_claim t k"
    and "src = [] \<or> src = rj_Source k"
  shows "t2 - t \<le> threshold"
proof (rule ccontr)
  assume late: "\<not> ?thesis"
  from assms(1) obtain j where j: "j \<in> set (refreshJobs st)"
    "k = (if is_stuck t2 src threshold j then j\<lparr>rj_Status := RefreshStatusPending, rj_ProcessedAt := None, rj_Error := []\<rparr> else j)"
    unfolding ResetStuckJobs_def by auto
  have "\<not> is_stuck t2 src threshold j" using j(2) assms(2) by (auto simp: under_claim_def)
  then have "k = j" using j(2) by simp
  then have "is_stuck t2 src threshold j" using assms(2,3) late by (auto simp: is_stuck_def under_claim_def)
  with \<open>\<not> is_stuck t2 src threshold j\<close> show False by contradiction
qed

text \<open>
  C20: A claim is good until it is taken back. The worker that claimed a job completes it with the
  instant of its claim. Let any queue operations follow, among them a reset of stuck jobs, of all
  sources or of the job's own, that comes later than the threshold after the claim. From that reset on,
  whatever operations follow, the instant of the claim completes nothing any more, whether the job
  waits, is gone, or was claimed again by any worker, as long as no job is claimed at that very instant.
\<close>

theorem stale_claim_completes_nothing:
  assumes "queue_ok st" and "DequeueRefresh t1 source st = (Ok (Some job), st1)"
    and "(queue_moves env)\<^sup>*\<^sup>* st1 st2"
    and "ResetStuckJobs t2 src threshold st2 = (r, st3)" and "src = [] \<or> src = rj_Source job" and "threshold < t2 - t1"
    and "(moves_unless_claim env t1)\<^sup>*\<^sup>* st3 st4"
  shows "map_option rj_Status (find (\<lambda>j. rj_ID j = rj_ID job)
      (refreshJobs (snd (CompleteClaimedRefresh env t4 (rj_ID job) (Some t1) None st1)))) = Some ''done'' \<and>
    CompleteClaimedRefresh env t4 (rj_ID job) (Some t1) jobErr st4 = (Ok (), st4)"
proof
  note claim = dequeue_find [OF assms(2,1)]
  show "map_option rj_Status (find (\<lambda>j. rj_ID j = rj_ID job)
      (refreshJobs (snd (CompleteClaimedRefresh env t4 (rj_ID job) (Some t1) None st1)))) = Some ''done''"
    using claim(1-3)
    by (simp add: CompleteClaimedRefresh_def find_update_first complete_claimed_def completeRefreshJob_def)
  have mem: "job \<in> set (refreshJobs st1)" using claim(1) by (auto simp: find_Some_iff)
  then have old: "rj_ID job \<le> nextJobID st1" using claim(4) by (auto simp: queue_ok_def list_all_iff)
  have st3: "st3 = snd (ResetStuckJobs t2 src threshold st2)" using assms(4) by simp
  have to3: "claims_kept {} st1 st3"
    using claims_kept_trans [OF moves_claims_kept(1) [OF assms(3)] claims_kept_complete(3)] by (simp add: st3)
  note to4 = moves_claims_kept(2) [OF assms(7)]
  have "\<not> under_claim t1 k" if k: "k \<in> set (refreshJobs st4)" "rj_ID k = rj_ID job" for k
  proof
    assume claimed: "under_claim t1 k"
    have "rj_ID k \<le> nextJobID st3" using old to3 k(2) by (simp add: claims_kept_def)
    then obtain b where b: "b \<in> set (refreshJobs st3)" "job_kept {t1} b k" by (rule claims_keptD [OF to4 k(1)])
    then have bk: "rj_ID b = rj_ID job" "under_claim t1 b" using k(2) claimed by (auto simp: job_kept_def)
    then have "rj_ID b \<le> nextJobID st1" using old by simp
    then obtain a where a: "a \<in> set (refreshJobs st1)" "job_kept {} a b" by (rule claims_keptD [OF to3 b(1)])
    then have id: "rj_ID a = rj_ID job" and source: "rj_Source b = rj_Source a" using bk(1) by (auto simp: job_kept_def)
    have "Some a = Some job"
      using distinct_map_inj_find [OF queue_ok_distinct(1) [OF claim(4)] a(1)] claim(1) unfolding id by (rule trans [OF sym])
    then have "rj_Source b = rj_Source job" using source by simp
    then show False using reset_takes_claim [of b t2 src threshold st2 t1] b(1) bk(2) assms(5,6) by (simp add: st3)
  qed
  note stale = this
  show "CompleteClaimedRefresh env t4 (rj_ID job) (Some t1) jobErr st4 = (Ok (), st4)"
  proof (rule complete_claimed_noop)
    fix k assume "find (\<lambda>j. rj_ID j = rj_ID job) (refreshJobs st4) = Some k"
    then have "k \<in> set (refreshJobs st4)" "rj_ID k = rj_ID job" by (auto simp: find_Some_iff)
    from stale [OF this] show "rj_Status k \<noteq> RefreshStatusProcessing \<or> rj_ProcessedAt k \<noteq> Some t1"
      by (simp add: under_claim_def)
  qed
qed

text \<open>
  A job of the socket feed is claimed; its priority is changed and the socket worker resets it; another
  worker claims it; the first one comes back with its answer.
\<close>

definition taken_back :: Store where
  "taken_back = snd (ResetStuckJobs 40 ''socket'' 30 (snd (UpdateQueueJobPriority 2 7 (snd (DequeueRefresh 9 [] two_jobs)))))"

theorem stale_claim_completes_nothing_witness:
  "map_option rj_Status (find (\<lambda>j. rj_ID j = 2) (refreshJobs (snd (DequeueRefresh 50 [] (snd (PauseQueueJob 1 taken_back)))))) =
     Some ''processing'' \<and>
   CompleteClaimedRefresh example_devenv 99 2 (Some 9) None (snd (DequeueRefresh 50 [] (snd (PauseQueueJob 1 taken_back)))) =
     (Ok (), snd (DequeueRefresh 50 [] (snd (PauseQueueJob 1 taken_back))))"
proof -
  let ?st3 = "snd (PauseQueueJob 1 taken_back)" and ?st4 = "snd (DequeueRefresh 50 [] (snd (PauseQueueJob 1 taken_back)))"
  obtain job st1 where st1: "DequeueRefresh 9 [] two_jobs = (Ok (Some job), st1)"
  proof (cases rule: DequeueRefresh_cases [of 9 "[]" two_jobs])
    case empty
    have "filter (claimable []) (refreshJobs two_jobs) \<noteq> []" by code_simp
    with empty show thesis by simp
  qed (use that in auto)
  have "map_option (\<lambda>j. (rj_ID j, rj_Source j)) (projr (fst (DequeueRefresh 9 [] two_jobs))) = Some (2, ''socket'')" by code_simp
  then have job: "rj_ID job = 2" "rj_Source job = ''socket''" by (simp_all add: st1)
  obtain r where st2: "ResetStuckJobs 40 ''socket'' 30 (snd (UpdateQueueJobPriority 2 7 st1)) = (r, taken_back)"
    by (cases "ResetStuckJobs 40 ''socket'' 30 (snd (UpdateQueueJobPriority 2 7 st1))") (simp add: taken_back_def st1)
  have before: "(queue_moves example_devenv)\<^sup>*\<^sup>* st1 (snd (UpdateQueueJobPriority 2 7 st1))"
    by (rule r_into_rtranclp) (simp add: queue_moves_def queue_step.priority)
  have "\<forall>j \<in> set (refreshJobs ?st3). rj_ProcessedAt j \<noteq> Some 9" "\<forall>j \<in> set (refreshJobs ?st4). rj_ProcessedAt j \<noteq> Some 9" by code_simp+
  then have "moves_unless_claim example_devenv 9 taken_back ?st3" "moves_unless_claim example_devenv 9 ?st3 ?st4"
    by (auto intro!: no_claim_made simp: queue_moves_def intro: queue_step.pause queue_step.dequeue)
  then have after: "(moves_unless_claim example_devenv 9)\<^sup>*\<^sup>* taken_back ?st4"
    by (rule rtranclp.rtrancl_into_rtrancl [OF r_into_rtranclp])
  have "map_option rj_Status (find (\<lambda>j. rj_ID j = 2) (refreshJobs ?st4)) = Some ''processing''" by code_simp
  with stale_claim_completes_nothing [OF two_jobs_ok st1 before st2 _ _ after, of 99 None] job show ?thesis by simp
qed

section \<open>Audited operations\<close>

definition audited_as :: "AdminAuditEntry \<Rightarrow> Store \<Rightarrow> 'a outcome \<Rightarrow> 'a outcome \<Rightarrow> bool" where
  "audited_as e st plain audited \<longleftrightarrow>
     fst audited = fst plain \<and> refreshJobs (snd audited) = refreshJobs (snd plain) \<and>
     (if isl (fst plain) then snd audited = st
      else \<exists>row. auditLog (snd audited) = auditLog st @ [row] \<and> al_Action row = ae_Action e)"

lemma change_job_audited_as:
  "audited_as e st (change_job jobID allowed refusal change (\<lambda>st. st) st)
     (change_job jobID allowed refusal change (insertAdminAuditLogLocked env now (Some e)) st)"
  using insertAdminAuditLogLocked_grows [of env now e st]
  by (auto simp: audited_as_def change_job_def Let_def split: option.split)

text \<open>
  The audited changes of a job are atomic: each answers as the plain operation and leaves the
  same queue; if it fails the store is unchanged, and if it succeeds exactly one audit row with the
  given action was appended.
\<close>

theorem audited_changes_atomic:
  "audited_as e st (UpdateQueueJobPriority jobID p st) (UpdateQueueJobPriorityWithAudit env now jobID p (Some e) st) \<and>
   audited_as e st (RetryQueueJob now jobID st) (RetryQueueJobWithAudit env now jobID (Some e) st) \<and>
   audited_as e st (PauseQueueJob jobID st) (PauseQueueJobWithAudit env now jobID (Some e) st) \<and>
   audited_as e st (ResumeQueueJob jobID st) (ResumeQueueJobWithAudit env now jobID (Some e) st)"
  by (simp add: UpdateQueueJobPriority_def UpdateQueueJobPriorityWithAudit_def RetryQueueJob_def
      RetryQueueJobWithAudit_def PauseQueueJob_def PauseQueueJobWithAudit_def ResumeQueueJob_def
      ResumeQueueJobWithAudit_def change_job_audited_as)

end
