(* ===== verification/PackageNames.thy ===== *)
theory PackageNames
  imports GoStrings
begin

text \<open>
  Package identity, \<open>internal/packageid\<close>: the canonical name of a package in ecosystems whose
  registries do not tell spellings apart. The lemmas show that a canonical name is its own canonical
  name, so that a stored row is found again under the name it was stored with.
\<close>

definition pypi_separator :: "char \<Rightarrow> bool" where
  "pypi_separator c \<longleftrightarrow> c \<in> {CHR ''-'', CHR ''_'', CHR ''.''}"

text \<open>Replacing every run of separators by one hyphen; the flag tells that a run has begun.\<close>

fun pypiSeparatorRun :: "bool \<Rightarrow> gostring \<Rightarrow> gostring" where
  "pypiSeparatorRun run [] = []"
| "pypiSeparatorRun run (c # s) =
     (if pypi_separator c then (if run then pypiSeparatorRun True s else CHR ''-'' # pypiSeparatorRun True s)
      else c # pypiSeparatorRun False s)"

definition NormalizeName :: "gostring \<Rightarrow> gostring \<Rightarrow> gostring" where
  "NormalizeName ecosystem name =
     (let name = TrimSpace name; eco = ToLower (TrimSpace ecosystem) in
      if eco = ''actions'' \<or> eco = ''github actions'' then ToLower name
      else if eco = ''nuget'' then ToLower name
      else if eco = ''pypi'' then pypiSeparatorRun False (ToLower name)
      else name)"

section \<open>Case mapping and white space\<close>

lemma lower_byte_fixes: "byte c < 65 \<or> 90 < byte c \<Longrightarrow> lower_byte c = c"
  by (auto simp: lower_byte_def)

lemma byte_lower_byte: "byte (lower_byte c) = (if 65 \<le> byte c \<and> byte c \<le> 90 then byte c + 32 else byte c)"
  by (auto simp: lower_byte_def of_char_of)

lemma space_lower [simp]:
  "ascii_space (lower_byte a) = ascii_space a"
  "space2 (lower_byte a) (lower_byte b) = space2 a b"
  "space3 (lower_byte a) (lower_byte b) (lower_byte c) = space3 a b c"
  by (auto simp: ascii_space_def space2_def space3_def byte_lower_byte)

lemma space_prefix_lower [simp]:
  "space_prefix (map lower_byte s) = space_prefix s"
  "space_prefix_rev (map lower_byte s) = space_prefix_rev s"
  by (cases s rule: space_prefix.cases; simp) (cases s rule: space_prefix_rev.cases; simp)

lemma TrimSpace_ToLower: "TrimSpace (ToLower (TrimSpace s)) = ToLower (TrimSpace s)"
proof (rule TrimSpace_id)
  show "space_prefix (ToLower (TrimSpace s)) = 0"
    by (simp add: ToLower_def TrimSpace_no_left)
  have "rev (ToLower (TrimSpace s)) = map lower_byte (rev (TrimSpace s))"
    by (simp add: ToLower_def rev_map)
  then show "space_prefix_rev (rev (ToLower (TrimSpace s))) = 0"
    by (simp add: TrimSpace_no_right)
qed

section \<open>Separator runs\<close>

abbreviation collapse :: "gostring \<Rightarrow> gostring" where
  "collapse s \<equiv> pypiSeparatorRun False s"

lemma hyphen_separator [simp]: "pypi_separator (CHR ''-'')"
  by (simp add: pypi_separator_def)

lemma run_idem [simp]: "pypiSeparatorRun b (pypiSeparatorRun b s) = pypiSeparatorRun b s"
  by (induction b s rule: pypiSeparatorRun.induct) auto

lemma run_chars: "set (pypiSeparatorRun b s) \<subseteq> insert (CHR ''-'') (set s)"
  by (induction b s rule: pypiSeparatorRun.induct) auto

lemma ToLower_collapse: "ToLower (collapse (ToLower s)) = collapse (ToLower s)"
proof -
  have "lower_byte c = c" if "c \<in> set (collapse (ToLower s))" for c
    using that run_chars [of False "ToLower s"] by (auto simp: ToLower_def lower_byte_fixes)
  then show ?thesis by (simp add: ToLower_def map_idI)
qed

lemma run_started:
  "pypiSeparatorRun False s =
     (if s \<noteq> [] \<and> pypi_separator (hd s) then CHR ''-'' # pypiSeparatorRun True s else pypiSeparatorRun True s)"
  by (cases s) auto

lemma run_snoc:
  "pypiSeparatorRun b (s @ [c]) = pypiSeparatorRun b s @
     (if \<not> pypi_separator c then [c]
      else if (if s = [] then b else pypi_separator (last s)) then [] else [CHR ''-''])"
  by (induction b s rule: pypiSeparatorRun.induct) auto

lemma collapse_rev: "collapse (rev s) = rev (collapse s)"
proof (induction s)
  case (Cons c s)
  then show ?case
    using run_started [of s] by (auto simp: run_snoc last_rev)
qed simp

text \<open>Collapsing runs keeps a string free of white space at its ends: a hyphen is no part of it.\<close>

lemma hyphen_no_space [simp]:
  "\<not> ascii_space (CHR ''-'')" "\<not> space2 (CHR ''-'') b" "\<not> space2 a (CHR ''-'')"
  "\<not> space3 (CHR ''-'') b c" "\<not> space3 a (CHR ''-'') c" "\<not> space3 a b (CHR ''-'')"
  by (simp_all add: ascii_space_def space2_def space3_def)

lemma space_prefix_hyphen [simp]: "space_prefix (CHR ''-'' # s) = 0" "space_prefix_rev (CHR ''-'' # s) = 0"
  by (cases "CHR ''-'' # s" rule: space_prefix.cases; simp) (cases "CHR ''-'' # s" rule: space_prefix_rev.cases; simp)

lemma space_prefix_rev_Cons:
  "space_prefix_rev (c # s) =
     (if ascii_space c then 1
      else case s of [] \<Rightarrow> 0
        | b # s' \<Rightarrow> if space2 b c then 2
            else (case s' of [] \<Rightarrow> 0 | a # _ \<Rightarrow> if space3 a b c then 3 else 0))"
  by (auto split: list.splits)

lemma space_prefix_collapse:
  "space_prefix s = 0 \<Longrightarrow> space_prefix (collapse s) = 0"
  "space_prefix_rev s = 0 \<Longrightarrow> space_prefix_rev (collapse s) = 0"
proof -
  consider "s = []" | a where "s = [a]" | a b where "s = [a, b]" | a b c t where "s = a # b # c # t"
    by (metis neq_Nil_conv)
  note cases_s = this
  show "space_prefix s = 0 \<Longrightarrow> space_prefix (collapse s) = 0"
    by (rule cases_s) (auto simp: space_prefix_Cons split: if_splits list.splits)
  show "space_prefix_rev s = 0 \<Longrightarrow> space_prefix_rev (collapse s) = 0"
    by (rule cases_s) (auto simp: space_prefix_rev_Cons split: if_splits list.splits)
qed

lemma TrimSpace_collapse: "TrimSpace s = s \<Longrightarrow> TrimSpace (collapse s) = collapse s"
  using TrimSpace_no_left [of s] TrimSpace_no_right [of s]
  by (intro TrimSpace_id) (auto simp: space_prefix_collapse collapse_rev [symmetric])

text \<open>The name under which a row is stored is the name under which it is looked up again.\<close>

lemma NormalizeName_idem [simp]: "NormalizeName eco (NormalizeName eco name) = NormalizeName eco name"
  by (simp add: NormalizeName_def Let_def TrimSpace_ToLower ToLower_collapse TrimSpace_collapse)

end
