(* ===== verification/FindingStore.thy ===== *)
theory FindingStore
  imports DevStore PackageNames Ranges Domain
begin

text \<open>
  Advisories in the in-memory store: vulnerabilities and malicious findings
  (\<open>internal/devstore/noop_findings.go\<close>), operator-managed advisories
  (\<open>noop_manual_advisories.go\<close>, \<open>internal/db/manual_advisory.go\<close>), the export for local databases
  (\<open>noop_sync.go\<close>) and the feed statuses an import writes with its rows (\<open>noop_feeds.go\<close>).

  The lemmas show that every operation keeps the tables consistent (a row is stored under its own
  identifier and canonical names, and an identifier is never live and withdrawn at once), that
  matching fails closed, that operations scoped to a source leave other sources alone, and that an
  advisory written by an operator is read back.
\<close>

section \<open>Matching versions\<close>

definition normalizeVersionConstraintJSONField :: "gostring \<Rightarrow> gostring" where
  "normalizeVersionConstraintJSONField raw =
     (let trimmed = TrimSpace raw in if trimmed = [] \<or> trimmed = ''null'' then ''[]'' else trimmed)"

definition NormalizeVersionConstraintJSON :: "gostring \<Rightarrow> gostring \<Rightarrow> gostring \<times> gostring" where
  "NormalizeVersionConstraintJSON versionRangesJSON versionsJSON =
     (normalizeVersionConstraintJSONField versionRangesJSON, normalizeVersionConstraintJSONField versionsJSON)"

definition noopVulnerabilityAffectsVersion :: "gostring \<Rightarrow> gostring \<Rightarrow> gostring \<Rightarrow> gostring \<Rightarrow> bool" where
  "noopVulnerabilityAffectsVersion ecosystem version rangesJSON versionsJSON =
     (if TrimSpace version = [] then True
      else let (rangesJSON, versionsJSON) = NormalizeVersionConstraintJSON rangesJSON versionsJSON;
               (affected, err) = VersionAffected version rangesJSON versionsJSON ecosystem
           in if err \<noteq> None then True else affected)"

definition noopMaliciousAffectsVersion :: "gostring \<Rightarrow> gostring \<Rightarrow> gostring \<Rightarrow> gostring \<Rightarrow> bool" where
  "noopMaliciousAffectsVersion ecosystem version rangesJSON versionsJSON =
     (if TrimSpace version = [] then True
      else let (rangesJSON, versionsJSON) = NormalizeVersionConstraintJSON rangesJSON versionsJSON;
               (affected, err) = VersionAffected version rangesJSON versionsJSON ecosystem
           in if err \<noteq> None then True else affected)"

section \<open>Looking up findings\<close>

definition vulnerability_finding :: "gostring \<Rightarrow> gostring \<Rightarrow> gostring \<Rightarrow> Vulnerability \<Rightarrow> AffectedPackage \<Rightarrow> Finding" where
  "vulnerability_finding ecosystem name version vuln pkg =
     \<lparr>f_Name = name, f_Version = version, f_Ecosystem = ecosystem, f_Type = FindingTypeVulnerability,
      f_Severity = ToUpper (TrimSpace (v_Severity vuln)), f_AdvisoryID = v_ID vuln,
      f_Title = (if v_Summary vuln = [] then v_ID vuln else v_Summary vuln), f_URL = [], f_Resources = [],
      f_FixedVersion = ExtractFixedVersionConstraintFor version (ap_VersionRanges pkg) ecosystem,
      f_RiskType = [],
      f_Source = (if v_Sources vuln \<noteq> [] \<and> TrimSpace (vs_Source (hd (v_Sources vuln))) \<noteq> []
                  then vs_Source (hd (v_Sources vuln)) else ''unknown''),
      f_Locations = []\<rparr>"

definition FindVulnerabilities :: "gostring \<Rightarrow> gostring \<Rightarrow> gostring \<Rightarrow> Store \<Rightarrow> Finding list" where
  "FindVulnerabilities ecosystem name version st =
     (let name = NormalizeName ecosystem name in
      concat (map (\<lambda>(k, vuln).
        map (vulnerability_finding ecosystem name version vuln)
          (filter (\<lambda>pkg. \<not> (ap_Ecosystem pkg \<noteq> ecosystem \<or> ap_Name pkg \<noteq> name) \<and>
             noopVulnerabilityAffectsVersion (ap_Ecosystem pkg) version (ap_VersionRanges pkg) (ap_VersionsAffected pkg))
            (v_AffectedPackages vuln))) (vulnerable st)))"

definition malicious_finding :: "gostring \<Rightarrow> MaliciousFinding \<Rightarrow> Finding" where
  "malicious_finding version mf =
     \<lparr>f_Name = mf_Name mf, f_Version = version, f_Ecosystem = mf_Ecosystem mf, f_Type = FindingTypeMalicious,
      f_Severity = mf_Severity mf, f_AdvisoryID = mf_ID mf,
      f_Title = (if mf_Summary mf = [] then ''manual advisory for '' @ mf_Name mf else mf_Summary mf),
      f_URL = [], f_Resources = [], f_FixedVersion = [], f_RiskType = mf_RiskType mf, f_Source = mf_Source mf,
      f_Locations = []\<rparr>"

definition FindMalicious :: "gostring \<Rightarrow> gostring \<Rightarrow> gostring \<Rightarrow> Store \<Rightarrow> Finding list" where
  "FindMalicious ecosystem name version st =
     (let name = NormalizeName ecosystem name in
      map (\<lambda>(k, mf). malicious_finding version mf)
        (filter (\<lambda>(k, mf). \<not> (mf_Ecosystem mf \<noteq> ecosystem \<or> mf_Name mf \<noteq> name) \<and>
           noopMaliciousAffectsVersion (mf_Ecosystem mf) version (mf_VersionRanges mf) (mf_Versions mf))
          (malicious st)))"

record db_PackageQuery =
  dq_Ecosystem :: gostring
  dq_Name :: gostring
  dq_Version :: gostring

definition FindVulnerabilitiesBatch :: "db_PackageQuery list \<Rightarrow> Store \<Rightarrow> Finding list" where
  "FindVulnerabilitiesBatch packages st =
     concat (map (\<lambda>pkg. FindVulnerabilities (dq_Ecosystem pkg) (dq_Name pkg) (dq_Version pkg) st) packages)"

definition FindMaliciousBatch :: "db_PackageQuery list \<Rightarrow> Store \<Rightarrow> Finding list" where
  "FindMaliciousBatch packages st =
     concat (map (\<lambda>pkg. FindMalicious (dq_Ecosystem pkg) (dq_Name pkg) (dq_Version pkg) st) packages)"

section \<open>Writing advisories\<close>

definition normalize_affected :: "AffectedPackage \<Rightarrow> AffectedPackage" where
  "normalize_affected pkg = pkg\<lparr>ap_Name := NormalizeName (ap_Ecosystem pkg) (ap_Name pkg)\<rparr>"

definition upsertVulnerabilityLocked :: "Vulnerability option \<Rightarrow> Store \<Rightarrow> unit outcome" where
  "upsertVulnerabilityLocked vuln st =
     (case vuln of
        None \<Rightarrow> (Ok (), st)
      | Some v \<Rightarrow>
          if TrimSpace (v_ID v) = [] then (Ok (), st)
          else let v = v\<lparr>v_AffectedPackages := map normalize_affected (v_AffectedPackages v)\<rparr> in
            (Ok (), st\<lparr>vulnerable := AList.update (v_ID v) v (vulnerable st)\<rparr>))"

definition UpsertVulnerability :: "Vulnerability option \<Rightarrow> Store \<Rightarrow> unit outcome" where
  "UpsertVulnerability vuln st = upsertVulnerabilityLocked vuln st"

definition upsertMaliciousFindingLocked :: "MaliciousFinding option \<Rightarrow> Store \<Rightarrow> unit outcome" where
  "upsertMaliciousFindingLocked mf st =
     (case mf of
        None \<Rightarrow> (Err (Errorf ''devstore: malicious finding is nil''), st)
      | Some m \<Rightarrow>
          (let (m, st) = (if mf_ID m = []
                 then (m\<lparr>mf_ID := ManualAdvisoryIDPrefix @ Itoa (nextManualID st + 1)\<rparr>,
                       st\<lparr>nextManualID := nextManualID st + 1\<rparr>)
                 else (m, st));
               m = (if mf_Source m = [] then m\<lparr>mf_Source := ManualAdvisorySource\<rparr> else m);
               m = m\<lparr>mf_Name := NormalizeName (mf_Ecosystem m) (mf_Name m)\<rparr>
           in (Ok (), st\<lparr>malicious := AList.update (mf_ID m) m (malicious st),
                         maliciousDel := AList.delete (mf_ID m) (maliciousDel st)\<rparr>)))"

definition UpsertMaliciousFinding :: "MaliciousFinding option \<Rightarrow> Store \<Rightarrow> unit outcome" where
  "UpsertMaliciousFinding mf st = upsertMaliciousFindingLocked mf st"

definition noopMaliciousTombstone :: "MaliciousFinding \<Rightarrow> SyncMalicious" where
  "noopMaliciousTombstone finding =
     \<lparr>sm_ID = mf_ID finding, sm_Ecosystem = mf_Ecosystem finding, sm_Name = mf_Name finding,
      sm_VersionRanges = mf_VersionRanges finding, sm_Versions = mf_Versions finding,
      sm_ReferenceURLs = mf_ReferenceURLs finding, sm_RiskType = mf_RiskType finding,
      sm_Severity = mf_Severity finding, sm_Summary = mf_Summary finding, sm_Source = mf_Source finding,
      sm_Withdrawn = True\<rparr>"

text \<open>Withdrawing a finding, as every deletion does it: leave a tombstone, drop the row.\<close>

definition withdraw :: "gostring \<Rightarrow> MaliciousFinding \<Rightarrow> Store \<Rightarrow> Store" where
  "withdraw i finding st =
     st\<lparr>maliciousDel := AList.update i (noopMaliciousTombstone finding) (maliciousDel st),
        malicious := AList.delete i (malicious st)\<rparr>"

definition DeleteVulnerability :: "gostring \<Rightarrow> Store \<Rightarrow> unit outcome" where
  "DeleteVulnerability i st = (Ok (), st\<lparr>vulnerable := AList.delete i (vulnerable st)\<rparr>)"

definition deleteVulnerabilityForSourceLocked :: "gostring \<Rightarrow> gostring \<Rightarrow> Store \<Rightarrow> unit outcome" where
  "deleteVulnerabilityForSourceLocked i source st =
     (let source = TrimSpace source in
      if source = []
      then (Err (ErrSourceScopedDeleteSourceRequired ''devstore: source-scoped vulnerability delete requires source''), st)
      else case map_of (vulnerable st) i of
             None \<Rightarrow> (Ok (), st)
           | Some vuln \<Rightarrow>
               (let keptSources = filter (\<lambda>item. TrimSpace (vs_Source item) \<noteq> source) (v_Sources vuln) in
                if length keptSources = length (v_Sources vuln) then (Ok (), st)
                else if length keptSources = 0 then (Ok (), st\<lparr>vulnerable := AList.delete i (vulnerable st)\<rparr>)
                else (Ok (), st\<lparr>vulnerable := AList.update i (vuln\<lparr>v_Sources := keptSources\<rparr>) (vulnerable st)\<rparr>)))"

definition DeleteVulnerabilityForSource :: "gostring \<Rightarrow> gostring \<Rightarrow> Store \<Rightarrow> unit outcome" where
  "DeleteVulnerabilityForSource i source st = deleteVulnerabilityForSourceLocked i source st"

definition DeleteMaliciousFinding :: "gostring \<Rightarrow> Store \<Rightarrow> unit outcome" where
  "DeleteMaliciousFinding i st =
     (Ok (), case map_of (malicious st) i of None \<Rightarrow> st | Some finding \<Rightarrow> withdraw i finding st)"

definition DeleteMaliciousFindingForSource :: "gostring \<Rightarrow> gostring \<Rightarrow> Store \<Rightarrow> unit outcome" where
  "DeleteMaliciousFindingForSource i source st =
     (let source = TrimSpace source in
      if source = []
      then (Err (ErrSourceScopedDeleteSourceRequired ''devstore: source-scoped malicious finding delete requires source''), st)
      else case map_of (malicious st) i of
             None \<Rightarrow> (Ok (), st)
           | Some finding \<Rightarrow>
               if TrimSpace (mf_Source finding) \<noteq> source then (Ok (), st) else (Ok (), withdraw i finding st))"

fun prune_loop :: "gostring \<Rightarrow> gostring list \<Rightarrow> (gostring \<times> MaliciousFinding) list \<Rightarrow> nat \<Rightarrow> Store \<Rightarrow> nat \<times> Store" where
  "prune_loop source ids [] pruned st = (pruned, st)"
| "prune_loop source ids ((i, finding) # rest) pruned st =
     (if mf_Source finding \<noteq> source then prune_loop source ids rest pruned st
      else if i \<in> set ids then prune_loop source ids rest pruned st
      else prune_loop source ids rest (pruned + 1) (withdraw i finding st))"

definition DeleteMaliciousFindingsNotInSource :: "gostring \<Rightarrow> gostring list \<Rightarrow> Store \<Rightarrow> nat outcome" where
  "DeleteMaliciousFindingsNotInSource source ids st =
     (case prune_loop source ids (malicious st) 0 st of (pruned, st') \<Rightarrow> (Ok pruned, st'))"

definition ListMaliciousFindings :: "gostring \<Rightarrow> int \<Rightarrow> Store \<Rightarrow> MaliciousFinding list" where
  "ListMaliciousFindings source limit st =
     (let out = filter (\<lambda>f. \<not> (source \<noteq> [] \<and> mf_Source f \<noteq> source)) (map snd (malicious st));
          out = rev (sort_key mf_ID (rev out))
      in if limit > 0 \<and> int (length out) > limit then take (nat limit) out else out)"

section \<open>Importing feeds\<close>

definition upsertFeedSyncStatusLocked :: "gotime \<Rightarrow> FeedSyncStatus option \<Rightarrow> Store \<Rightarrow> unit outcome" where
  "upsertFeedSyncStatusLocked now status st =
     (case status of
        None \<Rightarrow> (Ok (), st)
      | Some s \<Rightarrow>
          if TrimSpace (fs_FeedName s) = [] then (Ok (), st)
          else let s = (if IsZero (fs_UpdatedAt s) then s\<lparr>fs_UpdatedAt := now\<rparr> else s) in
            (Ok (), st\<lparr>feedStatuses := AList.update (fs_FeedName s) s (feedStatuses st)\<rparr>))"

text \<open>An import stops at the first row that fails and keeps what it wrote before.\<close>

fun import_loop :: "('a \<Rightarrow> Store \<Rightarrow> unit outcome) \<Rightarrow> 'a list \<Rightarrow> nat \<Rightarrow> Store \<Rightarrow> (StoreError option \<times> nat) \<times> Store" where
  "import_loop step [] n st = ((None, n), st)"
| "import_loop step (x # xs) n st =
     (case step x st of
        (Err e, st') \<Rightarrow> ((Some e, n), st')
      | (Ok _, st') \<Rightarrow> import_loop step xs (n + 1) st')"

text \<open>The counts and the error of an import are returned together, so the outcome carries both.\<close>

type_synonym import_result = "(nat \<times> nat) \<times> StoreError option"

definition write_status :: "gotime \<Rightarrow> FeedSyncStatus option \<Rightarrow> nat \<Rightarrow> nat \<Rightarrow> Store \<Rightarrow> import_result \<times> Store" where
  "write_status now status imported deleted st =
     (case status of
        None \<Rightarrow> (((imported, deleted), None), st)
      | Some s \<Rightarrow>
          (case upsertFeedSyncStatusLocked now (Some s) st of
             (Err e, st') \<Rightarrow> (((imported, deleted), Some e), st')
           | (Ok _, st') \<Rightarrow> (((imported, deleted), None), st')))"

definition importVulnerabilityFeedLocked ::
    "gotime \<Rightarrow> gostring \<Rightarrow> Vulnerability list \<Rightarrow> gostring list \<Rightarrow> FeedSyncStatus option \<Rightarrow> Store \<Rightarrow> import_result \<times> Store" where
  "importVulnerabilityFeedLocked now feed items deleteIDs status st =
     (case import_loop (\<lambda>v. upsertVulnerabilityLocked (Some v)) items 0 st of
        ((Some e, imported), st) \<Rightarrow> (((imported, 0), Some e), st)
      | ((None, imported), st) \<Rightarrow>
          (case import_loop (\<lambda>i. deleteVulnerabilityForSourceLocked i feed) deleteIDs 0 st of
             ((Some e, deleted), st) \<Rightarrow> (((imported, deleted), Some e), st)
           | ((None, deleted), st) \<Rightarrow> write_status now status imported deleted st))"

definition delete_malicious_for_feed :: "gostring \<Rightarrow> gostring \<Rightarrow> Store \<Rightarrow> unit outcome" where
  "delete_malicious_for_feed feed i st =
     (Ok (), case map_of (malicious st) i of
               None \<Rightarrow> st
             | Some finding \<Rightarrow> if feed = [] \<or> mf_Source finding = feed then withdraw i finding st else st)"

definition importMaliciousFeedLocked ::
    "gotime \<Rightarrow> gostring \<Rightarrow> MaliciousFinding list \<Rightarrow> gostring list \<Rightarrow> FeedSyncStatus option \<Rightarrow> Store \<Rightarrow> import_result \<times> Store" where
  "importMaliciousFeedLocked now feed items deleteIDs status st =
     (case import_loop (\<lambda>m. upsertMaliciousFindingLocked (Some m)) items 0 st of
        ((Some e, imported), st) \<Rightarrow> (((imported, 0), Some e), st)
      | ((None, imported), st) \<Rightarrow>
          (case import_loop (delete_malicious_for_feed feed) deleteIDs 0 st of
             ((_, deleted), st) \<Rightarrow> write_status now status imported deleted st))"

definition audit_import ::
    "DevEnv \<Rightarrow> gotime \<Rightarrow> (nat \<Rightarrow> nat \<Rightarrow> AdminAuditEntry) option \<Rightarrow> import_result \<times> Store \<Rightarrow> import_result \<times> Store" where
  "audit_import env now audit r =
     (case r of (((imported, deleted), err), st) \<Rightarrow>
        if err \<noteq> None then (((imported, deleted), err), st)
        else (((imported, deleted), None),
              case audit of
                None \<Rightarrow> st
              | Some build \<Rightarrow> insertAdminAuditLogLocked env now (Some (build imported deleted)) st))"

definition ImportVulnerabilityFeedWithAudit ::
    "DevEnv \<Rightarrow> gotime \<Rightarrow> gostring \<Rightarrow> Vulnerability list \<Rightarrow> gostring list \<Rightarrow> FeedSyncStatus option
     \<Rightarrow> (nat \<Rightarrow> nat \<Rightarrow> AdminAuditEntry) option \<Rightarrow> Store \<Rightarrow> import_result \<times> Store" where
  "ImportVulnerabilityFeedWithAudit env now feed items deleteIDs status audit st =
     audit_import env now audit (importVulnerabilityFeedLocked now feed items deleteIDs status st)"

definition ImportMaliciousFeedWithAudit ::
    "DevEnv \<Rightarrow> gotime \<Rightarrow> gostring \<Rightarrow> MaliciousFinding list \<Rightarrow> gostring list \<Rightarrow> FeedSyncStatus option
     \<Rightarrow> (nat \<Rightarrow> nat \<Rightarrow> AdminAuditEntry) option \<Rightarrow> Store \<Rightarrow> import_result \<times> Store" where
  "ImportMaliciousFeedWithAudit env now feed items deleteIDs status audit st =
     audit_import env now audit (importMaliciousFeedLocked now feed items deleteIDs status st)"

section \<open>Operator-managed advisories\<close>

record ManualAdvisory =
  ma_ID :: gostring
  ma_FindingType :: gostring
  ma_Ecosystem :: gostring
  ma_Name :: gostring
  ma_Severity :: gostring
  ma_RiskType :: gostring
  ma_Summary :: gostring
  ma_Description :: gostring
  ma_UpdatedAt :: gotime

definition normalizeManualAdvisoryEcosystem :: "gostring \<Rightarrow> gostring option" where
  "normalizeManualAdvisoryEcosystem ecosystem =
     (let normalized = ToLower (TrimSpace ecosystem) in if \<not> Ecosystem_Valid normalized then None else Some normalized)"

definition normalizeManualAdvisoryRiskType :: "gostring \<Rightarrow> gostring option" where
  "normalizeManualAdvisoryRiskType riskType =
     (let r = ToLower (TrimSpace riskType) in
      if r = [] then Some ''malware''
      else if r = ''malware'' then Some ''malware''
      else if r \<in> {''supply_chain'', ''supply-chain'', ''supply chain''} then Some ''supply_chain''
      else if r \<in> {''typosquatting'', ''typosquat'', ''typo-squatting''} then Some ''typosquatting''
      else None)"

definition manual_severity :: "gostring \<Rightarrow> gostring \<Rightarrow> gostring" where
  "manual_severity fallback severity = (let s = ToUpper (TrimSpace severity) in if s = [] then fallback else s)"

definition manual_ecosystem :: "gostring \<Rightarrow> gostring" where
  "manual_ecosystem ecosystem =
     (case normalizeManualAdvisoryEcosystem ecosystem of Some e \<Rightarrow> e | None \<Rightarrow> TrimSpace ecosystem)"

definition ManualAdvisoryToVulnerability :: "gotime \<Rightarrow> ManualAdvisory \<Rightarrow> Vulnerability" where
  "ManualAdvisoryToVulnerability now advisory =
     (let i = TrimSpace (ma_ID advisory) in
      \<lparr>v_ID = i, v_Summary = TrimSpace (ma_Summary advisory), v_Details = TrimSpace (ma_Description advisory),
       v_Severity = manual_severity ''UNKNOWN'' (ma_Severity advisory), v_CVSSScore = None, v_EPSSScore = None,
       v_EPSSPercentile = None, v_CISAKEV = False, v_ExploitExists = False, v_Published = now, v_Modified = now,
       v_Withdrawn = None, v_Aliases = [i],
       v_Sources = [\<lparr>vs_Source = ManualAdvisorySource, vs_SourceID = i, vs_URL = [],
         vs_RawJSON = marshal_string_map [(''finding_type'', ''vulnerability''), (''created_by'', ''admin'')]\<rparr>],
       v_References = [],
       v_AffectedPackages = [\<lparr>ap_Ecosystem = manual_ecosystem (ma_Ecosystem advisory),
         ap_Name = TrimSpace (ma_Name advisory), ap_VersionRanges = ''[]'', ap_VersionsAffected = ''[]''\<rparr>]\<rparr>)"

definition ManualAdvisoryToMaliciousFinding :: "ManualAdvisory \<Rightarrow> MaliciousFinding" where
  "ManualAdvisoryToMaliciousFinding advisory =
     \<lparr>mf_ID = TrimSpace (ma_ID advisory), mf_Ecosystem = manual_ecosystem (ma_Ecosystem advisory),
      mf_Name = TrimSpace (ma_Name advisory), mf_VersionRanges = [], mf_Versions = [],
      mf_Source = ManualAdvisorySource,
      mf_RiskType = (case normalizeManualAdvisoryRiskType (ma_RiskType advisory) of
        Some r \<Rightarrow> r | None \<Rightarrow> TrimSpace (ma_RiskType advisory)),
      mf_Severity = manual_severity ''CRITICAL'' (ma_Severity advisory),
      mf_Summary = TrimSpace (ma_Summary advisory), mf_Description = TrimSpace (ma_Description advisory),
      mf_ReferenceURLs = [], mf_OriginRef = [], mf_Published = None, mf_CreatedBy = ''admin''\<rparr>"

definition vulnerabilityHasManualSource :: "Vulnerability \<Rightarrow> bool" where
  "vulnerabilityHasManualSource vuln \<longleftrightarrow> (\<exists>source \<in> set (v_Sources vuln). vs_Source source = ManualAdvisorySource)"

text \<open>The quotation marks around the type in the error message are those of the format \<open>%q\<close> for plain text.\<close>

definition upsertManualAdvisoryLocked :: "gotime \<Rightarrow> ManualAdvisory \<Rightarrow> Store \<Rightarrow> unit outcome" where
  "upsertManualAdvisoryLocked now advisory st =
     (case ParseManualAdvisoryFindingType (ma_FindingType advisory) of
        None \<Rightarrow> (Err (Errorf (''manual advisory finding type '' @ CHR 0x22 # ma_FindingType advisory @ CHR 0x22 # '' is not supported'')), st)
      | Some findingType \<Rightarrow>
          if findingType = FindingTypeMalicious
          then let finding = ManualAdvisoryToMaliciousFinding advisory;
                   finding = finding\<lparr>mf_Name := NormalizeName (mf_Ecosystem finding) (mf_Name finding)\<rparr>
               in (Ok (), st\<lparr>malicious := AList.update (mf_ID finding) finding (malicious st),
                             maliciousDel := AList.delete (mf_ID finding) (maliciousDel st),
                             vulnerable := AList.delete (ma_ID advisory) (vulnerable st)\<rparr>)
          else let v = ManualAdvisoryToVulnerability now advisory;
                   v = v\<lparr>v_AffectedPackages := map normalize_affected (v_AffectedPackages v)\<rparr>;
                   st = st\<lparr>vulnerable := AList.update (v_ID v) v (vulnerable st)\<rparr>
               in (Ok (), case map_of (malicious st) (ma_ID advisory) of
                            None \<Rightarrow> st
                          | Some finding \<Rightarrow> if mf_Source finding = ManualAdvisorySource
                                           then withdraw (ma_ID advisory) finding st else st))"

definition UpsertManualAdvisory :: "gotime \<Rightarrow> ManualAdvisory option \<Rightarrow> Store \<Rightarrow> unit outcome" where
  "UpsertManualAdvisory now advisory st =
     (case advisory of None \<Rightarrow> (Ok (), st) | Some a \<Rightarrow> upsertManualAdvisoryLocked now a st)"

definition UpsertManualAdvisoryWithAudit ::
    "DevEnv \<Rightarrow> gotime \<Rightarrow> ManualAdvisory option \<Rightarrow> AdminAuditEntry option \<Rightarrow> Store \<Rightarrow> unit outcome" where
  "UpsertManualAdvisoryWithAudit env now advisory audit st =
     (case advisory of
        None \<Rightarrow> (Ok (), st)
      | Some a \<Rightarrow> upsertManualAdvisoryLocked now a (insertAdminAuditLogLocked env now audit st))"

definition deleteManualAdvisoryLocked :: "gostring \<Rightarrow> Store \<Rightarrow> unit outcome" where
  "deleteManualAdvisoryLocked i st =
     (let (deleted, st) = (case map_of (malicious st) i of
            Some finding \<Rightarrow> if mf_Source finding = ManualAdvisorySource then (True, withdraw i finding st) else (False, st)
          | None \<Rightarrow> (False, st));
          (deleted, st) = (case map_of (vulnerable st) i of
            Some vuln \<Rightarrow> if vulnerabilityHasManualSource vuln
                         then (True, st\<lparr>vulnerable := AList.delete i (vulnerable st)\<rparr>) else (deleted, st)
          | None \<Rightarrow> (deleted, st))
      in if \<not> deleted then (Err (Errorf (''manual advisory '' @ i @ '' not found'')), st) else (Ok (), st))"

definition malicious_advisory :: "MaliciousFinding \<Rightarrow> ManualAdvisory" where
  "malicious_advisory finding =
     \<lparr>ma_ID = mf_ID finding, ma_FindingType = ''malicious'', ma_Ecosystem = mf_Ecosystem finding,
      ma_Name = mf_Name finding, ma_Severity = mf_Severity finding, ma_RiskType = mf_RiskType finding,
      ma_Summary = mf_Summary finding, ma_Description = mf_Description finding, ma_UpdatedAt = 0\<rparr>"

definition vulnerability_advisory :: "Vulnerability \<Rightarrow> AffectedPackage \<Rightarrow> ManualAdvisory" where
  "vulnerability_advisory vuln pkg =
     \<lparr>ma_ID = v_ID vuln, ma_FindingType = ''vulnerability'', ma_Ecosystem = ap_Ecosystem pkg,
      ma_Name = ap_Name pkg, ma_Severity = v_Severity vuln, ma_RiskType = [],
      ma_Summary = v_Summary vuln, ma_Description = v_Details vuln, ma_UpdatedAt = 0\<rparr>"

definition manualAdvisoryByIDLocked :: "gostring \<Rightarrow> Store \<Rightarrow> ManualAdvisory option" where
  "manualAdvisoryByIDLocked i st =
     (case map_of (malicious st) i of
        Some finding \<Rightarrow>
          if mf_Source finding = ManualAdvisorySource then Some (malicious_advisory finding)
          else (case map_of (vulnerable st) i of
                  Some vuln \<Rightarrow> if vulnerabilityHasManualSource vuln \<and> v_AffectedPackages vuln \<noteq> []
                               then Some (vulnerability_advisory vuln (hd (v_AffectedPackages vuln))) else None
                | None \<Rightarrow> None)
      | None \<Rightarrow>
          (case map_of (vulnerable st) i of
             Some vuln \<Rightarrow> if vulnerabilityHasManualSource vuln \<and> v_AffectedPackages vuln \<noteq> []
                          then Some (vulnerability_advisory vuln (hd (v_AffectedPackages vuln))) else None
           | None \<Rightarrow> None))"

definition GetManualAdvisory :: "gostring \<Rightarrow> Store \<Rightarrow> ManualAdvisory option" where
  "GetManualAdvisory i st = manualAdvisoryByIDLocked i st"

definition DeleteManualAdvisory :: "gostring \<Rightarrow> Store \<Rightarrow> unit outcome" where
  "DeleteManualAdvisory i st = deleteManualAdvisoryLocked i st"

definition DeleteManualAdvisoryWithAudit ::
    "DevEnv \<Rightarrow> gotime \<Rightarrow> gostring \<Rightarrow> AdminAuditEntry option \<Rightarrow> Store \<Rightarrow> unit outcome" where
  "DeleteManualAdvisoryWithAudit env now i audit st =
     (case manualAdvisoryByIDLocked i st of
        None \<Rightarrow> (Err (Errorf (''manual advisory '' @ i @ '' not found'')), st)
      | Some _ \<Rightarrow> deleteManualAdvisoryLocked i (insertAdminAuditLogLocked env now audit st))"

text \<open>Descending identifiers, then ascending types: a stable sort by type, then by identifier backwards.\<close>

definition page_from :: "int \<Rightarrow> int \<Rightarrow> 'a list \<Rightarrow> 'a list" where
  "page_from limit offset out =
     (let offset = (if offset < 0 then 0 else offset) in
      if offset \<ge> int (length out) then []
      else let out = drop (nat offset) out in
        if limit > 0 \<and> int (length out) > limit then take (nat limit) out else out)"

definition ListManualAdvisoriesPage :: "int \<Rightarrow> int \<Rightarrow> Store \<Rightarrow> ManualAdvisory list" where
  "ListManualAdvisoriesPage limit offset st =
     (let out = map malicious_advisory (filter (\<lambda>f. mf_Source f = ManualAdvisorySource) (map snd (malicious st))) @
                concat (map (\<lambda>v. map (vulnerability_advisory v) (v_AffectedPackages v))
                  (filter vulnerabilityHasManualSource (map snd (vulnerable st))))
      in page_from limit offset (rev (sort_key ma_ID (rev (sort_key ma_FindingType out)))))"

section \<open>Export for local databases\<close>

record SyncExportOptions =
  so_Since :: "gotime option"
  so_SnapshotAt :: gotime
  so_Ecosystems :: "gostring list"

definition live_row :: "MaliciousFinding \<Rightarrow> SyncMalicious" where
  "live_row finding = (noopMaliciousTombstone finding)\<lparr>sm_Withdrawn := False\<rparr>"

definition in_scope :: "gostring list \<Rightarrow> gostring \<Rightarrow> bool" where
  "in_scope ecosystems eco \<longleftrightarrow> \<not> (0 < length ecosystems \<and> eco \<notin> set ecosystems)"

definition ExportSync :: "gotime \<Rightarrow> SyncExportOptions \<Rightarrow> Store \<Rightarrow> gotime \<times> SyncMalicious list" where
  "ExportSync now opts st =
     (let snapshot = (if IsZero (so_SnapshotAt opts) then now else so_SnapshotAt opts);
          ecosystems = map TrimSpace (so_Ecosystems opts);
          live = map live_row (filter (\<lambda>f. in_scope ecosystems (mf_Ecosystem f)) (map snd (malicious st)));
          gone = (if so_Since opts = None then []
                  else filter (\<lambda>t. in_scope ecosystems (sm_Ecosystem t)) (map snd (maliciousDel st)))
      in (snapshot, sort_key (\<lambda>m. (sm_Ecosystem m, sm_Name m, sm_ID m)) (live @ gone)))"

section \<open>Tables\<close>

text \<open>
  What the store relies on for its tables: a put is seen by a lookup of its key, a deletion hides
  it, and no other key is touched. An invariant on rows is then kept by putting a good row and by
  deleting any.
\<close>

locale keyed_table =
  fixes lookup :: "'t \<Rightarrow> 'k \<Rightarrow> 'v option"
    and put :: "'k \<Rightarrow> 'v \<Rightarrow> 't \<Rightarrow> 't"
    and del :: "'k \<Rightarrow> 't \<Rightarrow> 't"
    and valid :: "'t \<Rightarrow> bool"
  assumes lookup_put: "lookup (put k v t) k' = (if k' = k then Some v else lookup t k')"
    and lookup_del: "lookup (del k t) k' = (if k' = k then None else lookup t k')"
    and valid_put: "valid t \<Longrightarrow> valid (put k v t)"
    and valid_del: "valid t \<Longrightarrow> valid (del k t)"
begin

lemma all_rows_put:
  "(\<And>k v. lookup t k = Some v \<Longrightarrow> P k v) \<Longrightarrow> P k v \<Longrightarrow> lookup (put k v t) k' = Some v' \<Longrightarrow> P k' v'"
  by (auto simp: lookup_put split: if_splits)

lemma all_rows_del:
  "(\<And>k v. lookup t k = Some v \<Longrightarrow> P k v) \<Longrightarrow> lookup (del k t) k' = Some v' \<Longrightarrow> P k' v'"
  by (auto simp: lookup_del split: if_splits)

lemma del_put_same: "lookup (del k (put k v t)) = lookup (del k t)"
  by (rule ext) (simp add: lookup_put lookup_del)

lemma put_put_other: "k \<noteq> k' \<Longrightarrow> lookup (put k v (put k' v' t)) = lookup (put k' v' (put k v t))"
  by (rule ext) (simp add: lookup_put)

end

interpretation tbl: keyed_table map_of AList.update AList.delete "\<lambda>m. distinct (map fst m)"
proof
  fix k k' v and m :: "('a \<times> 'b) list"
  show "map_of (AList.update k v m) k' = (if k' = k then Some v else map_of m k')"
    by (simp add: AList.update_conv')
  show "map_of (AList.delete k m) k' = (if k' = k then None else map_of m k')"
    by (simp add: AList.delete_conv')
  show "distinct (map fst m) \<Longrightarrow> distinct (map fst (AList.update k v m))"
    by (rule AList.distinct_update)
  show "distinct (map fst m) \<Longrightarrow> distinct (map fst (AList.delete k m))"
    by (rule AList.distinct_delete)
qed

definition rows_ok :: "(gostring \<Rightarrow> 'v \<Rightarrow> bool) \<Rightarrow> (gostring \<times> 'v) list \<Rightarrow> bool" where
  "rows_ok P m \<longleftrightarrow> distinct (map fst m) \<and> (\<forall>k v. map_of m k = Some v \<longrightarrow> P k v)"

lemma rows_ok_Nil [simp]: "rows_ok P []"
  by (simp add: rows_ok_def)

lemma rows_ok_put:
  assumes "rows_ok P m" and "P k v"
  shows "rows_ok P (AList.update k v m)"
  using assms tbl.all_rows_put [where t = m and P = P and k = k and v = v]
  by (simp add: rows_ok_def tbl.valid_put)

lemma rows_ok_del:
  assumes "rows_ok P m"
  shows "rows_ok P (AList.delete k m)"
  using assms tbl.all_rows_del [where t = m and P = P and k = k]
  by (simp add: rows_ok_def tbl.valid_del)

lemma rows_okD: "rows_ok P m \<Longrightarrow> map_of m k = Some v \<Longrightarrow> P k v"
  by (simp add: rows_ok_def)

lemma rows_ok_set: "rows_ok P m \<Longrightarrow> (k, v) \<in> set m \<Longrightarrow> P k v \<and> map_of m k = Some v"
  by (simp add: rows_ok_def)

section \<open>The invariant\<close>

definition vulnerability_ok :: "gostring \<Rightarrow> Vulnerability \<Rightarrow> bool" where
  "vulnerability_ok k v \<longleftrightarrow> k = v_ID v \<and>
     list_all (\<lambda>p. NormalizeName (ap_Ecosystem p) (ap_Name p) = ap_Name p) (v_AffectedPackages v)"

definition malicious_ok :: "gostring \<Rightarrow> MaliciousFinding \<Rightarrow> bool" where
  "malicious_ok k m \<longleftrightarrow> k = mf_ID m \<and> NormalizeName (mf_Ecosystem m) (mf_Name m) = mf_Name m \<and> mf_Source m \<noteq> []"

definition tombstone_ok :: "gostring \<Rightarrow> SyncMalicious \<Rightarrow> bool" where
  "tombstone_ok k t \<longleftrightarrow> k = sm_ID t \<and> sm_Withdrawn t"

definition tables_ok :: "Store \<Rightarrow> bool" where
  "tables_ok st \<longleftrightarrow> rows_ok vulnerability_ok (vulnerable st) \<and> rows_ok malicious_ok (malicious st) \<and>
     rows_ok tombstone_ok (maliciousDel st) \<and>
     (\<forall>k. map_of (malicious st) k = None \<or> map_of (maliciousDel st) k = None)"

text \<open>The identifiers the store has ever seen live, and what an operation keeps of them.\<close>

definition known :: "Store \<Rightarrow> gostring set" where
  "known st = dom (map_of (malicious st)) \<union> dom (map_of (maliciousDel st))"

definition evolved :: "gostring set \<Rightarrow> Store \<Rightarrow> bool" where
  "evolved K st \<longleftrightarrow> tables_ok st \<and> K \<subseteq> known st"

lemma evolved_cong:
  assumes "vulnerable st' = vulnerable st" and "malicious st' = malicious st" and "maliciousDel st' = maliciousDel st"
  shows "evolved K st' = evolved K st"
  using assms by (simp add: evolved_def tables_ok_def known_def)

lemma evolved_audit [simp]: "evolved K (insertAdminAuditLogLocked env now a st) = evolved K st"
  by (rule evolved_cong) simp_all

lemma normalize_affected_ok:
  "list_all (\<lambda>p. NormalizeName (ap_Ecosystem p) (ap_Name p) = ap_Name p) (map normalize_affected ps)"
  by (simp add: list_all_iff normalize_affected_def)

lemma withdraw_ok:
  assumes "evolved K st" and "map_of (malicious st) i = Some finding"
  shows "evolved K (withdraw i finding st)"
proof -
  have "tombstone_ok i (noopMaliciousTombstone finding)"
    using assms rows_okD [of malicious_ok]
    by (fastforce simp: evolved_def tables_ok_def tombstone_ok_def malicious_ok_def noopMaliciousTombstone_def)
  with assms(1) show ?thesis
    by (auto simp: evolved_def known_def tables_ok_def withdraw_def rows_ok_put rows_ok_del tbl.lookup_put tbl.lookup_del dom_def)
qed

lemma put_malicious_ok:
  assumes "evolved K st" and "malicious_ok k m"
  shows "evolved K (st\<lparr>malicious := AList.update k m (malicious st), maliciousDel := AList.delete k (maliciousDel st)\<rparr>)"
  using assms
  by (auto simp: evolved_def known_def tables_ok_def rows_ok_put rows_ok_del tbl.lookup_put tbl.lookup_del dom_def)

lemma vulnerable_ok:
  assumes "evolved K st"
  shows "vulnerability_ok k v \<Longrightarrow> evolved K (st\<lparr>vulnerable := AList.update k v (vulnerable st)\<rparr>)"
    and "evolved K (st\<lparr>vulnerable := AList.delete k (vulnerable st)\<rparr>)"
  using assms by (simp_all add: evolved_def known_def tables_ok_def rows_ok_put rows_ok_del)

section \<open>Every operation keeps the invariant\<close>

lemma upsertVulnerability_ok: "evolved K st \<Longrightarrow> evolved K (snd (upsertVulnerabilityLocked vuln st))"
  by (auto simp: upsertVulnerabilityLocked_def vulnerability_ok_def normalize_affected_ok
      intro!: vulnerable_ok(1) split: option.split)

lemma upsertMalicious_ok:
  assumes "evolved K st"
  shows "evolved K (snd (upsertMaliciousFindingLocked mf st))"
proof (cases mf)
  case (Some m)
  have n: "evolved K (st\<lparr>nextManualID := i\<rparr>)" for i
    using assms evolved_cong [of "st\<lparr>nextManualID := i\<rparr>" st] by simp
  have "malicious_ok (mf_ID m) (m\<lparr>mf_Name := NormalizeName (mf_Ecosystem m) (mf_Name m)\<rparr>)" if "mf_Source m \<noteq> []" for m
    using that by (simp add: malicious_ok_def)
  from put_malicious_ok [OF assms this] put_malicious_ok [OF n this] Some show ?thesis
    by (auto simp: upsertMaliciousFindingLocked_def Let_def malicious_ok_def
        intro!: put_malicious_ok [OF assms] put_malicious_ok [OF n, simplified])
qed (use assms in \<open>simp add: upsertMaliciousFindingLocked_def\<close>)

lemma deleteVulnerability_ok:
  assumes "evolved K st"
  shows "evolved K (snd (deleteVulnerabilityForSourceLocked i source st))"
proof -
  have "vulnerability_ok i (v\<lparr>v_Sources := s\<rparr>)" if "map_of (vulnerable st) i = Some v" for v s
    using assms that rows_okD [of vulnerability_ok] by (fastforce simp: evolved_def tables_ok_def vulnerability_ok_def)
  with assms show ?thesis
    by (auto simp: deleteVulnerabilityForSourceLocked_def Let_def vulnerable_ok split: option.split)
qed

lemma deleteMalicious_ok:
  assumes "evolved K st"
  shows "evolved K (snd (DeleteMaliciousFinding i st))"
    and "evolved K (snd (DeleteMaliciousFindingForSource i source st))"
    and "evolved K (snd (delete_malicious_for_feed feed i st))"
  using assms
  by (auto simp: DeleteMaliciousFinding_def DeleteMaliciousFindingForSource_def delete_malicious_for_feed_def
      Let_def withdraw_ok split: option.split)

lemma import_loop_ok:
  assumes "\<forall>x st. evolved K st \<longrightarrow> evolved K (snd (step x st))" and "evolved K st"
  shows "evolved K (snd (import_loop step xs n st))"
  using assms(2)
proof (induction xs arbitrary: n st)
  case (Cons x xs)
  obtain r st' where step: "step x st = (r, st')" by fastforce
  with assms(1) Cons.prems have "evolved K st'" by (metis snd_conv)
  with Cons.IH step show ?case by (cases r) simp_all
qed simp

lemma upsertFeedSyncStatus_frame:
  "vulnerable (snd (upsertFeedSyncStatusLocked now s st)) = vulnerable st"
  "malicious (snd (upsertFeedSyncStatusLocked now s st)) = malicious st"
  "maliciousDel (snd (upsertFeedSyncStatusLocked now s st)) = maliciousDel st"
  by (cases s; simp add: upsertFeedSyncStatusLocked_def Let_def)+

lemma write_status_snd:
  "snd (write_status now s i d st) = (case s of None \<Rightarrow> st | Some f \<Rightarrow> snd (upsertFeedSyncStatusLocked now (Some f) st))"
  by (simp add: write_status_def split: option.split prod.split sum.split)

lemma write_status_frame:
  "vulnerable (snd (write_status now s i d st)) = vulnerable st"
  "malicious (snd (write_status now s i d st)) = malicious st"
  "maliciousDel (snd (write_status now s i d st)) = maliciousDel st"
  by (cases s; simp add: write_status_snd upsertFeedSyncStatus_frame)+

lemma write_status_ok: "evolved K (snd (write_status now s i d st)) = evolved K st"
  by (rule evolved_cong) (rule write_status_frame)+

lemma import_ok:
  assumes "evolved K st"
  shows "evolved K (snd (importVulnerabilityFeedLocked now feed vulns deleteIDs status st))"
    and "evolved K (snd (importMaliciousFeedLocked now feed findings deleteIDs status st))"
proof -
  obtain e1 n1 st1 where s1: "import_loop (\<lambda>v. upsertVulnerabilityLocked (Some v)) vulns 0 st = ((e1, n1), st1)"
    by (metis surj_pair)
  obtain e2 n2 st2 where s2: "import_loop (\<lambda>i. deleteVulnerabilityForSourceLocked i feed) deleteIDs 0 st1 = ((e2, n2), st2)"
    by (metis surj_pair)
  have "evolved K st1"
    using import_loop_ok [of K "\<lambda>v. upsertVulnerabilityLocked (Some v)" st vulns 0] assms s1
    by (simp add: upsertVulnerability_ok)
  moreover from this have "evolved K st2"
    using import_loop_ok [of K "\<lambda>i. deleteVulnerabilityForSourceLocked i feed" st1 deleteIDs 0] s2
    by (simp add: deleteVulnerability_ok)
  ultimately show "evolved K (snd (importVulnerabilityFeedLocked now feed vulns deleteIDs status st))"
    by (simp add: importVulnerabilityFeedLocked_def s1 s2 write_status_ok split: option.split)
next
  obtain e1 n1 st1 where s1: "import_loop (\<lambda>m. upsertMaliciousFindingLocked (Some m)) findings 0 st = ((e1, n1), st1)"
    by (metis surj_pair)
  obtain e2 n2 st2 where s2: "import_loop (delete_malicious_for_feed feed) deleteIDs 0 st1 = ((e2, n2), st2)"
    by (metis surj_pair)
  have "evolved K st1"
    using import_loop_ok [of K "\<lambda>m. upsertMaliciousFindingLocked (Some m)" st findings 0] assms s1
    by (simp add: upsertMalicious_ok)
  moreover from this have "evolved K st2"
    using import_loop_ok [of K "delete_malicious_for_feed feed" st1 deleteIDs 0] s2
    by (simp add: deleteMalicious_ok)
  ultimately show "evolved K (snd (importMaliciousFeedLocked now feed findings deleteIDs status st))"
    by (simp add: importMaliciousFeedLocked_def s1 s2 write_status_ok split: option.split)
qed

lemma prune_loop_ok:
  assumes "evolved K st" and "distinct (map fst rows)" and "\<forall>(i, f) \<in> set rows. map_of (malicious st) i = Some f"
  shows "evolved K (snd (prune_loop source ids rows n st))"
  using assms
proof (induction rows arbitrary: n st)
  case (Cons row rest)
  obtain i finding where row: "row = (i, finding)" by fastforce
  have "\<forall>(j, f) \<in> set rest. map_of (malicious (withdraw i finding st)) j = Some f"
    using Cons.prems(2,3) row by (auto simp: withdraw_def tbl.lookup_del rev_image_eqI)
  moreover have "evolved K (withdraw i finding st)"
    using Cons.prems row by (auto intro: withdraw_ok)
  ultimately show ?case using Cons row by simp
qed simp

lemma deleteNotInSource_ok:
  assumes "evolved K st"
  shows "evolved K (snd (DeleteMaliciousFindingsNotInSource source ids st))"
proof -
  have "evolved K (snd (prune_loop source ids (malicious st) 0 st))"
    by (rule prune_loop_ok [OF assms]) (use assms in \<open>auto simp: evolved_def tables_ok_def rows_ok_def\<close>)
  then show ?thesis by (simp add: DeleteMaliciousFindingsNotInSource_def case_prod_beta)
qed

lemma upsertManualAdvisory_ok:
  assumes "evolved K st"
  shows "evolved K (snd (upsertManualAdvisoryLocked now advisory st))"
proof (cases "ParseManualAdvisoryFindingType (ma_FindingType advisory)")
  case (Some t)
  let ?v = "(ManualAdvisoryToVulnerability now advisory)
    \<lparr>v_AffectedPackages := map normalize_affected (v_AffectedPackages (ManualAdvisoryToVulnerability now advisory))\<rparr>"
  let ?m = "(ManualAdvisoryToMaliciousFinding advisory)\<lparr>mf_Name := NormalizeName
    (mf_Ecosystem (ManualAdvisoryToMaliciousFinding advisory)) (mf_Name (ManualAdvisoryToMaliciousFinding advisory))\<rparr>"
  have "malicious_ok (mf_ID ?m) ?m"
    by (simp add: malicious_ok_def ManualAdvisoryToMaliciousFinding_def)
  from vulnerable_ok(2) [OF put_malicious_ok [OF assms this], of "ma_ID advisory"]
  have m: "evolved K (st\<lparr>malicious := AList.update (mf_ID ?m) ?m (malicious st),
      maliciousDel := AList.delete (mf_ID ?m) (maliciousDel st), vulnerable := AList.delete (ma_ID advisory) (vulnerable st)\<rparr>)"
    by simp
  have "vulnerability_ok (v_ID ?v) ?v"
    by (simp add: vulnerability_ok_def normalize_affected_ok)
  note v = vulnerable_ok(1) [OF assms this]
  show ?thesis
    using m v withdraw_ok [OF v]
    by (auto simp: upsertManualAdvisoryLocked_def Some Let_def split: option.split)
qed (use assms in \<open>simp add: upsertManualAdvisoryLocked_def\<close>)

lemma deleteManualAdvisory_ok:
  assumes "evolved K st"
  shows "evolved K (snd (deleteManualAdvisoryLocked i st))"
  using assms
  by (auto simp: deleteManualAdvisoryLocked_def Let_def withdraw_ok vulnerable_ok(2) split: option.split)

section \<open>Steps\<close>

inductive finding_step :: "DevEnv \<Rightarrow> Store \<Rightarrow> Store \<Rightarrow> bool" for env where
  upsert_vulnerability: "finding_step env st (snd (UpsertVulnerability vuln st))"
| upsert_malicious: "finding_step env st (snd (UpsertMaliciousFinding mf st))"
| import_vulnerabilities: "finding_step env st (snd (importVulnerabilityFeedLocked now feed vulns deleteIDs status st))"
| import_vulnerabilities_audited:
    "finding_step env st (snd (ImportVulnerabilityFeedWithAudit env now feed vulns deleteIDs status builder st))"
| import_malicious: "finding_step env st (snd (importMaliciousFeedLocked now feed findings deleteIDs status st))"
| import_malicious_audited:
    "finding_step env st (snd (ImportMaliciousFeedWithAudit env now feed findings deleteIDs status builder st))"
| delete_vulnerability: "finding_step env st (snd (DeleteVulnerability i st))"
| delete_vulnerability_source: "finding_step env st (snd (DeleteVulnerabilityForSource i source st))"
| delete_malicious: "finding_step env st (snd (DeleteMaliciousFinding i st))"
| delete_malicious_source: "finding_step env st (snd (DeleteMaliciousFindingForSource i source st))"
| delete_stale: "finding_step env st (snd (DeleteMaliciousFindingsNotInSource source ids st))"
| upsert_manual: "finding_step env st (snd (UpsertManualAdvisory now advisory st))"
| upsert_manual_audited: "finding_step env st (snd (UpsertManualAdvisoryWithAudit env now advisory audit st))"
| delete_manual: "finding_step env st (snd (DeleteManualAdvisory i st))"
| delete_manual_audited: "finding_step env st (snd (DeleteManualAdvisoryWithAudit env now i audit st))"

lemma audit_import_ok: "evolved K (snd (audit_import env now audit r)) = evolved K (snd r)"
  by (simp add: audit_import_def split: prod.split option.split)

lemma finding_step_evolved: "finding_step env st st' \<Longrightarrow> evolved K st \<Longrightarrow> evolved K st'"
  by (induction rule: finding_step.induct)
    (simp_all add: UpsertVulnerability_def upsertVulnerability_ok UpsertMaliciousFinding_def upsertMalicious_ok
      import_ok ImportVulnerabilityFeedWithAudit_def ImportMaliciousFeedWithAudit_def audit_import_ok
      DeleteVulnerability_def vulnerable_ok(2) DeleteVulnerabilityForSource_def deleteVulnerability_ok
      deleteMalicious_ok deleteNotInSource_ok UpsertManualAdvisory_def UpsertManualAdvisoryWithAudit_def
      upsertManualAdvisory_ok DeleteManualAdvisory_def DeleteManualAdvisoryWithAudit_def deleteManualAdvisory_ok
      split: option.split)

lemma finding_steps_evolved: "(finding_step env)\<^sup>*\<^sup>* st st' \<Longrightarrow> evolved K st \<Longrightarrow> evolved K st'"
  by (induction rule: rtranclp_induct) (auto intro: finding_step_evolved)

lemma NewStore_tables: "tables_ok NewStore"
  by (simp add: tables_ok_def NewStore_def)

lemma tables_okD:
  assumes "tables_ok st"
  shows "rows_ok vulnerability_ok (vulnerable st)" and "rows_ok malicious_ok (malicious st)"
    and "rows_ok tombstone_ok (maliciousDel st)"
  using assms unfolding tables_ok_def by blast+

lemma tables_ok_disjoint:
  assumes "tables_ok st"
  shows "dom (map_of (malicious st)) \<inter> dom (map_of (maliciousDel st)) = {}"
proof -
  have "\<forall>k. map_of (malicious st) k = None \<or> map_of (maliciousDel st) k = None"
    using assms unfolding tables_ok_def by (elim conjE)
  then show ?thesis unfolding disjoint_iff domIff by meson
qed

text \<open>
  Whatever sequence of advisory operations runs, plain or audited, every row of the three tables
  is stored under its own identifier, package names are canonical, tombstones are marked as
  withdrawn, and no identifier is live and withdrawn at once.
\<close>

theorem findings_invariant:
  assumes "(finding_step env)\<^sup>*\<^sup>* NewStore st"
  shows "(\<forall>k v. map_of (vulnerable st) k = Some v \<longrightarrow> k = v_ID v \<and>
        list_all (\<lambda>p. NormalizeName (ap_Ecosystem p) (ap_Name p) = ap_Name p) (v_AffectedPackages v)) \<and>
    (\<forall>k m. map_of (malicious st) k = Some m \<longrightarrow> k = mf_ID m \<and> NormalizeName (mf_Ecosystem m) (mf_Name m) = mf_Name m) \<and>
    (\<forall>k t. map_of (maliciousDel st) k = Some t \<longrightarrow> k = sm_ID t \<and> sm_Withdrawn t) \<and>
    dom (map_of (malicious st)) \<inter> dom (map_of (maliciousDel st)) = {}"
proof -
  have "tables_ok st"
    using finding_steps_evolved [OF assms, of "{}"] NewStore_tables by (simp add: evolved_def)
  note rows = tables_okD [OF this] and disjoint = tables_ok_disjoint [OF this]
  show ?thesis
  proof (intro conjI allI impI)
    fix k v assume "map_of (vulnerable st) k = Some v"
    from rows_okD [OF rows(1) this] show "k = v_ID v"
      and "list_all (\<lambda>p. NormalizeName (ap_Ecosystem p) (ap_Name p) = ap_Name p) (v_AffectedPackages v)"
      by (simp_all only: vulnerability_ok_def)
  next
    fix k m assume "map_of (malicious st) k = Some m"
    from rows_okD [OF rows(2) this] show "k = mf_ID m" and "NormalizeName (mf_Ecosystem m) (mf_Name m) = mf_Name m"
      by (simp_all only: malicious_ok_def)
  next
    fix k t assume "map_of (maliciousDel st) k = Some t"
    from rows_okD [OF rows(3) this] show "k = sm_ID t" and "sm_Withdrawn t"
      by (simp_all only: tombstone_ok_def)
  qed (rule disjoint)
qed

definition example_finding :: MaliciousFinding where
  "example_finding = \<lparr>mf_ID = ''MAL-1'', mf_Ecosystem = ''pypi'', mf_Name = ''Evil_Pkg'', mf_VersionRanges = [],
     mf_Versions = json_text ''[`1.0`]'', mf_Source = ''openssf'', mf_RiskType = ''malware'', mf_Severity = ''CRITICAL'',
     mf_Summary = ''bad'', mf_Description = [], mf_ReferenceURLs = [], mf_OriginRef = [], mf_Published = None,
     mf_CreatedBy = []\<rparr>"

definition one_finding :: Store where
  "one_finding = snd (UpsertMaliciousFinding (Some example_finding) NewStore)"

definition none_left :: Store where
  "none_left = snd (DeleteMaliciousFindingForSource ''MAL-1'' ''openssf'' one_finding)"

lemma example_steps:
  "(finding_step env)\<^sup>*\<^sup>* NewStore one_finding" "(finding_step env)\<^sup>*\<^sup>* one_finding none_left"
  unfolding one_finding_def none_left_def
  by (rule r_into_rtranclp, rule finding_step.upsert_malicious)
    (rule r_into_rtranclp, rule finding_step.delete_malicious_source)

theorem findings_invariant_witness:
  "map mf_Name (map snd (malicious one_finding)) = [''evil-pkg''] \<and>
   dom (map_of (malicious one_finding)) \<inter> dom (map_of (maliciousDel one_finding)) = {}"
proof -
  have "map mf_Name (map snd (malicious one_finding)) = [''evil-pkg'']" by code_simp
  with findings_invariant [OF example_steps(1)] show ?thesis by blast
qed

section \<open>Synchronising local databases\<close>

text \<open>
  A local database as a table of live rows, and how it takes an export: withdrawn rows are deleted,
  the others are put.
\<close>

definition take_row :: "SyncMalicious \<Rightarrow> (gostring \<rightharpoonup> SyncMalicious) \<Rightarrow> (gostring \<rightharpoonup> SyncMalicious)" where
  "take_row r m = (if sm_Withdrawn r then m(sm_ID r := None) else m(sm_ID r \<mapsto> r))"

definition live_view :: "Store \<Rightarrow> gostring \<rightharpoonup> SyncMalicious" where
  "live_view st k = map_option live_row (map_of (malicious st) k)"

lemma fold_take_row:
  assumes "distinct (map sm_ID es)"
  shows "fold take_row es m k = (case map_of (map (\<lambda>r. (sm_ID r, r)) es) k of
    None \<Rightarrow> m k | Some r \<Rightarrow> if sm_Withdrawn r then None else Some r)"
  using assms
proof (induction es arbitrary: m)
  case (Cons e es)
  have "map_of (map (\<lambda>r. (sm_ID r, r)) es) (sm_ID e) = None"
    using Cons.prems by (auto simp: map_of_eq_None_iff)
  with Cons show ?case by (auto simp: take_row_def split: option.split)
qed simp

lemma live_row_simps [simp]: "sm_ID (live_row f) = mf_ID f" "sm_Withdrawn (live_row f) = False"
  "sm_Ecosystem (live_row f) = mf_Ecosystem f"
  by (simp_all add: live_row_def noopMaliciousTombstone_def)

lemma rows_ids:
  assumes "rows_ok P m" and "\<And>k v. P k v \<Longrightarrow> ident v = k"
  shows "map ident (map snd m) = map fst m"
  unfolding map_map
proof (rule map_cong [OF refl])
  fix row assume "row \<in> set m"
  with rows_ok_set [OF assms(1), of "fst row" "snd row"] assms(2) show "(ident \<circ> snd) row = fst row" by simp
qed

lemma map_of_ids:
  assumes "rows_ok P m" and "\<And>k v. P k v \<Longrightarrow> ident v = k"
  shows "map_of (map (\<lambda>v. (ident v, v)) (map snd m)) = map_of m"
proof -
  have "map (\<lambda>v. (ident v, v)) (map snd m) = m"
    unfolding map_map
  proof (rule map_idI)
    fix row assume "row \<in> set m"
    with rows_ok_set [OF assms(1), of "fst row" "snd row"] assms(2) show "((\<lambda>v. (ident v, v)) \<circ> snd) row = row"
      by (cases row) simp
  qed
  then show ?thesis by simp
qed

lemma map_of_ident_iff:
  "distinct (map ident xs) \<Longrightarrow> map_of (map (\<lambda>r. (ident r, r)) xs) k = Some r \<longleftrightarrow> r \<in> set xs \<and> ident r = k"
  by (subst map_of_eq_Some_iff) (auto simp: comp_def)

lemma map_of_ident_sort:
  assumes "distinct (map ident xs)"
  shows "map_of (map (\<lambda>r. (ident r, r)) (sort_key key xs)) = map_of (map (\<lambda>r. (ident r, r)) xs)"
    and "distinct (map ident (sort_key key xs))"
proof -
  show d: "distinct (map ident (sort_key key xs))"
    using assms by (simp add: distinct_map)
  show "map_of (map (\<lambda>r. (ident r, r)) (sort_key key xs)) = map_of (map (\<lambda>r. (ident r, r)) xs)" (is "?a = ?b")
  proof
    fix k
    have same: "?a k = Some r \<longleftrightarrow> ?b k = Some r" for r
      by (simp only: map_of_ident_iff [OF d] map_of_ident_iff [OF assms] set_sort)
    show "?a k = ?b k"
    proof (cases "?b k")
      case None
      with same have "?a k \<noteq> Some r" for r by simp
      with None show ?thesis by (metis not_None_eq)
    next
      case (Some r)
      with same show ?thesis by (simp only:)
    qed
  qed
qed

text \<open>The rows of an export over all ecosystems: every live row, and the tombstones if it is a delta.\<close>

lemma ExportSync_all:
  assumes "tables_ok st" and "so_Ecosystems opts = []"
  shows "distinct (map sm_ID (snd (ExportSync now opts st))) \<and>
    map_of (map (\<lambda>r. (sm_ID r, r)) (snd (ExportSync now opts st))) =
      (if so_Since opts = None then Map.empty else map_of (maliciousDel st)) ++ live_view st"
proof -
  let ?live = "map live_row (map snd (malicious st))" and ?del = "map snd (maliciousDel st)"
  let ?key = "\<lambda>m. (sm_Ecosystem m, sm_Name m, sm_ID m)"
  let ?gone = "if so_Since opts = None then [] else ?del"
  have m: "rows_ok malicious_ok (malicious st)" and t: "rows_ok tombstone_ok (maliciousDel st)"
    using assms(1) by (simp_all only: tables_okD)
  have live_ids: "map sm_ID ?live = map fst (malicious st)"
    using rows_ids [OF m, of mf_ID] by (simp add: malicious_ok_def comp_def)
  have del_ids: "map sm_ID ?del = map fst (maliciousDel st)"
    by (rule rows_ids [OF t]) (simp add: tombstone_ok_def)
  have "distinct (map sm_ID (?live @ ?del))"
    using m t tables_ok_disjoint [OF assms(1)] unfolding map_append live_ids del_ids
    by (auto simp: rows_ok_def dom_map_of_conv_image_fst)
  then have d: "distinct (map sm_ID (?live @ ?gone))"
    by (cases "so_Since opts = None") (simp_all only: if_True if_False, simp)
  have export: "snd (ExportSync now opts st) = sort_key ?key (?live @ ?gone)"
    by (simp add: ExportSync_def Let_def assms(2) in_scope_def)
  have ids: "map_of (map (\<lambda>f. (mf_ID f, f)) (map snd (malicious st))) = map_of (malicious st)"
    by (rule map_of_ids [OF m]) (simp add: malicious_ok_def)
  have "map (\<lambda>r. (sm_ID r, r)) ?live = map (\<lambda>(k, f). (k, live_row f)) (map (\<lambda>f. (mf_ID f, f)) (map snd (malicious st)))"
    by simp
  then have live: "map_of (map (\<lambda>r. (sm_ID r, r)) ?live) = live_view st"
    by (simp only: map_of_map ids) (simp add: live_view_def fun_eq_iff)
  have "map_of (map (\<lambda>r. (sm_ID r, r)) ?del) = map_of (maliciousDel st)"
    by (rule map_of_ids [OF t]) (simp add: tombstone_ok_def)
  with live have "map_of (map (\<lambda>r. (sm_ID r, r)) (?live @ ?gone)) =
      (if so_Since opts = None then Map.empty else map_of (maliciousDel st)) ++ live_view st"
    by (cases "so_Since opts = None") (simp_all only: if_True if_False simp_thms map_append map_of_append map_of.simps list.map)
  with map_of_ident_sort [OF d, of ?key] show ?thesis by (simp only: export)
qed

lemma full_export:
  assumes "tables_ok st" and "so_Ecosystems opts = []" and "so_Since opts = None"
  shows "fold take_row (snd (ExportSync now opts st)) Map.empty = live_view st"
proof
  fix k
  show "fold take_row (snd (ExportSync now opts st)) Map.empty k = live_view st k"
    using ExportSync_all [OF assms(1,2), of now] assms(3)
    by (cases "map_of (malicious st) k") (simp_all add: fold_take_row live_view_def)
qed

lemma delta_export:
  assumes "tables_ok st" and "so_Ecosystems opts = []" and "so_Since opts = Some since"
    and "dom client \<subseteq> known st"
  shows "fold take_row (snd (ExportSync now opts st)) client = live_view st"
proof
  fix k
  have rows: "fold take_row (snd (ExportSync now opts st)) client k =
      (case (map_of (maliciousDel st) ++ live_view st) k of
         None \<Rightarrow> client k | Some r \<Rightarrow> if sm_Withdrawn r then None else Some r)"
    using ExportSync_all [OF assms(1,2), of now] assms(3) by (simp add: fold_take_row)
  show "fold take_row (snd (ExportSync now opts st)) client k = live_view st k"
  proof (cases "map_of (malicious st) k")
    case (Some f)
    then show ?thesis by (simp add: rows live_view_def map_add_def)
  next
    case None
    have "sm_Withdrawn t" if "map_of (maliciousDel st) k = Some t" for t
      using rows_okD [OF tables_okD(3) [OF assms(1)] that] by (simp add: tombstone_ok_def)
    moreover have "client k = None" if "map_of (maliciousDel st) k = None"
      using assms(4) None that by (auto simp: known_def dom_def)
    ultimately show ?thesis
      by (cases "map_of (maliciousDel st) k") (simp_all add: rows live_view_def map_add_def None)
  qed
qed



section \<open>Lookups fail closed\<close>

lemma FindMalicious_ids:
  "i \<in> f_AdvisoryID ` set (FindMalicious eco name version st) \<longleftrightarrow>
     (\<exists>k f. (k, f) \<in> set (malicious st) \<and> mf_ID f = i \<and> mf_Ecosystem f = eco \<and>
        mf_Name f = NormalizeName eco name \<and>
        noopMaliciousAffectsVersion (mf_Ecosystem f) version (mf_VersionRanges f) (mf_Versions f))"
  (is "?l = ?r")
proof
  assume ?l
  then show ?r by (force simp: FindMalicious_def Let_def malicious_finding_def)
next
  assume ?r
  then obtain k f where f: "(k, f) \<in> set (malicious st)" "mf_ID f = i" "mf_Ecosystem f = eco"
    "mf_Name f = NormalizeName eco name"
    "noopMaliciousAffectsVersion (mf_Ecosystem f) version (mf_VersionRanges f) (mf_Versions f)" by blast
  then have "malicious_finding version f \<in> set (FindMalicious eco name version st)"
    by (force simp: FindMalicious_def Let_def)
  with f(2) show ?l by (force simp: malicious_finding_def)
qed



section \<open>Source-scoped deletions\<close>

lemma prune_loop_keeps:
  "mf_Source f \<noteq> source \<Longrightarrow> (k, f) \<in> set rows \<or> k \<notin> fst ` set rows \<Longrightarrow> distinct (map fst rows) \<Longrightarrow>
    map_of (malicious st) k = Some f \<Longrightarrow> map_of (malicious (snd (prune_loop source ids rows n st))) k = Some f"
proof (induction rows arbitrary: n st)
  case (Cons row rows)
  obtain i g where row: "row = (i, g)" by fastforce
  have "i \<noteq> k" if "mf_Source g = source" using Cons.prems row that by (auto simp: rev_image_eqI)
  then have "map_of (malicious (withdraw i g st)) k = Some f" if "mf_Source g = source"
    using that Cons.prems(4) by (simp add: withdraw_def tbl.lookup_del)
  with Cons row show ?case by (auto simp: rev_image_eqI)
qed simp

text \<open>
  Deletions scoped to a source leave other sources alone: a malicious finding whose source
  differs stays as it is, and a vulnerability keeps every source record of another source, and with
  it its row, whichever identifier is deleted or refreshed.
\<close>

theorem source_scoped_deletes:
  assumes "tables_ok st" and "TrimSpace source \<noteq> TrimSpace (mf_Source f)" and "map_of (malicious st) k = Some f"
    and "map_of (vulnerable st) k' = Some v" and "s \<in> set (v_Sources v)" and "TrimSpace source \<noteq> TrimSpace (vs_Source s)"
  shows "map_of (malicious (snd (DeleteMaliciousFindingForSource i source st))) k = Some f \<and>
    map_of (malicious (snd (DeleteMaliciousFindingsNotInSource source ids st))) k = Some f \<and>
    (\<exists>v'. map_of (vulnerable (snd (DeleteVulnerabilityForSource i source st))) k' = Some v' \<and> s \<in> set (v_Sources v'))"
    (is "?one \<and> ?stale \<and> ?vuln")
proof -
  have ?one
    using assms(2,3)
    by (auto simp: DeleteMaliciousFindingForSource_def Let_def withdraw_def tbl.lookup_del split: option.split)
  moreover have ?stale
  proof -
    have "distinct (map fst (malicious st))" using tables_okD(2) [OF assms(1)] by (simp add: rows_ok_def)
    moreover have "mf_Source f \<noteq> source" using assms(2) by auto
    ultimately have "map_of (malicious (snd (prune_loop source ids (malicious st) 0 st))) k = Some f"
      using prune_loop_keeps [of f source k "malicious st" st ids 0] assms(3) map_of_SomeD by fastforce
    then show ?thesis by (simp add: DeleteMaliciousFindingsNotInSource_def case_prod_beta)
  qed
  moreover have ?vuln
  proof (cases "i = k'")
    case True
    have "s \<in> set (filter (\<lambda>item. TrimSpace (vs_Source item) \<noteq> TrimSpace source) (v_Sources v))"
      using assms(5,6) by simp
    then have "filter (\<lambda>item. TrimSpace (vs_Source item) \<noteq> TrimSpace source) (v_Sources v) \<noteq> []" by (metis empty_iff empty_set)
    with True assms(4-6) show ?thesis
      by (simp add: DeleteVulnerabilityForSource_def deleteVulnerabilityForSourceLocked_def Let_def tbl.lookup_put)
  next
    case False
    with assms(4,5) show ?thesis
      by (simp add: DeleteVulnerabilityForSource_def deleteVulnerabilityForSourceLocked_def Let_def
          tbl.lookup_put tbl.lookup_del split: option.split)
  qed
  ultimately show ?thesis by blast
qed

definition example_advisory :: ManualAdvisory where
  "example_advisory = \<lparr>ma_ID = ''manual-7'', ma_FindingType = ''Vulnerability'', ma_Ecosystem = ''PyPI'',
     ma_Name = ''My_Pkg'', ma_Severity = ''high'', ma_RiskType = [], ma_Summary = '' s '', ma_Description = [],
     ma_UpdatedAt = 0\<rparr>"

definition both_kinds :: Store where
  "both_kinds = snd (upsertManualAdvisoryLocked 5 example_advisory one_finding)"

lemma both_kinds_ok: "tables_ok both_kinds"
proof -
  have "evolved {} NewStore" by (simp add: evolved_def NewStore_tables)
  then have "evolved {} both_kinds"
    unfolding both_kinds_def one_finding_def UpsertMaliciousFinding_def
    by (intro upsertManualAdvisory_ok upsertMalicious_ok)
  then show ?thesis by (simp add: evolved_def)
qed

theorem source_scoped_deletes_witness:
  "map_option mf_ID (map_of (malicious (snd (DeleteMaliciousFindingsNotInSource ''nvd'' [] both_kinds))) ''MAL-1'') = Some ''MAL-1'' \<and>
   map_of (vulnerable (snd (DeleteVulnerabilityForSource ''manual-7'' ''nvd'' both_kinds))) ''manual-7'' \<noteq> None"
proof -
  have "map_option mf_ID (map_of (malicious both_kinds) ''MAL-1'') = Some ''MAL-1''"
    and "map_option mf_Source (map_of (malicious both_kinds) ''MAL-1'') = Some ''openssf''" by code_simp+
  then obtain f where f: "map_of (malicious both_kinds) ''MAL-1'' = Some f" "mf_ID f = ''MAL-1''" "mf_Source f = ''openssf''"
    by auto
  have "map_option (map vs_Source \<circ> v_Sources) (map_of (vulnerable both_kinds) ''manual-7'') = Some [''manual'']" by code_simp
  then obtain v where "map_of (vulnerable both_kinds) ''manual-7'' = Some v" "map vs_Source (v_Sources v) = [''manual'']"
    by auto
  then obtain s where v: "map_of (vulnerable both_kinds) ''manual-7'' = Some v" "s \<in> set (v_Sources v)" "vs_Source s = ''manual''"
    by (auto simp: map_eq_Cons_conv)
  have "TrimSpace ''nvd'' \<noteq> TrimSpace ''openssf''" and "TrimSpace ''nvd'' \<noteq> TrimSpace ''manual''" by code_simp+
  with source_scoped_deletes [OF both_kinds_ok, of "''nvd''" f "''MAL-1''" "''manual-7''" v s "''manual-7''" "[]"] f v
  show ?thesis by auto
qed

section \<open>Operator-managed advisories\<close>

text \<open>
  C38: An advisory an operator writes under a trimmed identifier is read back under it with its
  fields normalized (type, ecosystem, package name, severity, risk type), whatever the identifier
  held before; deleting it then succeeds and it is gone.
\<close>

theorem manual_advisory_roundtrip:
  assumes "ParseManualAdvisoryFindingType (ma_FindingType a) = Some t" and "TrimSpace (ma_ID a) = ma_ID a"
  shows "GetManualAdvisory (ma_ID a) (snd (UpsertManualAdvisory now (Some a) st)) = Some
      \<lparr>ma_ID = ma_ID a, ma_FindingType = t, ma_Ecosystem = manual_ecosystem (ma_Ecosystem a),
       ma_Name = NormalizeName (manual_ecosystem (ma_Ecosystem a)) (ma_Name a),
       ma_Severity = manual_severity (if t = ''malicious'' then ''CRITICAL'' else ''UNKNOWN'') (ma_Severity a),
       ma_RiskType = (if t = ''malicious'' then case normalizeManualAdvisoryRiskType (ma_RiskType a) of
           Some r \<Rightarrow> r | None \<Rightarrow> TrimSpace (ma_RiskType a) else []),
       ma_Summary = TrimSpace (ma_Summary a), ma_Description = TrimSpace (ma_Description a), ma_UpdatedAt = 0\<rparr> \<and>
    fst (DeleteManualAdvisory (ma_ID a) (snd (UpsertManualAdvisory now (Some a) st))) = Ok () \<and>
    GetManualAdvisory (ma_ID a) (snd (DeleteManualAdvisory (ma_ID a) (snd (UpsertManualAdvisory now (Some a) st)))) = None"
proof -
  have name: "NormalizeName eco (TrimSpace n) = NormalizeName eco n" for eco n
    by (simp add: NormalizeName_def)
  consider "t = FindingTypeMalicious" | "t = FindingTypeVulnerability"
    using assms(1) by (auto simp: ParseManualAdvisoryFindingType_def Let_def split: if_splits)
  then show ?thesis
  proof cases
    case 1
    then show ?thesis
      using assms
      by (simp add: GetManualAdvisory_def UpsertManualAdvisory_def DeleteManualAdvisory_def upsertManualAdvisoryLocked_def
          manualAdvisoryByIDLocked_def deleteManualAdvisoryLocked_def ManualAdvisoryToMaliciousFinding_def
          malicious_advisory_def Let_def tbl.lookup_put tbl.lookup_del withdraw_def name)
  next
    case 2
    then show ?thesis
      using assms
      by (cases "map_of (malicious st) (ma_ID a)")
        (simp_all add: GetManualAdvisory_def UpsertManualAdvisory_def DeleteManualAdvisory_def upsertManualAdvisoryLocked_def
          manualAdvisoryByIDLocked_def deleteManualAdvisoryLocked_def ManualAdvisoryToVulnerability_def
          vulnerability_advisory_def vulnerabilityHasManualSource_def normalize_affected_def Let_def tbl.lookup_put tbl.lookup_del withdraw_def name)
  qed
qed

theorem manual_advisory_roundtrip_witness:
  "map_option (\<lambda>a. (ma_FindingType a, ma_Ecosystem a, ma_Name a, ma_Severity a, ma_Summary a))
     (GetManualAdvisory ''manual-7'' (snd (UpsertManualAdvisory 5 (Some example_advisory) NewStore))) =
   Some (''vulnerability'', ''pypi'', ''my-pkg'', ''HIGH'', ''s'')"
proof -
  have "ParseManualAdvisoryFindingType (ma_FindingType example_advisory) = Some ''vulnerability''"
    and "TrimSpace (ma_ID example_advisory) = ma_ID example_advisory" by code_simp+
  note rt = manual_advisory_roundtrip [OF this, of 5 NewStore]
  have "manual_ecosystem (ma_Ecosystem example_advisory) = ''pypi''"
    and "NormalizeName ''pypi'' (ma_Name example_advisory) = ''my-pkg''"
    and "manual_severity ''UNKNOWN'' (ma_Severity example_advisory) = ''HIGH''"
    and "TrimSpace (ma_Summary example_advisory) = ''s''" and "ma_ID example_advisory = ''manual-7''" by code_simp+
  with rt show ?thesis by simp
qed

text \<open>
  The audited variant writes its audit row before the type of the advisory is checked, so an advisory
  that is refused leaves a row for a change that was not made.
\<close>

lemma refused_advisory_is_audited:
  assumes "ParseManualAdvisoryFindingType (ma_FindingType a) = None"
  shows "\<exists>e row. UpsertManualAdvisoryWithAudit env now (Some a) (Some entry) st = (Err e, insertAdminAuditLogLocked env now (Some entry) st) \<and>
    auditLog (insertAdminAuditLogLocked env now (Some entry) st) = auditLog st @ [row]"
  using assms insertAdminAuditLogLocked_grows [of env now entry st]
  by (auto simp: UpsertManualAdvisoryWithAudit_def upsertManualAdvisoryLocked_def)

end
