(* ===== verification/ScanLogs.thy ===== *)
theory ScanLogs
  imports DevStore FindingStore
begin

text \<open>
  Scan logs and the reports drawn from the in-memory store
  (\<open>internal/devstore/noop_scan_logs.go\<close>, \<open>internal/db/search.go\<close>): the idempotent scan log, its
  paging and retention, the counts per day, the package search, the dashboard counters and the totals.

  The lemmas show that a replayed scan is answered with the row of its first run, that the search
  lists every package with a matching finding exactly once with the right counts, and that the
  counts per day are those of the log.
\<close>

section \<open>The scan log\<close>

text \<open>\<open>InsertScanLog\<close> dereferences its argument; the model takes the entry itself.\<close>

definition InsertScanLog :: "ScanLogEntry \<Rightarrow> Store \<Rightarrow> unit outcome" where
  "InsertScanLog entry st =
     (if sl_IdempotencyKey entry \<noteq> [] \<and>
         list_ex (\<lambda>existing. sl_IdempotencyKey existing = sl_IdempotencyKey entry) (scanLogs st)
      then (Ok (), st)
      else (Ok (), st\<lparr>scanLogs := scanLogs st @ [entry]\<rparr>))"

definition GetScanLogByIdempotencyKey :: "gostring \<Rightarrow> Store \<Rightarrow> ScanLogEntry option" where
  "GetScanLogByIdempotencyKey key st = find (\<lambda>e. sl_IdempotencyKey e = key) (scanLogs st)"

text \<open>The loop from the newest row down: \<open>skipped\<close> rows are passed over, then rows are copied up to the limit.\<close>

fun recent_loop :: "int \<Rightarrow> int \<Rightarrow> int \<Rightarrow> ScanLogEntry list \<Rightarrow> ScanLogEntry list \<Rightarrow> ScanLogEntry list" where
  "recent_loop limit offset skipped [] out = out"
| "recent_loop limit offset skipped (e # es) out =
     (if \<not> int (length out) < limit then out
      else if skipped < offset then recent_loop limit offset (skipped + 1) es out
      else recent_loop limit offset skipped es (out @ [e]))"

definition ListRecentScans :: "int \<Rightarrow> int \<Rightarrow> Store \<Rightarrow> ScanLogEntry list" where
  "ListRecentScans limit offset st =
     (let offset = (if offset < 0 then 0 else offset); n = int (length (scanLogs st)) in
      if offset \<ge> n then []
      else let limit = (if limit \<le> 0 \<or> limit > n then n else limit)
           in recent_loop limit offset 0 (rev (scanLogs st)) [])"

definition PruneScanLogs :: "gotime \<Rightarrow> duration \<Rightarrow> Store \<Rightarrow> int outcome" where
  "PruneScanLogs now retention st =
     (if retention \<le> 0 then (Ok 0, st)
      else let cutoff = now - retention; kept = filter (\<lambda>e. \<not> sl_ScannedAt e < cutoff) (scanLogs st)
           in (Ok (int (length (scanLogs st)) - int (length kept)), st\<lparr>scanLogs := kept\<rparr>))"

record ScanTotals =
  st_PackagesScanned :: int
  st_Findings :: int

fun totals_loop :: "ScanTotals \<Rightarrow> ScanLogEntry list \<Rightarrow> ScanTotals" where
  "totals_loop t [] = t"
| "totals_loop t (e # es) =
     totals_loop (t\<lparr>st_PackagesScanned := wrap64 (st_PackagesScanned t + sl_PackagesCount e),
                     st_Findings := wrap64 (st_Findings t + sl_FindingsCount e)\<rparr>) es"

definition ScanTotals_op :: "Store \<Rightarrow> ScanTotals" where
  "ScanTotals_op st = totals_loop \<lparr>st_PackagesScanned = 0, st_Findings = 0\<rparr> (scanLogs st)"

section \<open>Counts per day\<close>

text \<open>
  Days are numbered from the zero time; \<open>Truncate(24*time.Hour)\<close> and \<open>AddDate\<close> on an instant in
  UTC are arithmetic on the number, and the layout \<open>2006-01-02\<close> that keys the Go map names the day.
\<close>

abbreviation day :: duration where
  "day \<equiv> 86400 * second"

definition day_of :: "gotime \<Rightarrow> int" where
  "day_of t = t div day"

record DailyScanStats =
  ds_Date :: gotime
  ds_ScanCount :: int
  ds_FindingsCount :: int

fun byDay_loop :: "(int \<times> DailyScanStats) list \<Rightarrow> ScanLogEntry list \<Rightarrow> (int \<times> DailyScanStats) list" where
  "byDay_loop byDay [] = byDay"
| "byDay_loop byDay (entry # es) =
     (case map_of byDay (day_of (sl_ScannedAt entry)) of
        None \<Rightarrow> byDay_loop byDay es
      | Some row \<Rightarrow>
          byDay_loop (AList.update (day_of (sl_ScannedAt entry))
            (row\<lparr>ds_ScanCount := ds_ScanCount row + 1,
                  ds_FindingsCount := wrap64 (ds_FindingsCount row + sl_FindingsCount entry)\<rparr>) byDay) es)"

definition CountScansByDay :: "gotime \<Rightarrow> int \<Rightarrow> Store \<Rightarrow> DailyScanStats list" where
  "CountScansByDay now days st =
     (let days = (if days \<le> 0 then 7 else days);
          startDay = day_of now - (days - 1);
          window = map (\<lambda>i. startDay + int i) [0..<nat days];
          byDay = map (\<lambda>d. (d, \<lparr>ds_Date = d * day, ds_ScanCount = 0, ds_FindingsCount = 0\<rparr>)) window
      in map (\<lambda>d. the (map_of (byDay_loop byDay (scanLogs st)) d)) window)"

section \<open>Package search\<close>

record PackageSearchResult =
  ps_Ecosystem :: gostring
  ps_Name :: gostring
  ps_Version :: gostring
  ps_FindingsCount :: int
  ps_VulnerabilityCount :: int
  ps_VulnerabilityIDs :: gostring
  ps_FindingTypes :: gostring
  ps_Sources :: gostring

record PackageSearchParams =
  pp_Query :: gostring
  pp_Severity :: gostring
  pp_FindingType :: gostring
  pp_Limit :: int
  pp_Offset :: int

type_synonym noopPackageSearchKey = "gostring \<times> gostring"
type_synonym search_results = "(noopPackageSearchKey \<times> PackageSearchResult) list"

definition noopNormalizeSeverity :: "gostring \<Rightarrow> gostring" where
  "noopNormalizeSeverity severity =
     (let normalized = ToUpper (TrimSpace severity) in if normalized = [] then ''UNKNOWN'' else normalized)"

definition noopSourceLabel :: "gostring \<Rightarrow> gostring" where
  "noopSourceLabel source = (let source = TrimSpace source in if source = [] then ''unknown'' else source)"

definition noopVulnerabilitySources :: "Vulnerability \<Rightarrow> gostring list" where
  "noopVulnerabilitySources vuln =
     (if v_Sources vuln = [] then [''unknown''] else map (\<lambda>s. noopSourceLabel (vs_Source s)) (v_Sources vuln))"

definition csv_values :: "gostring \<Rightarrow> gostring list" where
  "csv_values s = filter (\<lambda>v. v \<noteq> []) (map TrimSpace (Split s (CHR '','')))"

definition noopMergeCSV :: "gostring \<Rightarrow> gostring \<Rightarrow> gostring" where
  "noopMergeCSV current incoming = Join (sort (remdups (csv_values current @ csv_values incoming))) '', ''"

definition splitSearchVulnerabilityIDs :: "gostring \<Rightarrow> gostring list" where
  "splitSearchVulnerabilityIDs ids = filter (\<lambda>p. p \<noteq> []) (map TrimSpace (Split ids (CHR '','')))"

definition SearchVulnerabilityIDPreviewLimit :: nat where
  "SearchVulnerabilityIDPreviewLimit = 5"

definition FormatSearchVulnerabilityIDPreview :: "gostring \<Rightarrow> int \<Rightarrow> gostring" where
  "FormatSearchVulnerabilityIDPreview ids found =
     (let parts = splitSearchVulnerabilityIDs ids in
      if parts = [] then []
      else
        let parts = (if length parts > SearchVulnerabilityIDPreviewLimit
                     then take SearchVulnerabilityIDPreviewLimit parts else parts);
            parts = (if found > int (length parts)
                     then parts @ [''+'' @ Itoa (found - int (length parts)) @ '' more''] else parts)
        in Join parts '', '')"

definition noopPackageSearchResult :: "search_results \<Rightarrow> noopPackageSearchKey \<Rightarrow> PackageSearchResult" where
  "noopPackageSearchResult results k =
     (case map_of results k of
        Some existing \<Rightarrow> existing
      | None \<Rightarrow> \<lparr>ps_Ecosystem = fst k, ps_Name = snd k, ps_Version = [], ps_FindingsCount = 0,
                 ps_VulnerabilityCount = 0, ps_VulnerabilityIDs = [], ps_FindingTypes = [], ps_Sources = []\<rparr>)"

definition count_vulnerability :: "Vulnerability \<Rightarrow> PackageSearchResult \<Rightarrow> PackageSearchResult" where
  "count_vulnerability vuln result =
     result\<lparr>ps_FindingsCount := ps_FindingsCount result + 1,
            ps_VulnerabilityCount := ps_VulnerabilityCount result + 1,
            ps_VulnerabilityIDs := noopMergeCSV (ps_VulnerabilityIDs result) (v_ID vuln),
            ps_FindingTypes := noopMergeCSV (ps_FindingTypes result) ''vulnerability'',
            ps_Sources := fold (\<lambda>source sources. noopMergeCSV sources source) (noopVulnerabilitySources vuln) (ps_Sources result)\<rparr>"

definition matches_query :: "gostring \<Rightarrow> gostring \<Rightarrow> bool" where
  "matches_query query name \<longleftrightarrow> \<not> (query \<noteq> [] \<and> \<not> Contains (ToLower name) query)"

fun seenPackages_loop ::
    "Vulnerability \<Rightarrow> gostring \<Rightarrow> AffectedPackage list \<Rightarrow> noopPackageSearchKey list \<Rightarrow> search_results \<Rightarrow> search_results" where
  "seenPackages_loop vuln query [] seen results = results"
| "seenPackages_loop vuln query (affected # rest) seen results =
     (let k = (ap_Ecosystem affected, ap_Name affected) in
      if \<not> matches_query query (ap_Name affected) then seenPackages_loop vuln query rest seen results
      else if k \<in> set seen then seenPackages_loop vuln query rest seen results
      else seenPackages_loop vuln query rest (k # seen)
        (AList.update k (count_vulnerability vuln (noopPackageSearchResult results k)) results))"

fun collectNoopVulnerabilitySearch ::
    "gostring \<Rightarrow> gostring \<Rightarrow> Vulnerability list \<Rightarrow> search_results \<Rightarrow> search_results" where
  "collectNoopVulnerabilitySearch query severity [] results = results"
| "collectNoopVulnerabilitySearch query severity (vuln # vulns) results =
     (if v_Withdrawn vuln \<noteq> None then collectNoopVulnerabilitySearch query severity vulns results
      else if severity \<noteq> [] \<and> noopNormalizeSeverity (v_Severity vuln) \<noteq> severity
      then collectNoopVulnerabilitySearch query severity vulns results
      else collectNoopVulnerabilitySearch query severity vulns
        (seenPackages_loop vuln query (v_AffectedPackages vuln) [] results))"

definition count_malicious :: "MaliciousFinding \<Rightarrow> PackageSearchResult \<Rightarrow> PackageSearchResult" where
  "count_malicious mf result =
     result\<lparr>ps_FindingsCount := ps_FindingsCount result + 1,
            ps_FindingTypes := noopMergeCSV (ps_FindingTypes result) ''malicious'',
            ps_Sources := noopMergeCSV (ps_Sources result) (noopSourceLabel (mf_Source mf))\<rparr>"

fun collectNoopMaliciousSearch ::
    "gostring \<Rightarrow> gostring \<Rightarrow> MaliciousFinding list \<Rightarrow> search_results \<Rightarrow> search_results" where
  "collectNoopMaliciousSearch query severity [] results = results"
| "collectNoopMaliciousSearch query severity (mf # mfs) results =
     (let k = (mf_Ecosystem mf, mf_Name mf) in
      if \<not> matches_query query (mf_Name mf) then collectNoopMaliciousSearch query severity mfs results
      else if severity \<noteq> [] \<and> noopNormalizeSeverity (mf_Severity mf) \<noteq> severity
      then collectNoopMaliciousSearch query severity mfs results
      else collectNoopMaliciousSearch query severity mfs
        (AList.update k (count_malicious mf (noopPackageSearchResult results k)) results))"

definition finalizeNoopPackageSearchResults :: "search_results \<Rightarrow> int \<Rightarrow> int \<Rightarrow> PackageSearchResult list" where
  "finalizeNoopPackageSearchResults results limit offset =
     page_from limit offset
       (sort_key (\<lambda>r. (ps_Name r, ps_Ecosystem r))
         (map (\<lambda>(k, r). r\<lparr>ps_VulnerabilityIDs :=
            FormatSearchVulnerabilityIDPreview (ps_VulnerabilityIDs r) (ps_VulnerabilityCount r)\<rparr>) results))"

definition SearchPackages :: "PackageSearchParams \<Rightarrow> Store \<Rightarrow> PackageSearchResult list" where
  "SearchPackages params st =
     (let query = TrimSpace (ToLower (pp_Query params));
          severity = ToUpper (TrimSpace (pp_Severity params));
          findingType = ToLower (TrimSpace (pp_FindingType params))
      in if query = [] \<and> severity = [] \<and> findingType = [] then []
         else
           let results = [];
               results = (if findingType = [] \<or> findingType = ''vulnerability''
                          then collectNoopVulnerabilitySearch query severity (map snd (vulnerable st)) results else results);
               results = (if findingType = [] \<or> findingType = ''malicious''
                          then collectNoopMaliciousSearch query severity (map snd (malicious st)) results else results)
           in finalizeNoopPackageSearchResults results (pp_Limit params) (pp_Offset params))"

section \<open>Dashboard\<close>

record DashboardStatsResult =
  dr_TotalPackages :: int
  dr_TotalVulnerabilities :: int
  dr_TotalMalicious :: int
  dr_TotalSupplyChainRisk :: int
  dr_TotalLifecycle :: int
  dr_BySeverity :: "(gostring \<times> int) list"

definition bump :: "gostring \<Rightarrow> (gostring \<times> int) list \<Rightarrow> (gostring \<times> int) list" where
  "bump k m = AList.update k ((case map_of m k of Some n \<Rightarrow> n | None \<Rightarrow> 0) + 1) m"

definition DashboardStats :: "Store \<Rightarrow> DashboardStatsResult" where
  "DashboardStats st =
     (let live = filter (\<lambda>v. v_Withdrawn v = None) (map snd (vulnerable st));
          mals = map snd (malicious st);
          packages = concat (map (\<lambda>v. map (\<lambda>a. ap_Ecosystem a @ ''/'' @ ap_Name a) (v_AffectedPackages v)) live) @
                     map (\<lambda>m. mf_Ecosystem m @ ''/'' @ mf_Name m) mals
      in \<lparr>dr_TotalPackages = int (length (remdups packages)),
          dr_TotalVulnerabilities = int (length live),
          dr_TotalMalicious = int (length mals),
          dr_TotalSupplyChainRisk = 0, dr_TotalLifecycle = 0,
          dr_BySeverity = fold (\<lambda>m. bump (noopNormalizeSeverity (mf_Severity m))) mals
            (fold (\<lambda>v. bump (noopNormalizeSeverity (v_Severity v))) live [])\<rparr>)"

section \<open>Replayed scans\<close>

inductive scan_step :: "Store \<Rightarrow> Store \<Rightarrow> bool" where
  insert: "scan_step st (snd (InsertScanLog entry st))"
| prune: "scan_step st (snd (PruneScanLogs now retention st))"

definition scan_keys :: "Store \<Rightarrow> gostring list" where
  "scan_keys st = filter (\<lambda>k. k \<noteq> []) (map sl_IdempotencyKey (scanLogs st))"

lemma distinct_filter_keys:
  "distinct (filter P (map f xs)) \<Longrightarrow> distinct (filter P (map f (filter Q xs)))"
  by (induction xs) auto

lemma scan_step_keys:
  assumes "scan_step st st'" and "distinct (scan_keys st)"
  shows "distinct (scan_keys st')"
  using assms
proof cases
  case (insert entry)
  then show ?thesis using assms(2) by (auto simp: scan_keys_def InsertScanLog_def list_ex_iff)
next
  case (prune now retention)
  then show ?thesis using assms(2) by (simp add: scan_keys_def PruneScanLogs_def Let_def distinct_filter_keys)
qed

lemma find_append: "find P (xs @ ys) = (case find P xs of Some x \<Rightarrow> Some x | None \<Rightarrow> find P ys)"
  by (induction xs) auto

lemma find_None_list_ex: "find P xs = None \<longleftrightarrow> \<not> list_ex P xs"
  by (induction xs) auto

lemma InsertScanLog_get:
  assumes "k \<noteq> []"
  shows "GetScanLogByIdempotencyKey k (snd (InsertScanLog e st)) =
    (case GetScanLogByIdempotencyKey k st of
       Some old \<Rightarrow> Some old
     | None \<Rightarrow> if sl_IdempotencyKey e = k then Some e else None)"
proof (cases "GetScanLogByIdempotencyKey k st")
  case None
  then have "\<not> list_ex (\<lambda>e. sl_IdempotencyKey e = k) (scanLogs st)"
    unfolding GetScanLogByIdempotencyKey_def find_None_list_ex by simp
  with None assms show ?thesis by (auto simp: GetScanLogByIdempotencyKey_def InsertScanLog_def find_append)
qed (auto simp: GetScanLogByIdempotencyKey_def InsertScanLog_def find_append)

definition insert_scans :: "ScanLogEntry list \<Rightarrow> Store \<Rightarrow> Store" where
  "insert_scans es st = fold (\<lambda>e st. snd (InsertScanLog e st)) es st"

lemma insert_scans_get:
  assumes "k \<noteq> []"
  shows "GetScanLogByIdempotencyKey k (insert_scans es st) =
    (case GetScanLogByIdempotencyKey k st of
       Some old \<Rightarrow> Some old
     | None \<Rightarrow> find (\<lambda>e. sl_IdempotencyKey e = k) es)"
proof (induction es arbitrary: st)
  case (Cons e es)
  then show ?case
    using InsertScanLog_get [OF assms, of e st] by (auto simp: insert_scans_def split: option.splits)
qed (simp add: insert_scans_def split: option.split)

section \<open>Paging and counting the log\<close>

lemma recent_loop_copies:
  "offset \<le> skipped \<Longrightarrow> int (length out) \<le> limit \<Longrightarrow>
   recent_loop limit offset skipped es out = out @ take (nat (limit - int (length out))) es"
proof (induction es arbitrary: out)
  case (Cons e es)
  show ?case
  proof (cases "int (length out) < limit")
    case True
    then have "nat (limit - int (length out)) = Suc (nat (limit - int (length (out @ [e]))))" by auto
    then show ?thesis using Cons True by simp
  qed (use Cons in simp)
qed simp

lemma recent_loop_page:
  "0 \<le> skipped \<Longrightarrow> skipped \<le> offset \<Longrightarrow> 0 < limit \<Longrightarrow>
   recent_loop limit offset skipped es [] = take (nat limit) (drop (nat (offset - skipped)) es)"
proof (induction es arbitrary: skipped)
  case (Cons e es)
  show ?case
  proof (cases "skipped < offset")
    case True
    then have "nat (offset - skipped) = Suc (nat (offset - (skipped + 1)))" by auto
    then show ?thesis using Cons True by simp
  next
    case False
    then have "skipped = offset" using Cons.prems by simp
    then show ?thesis using recent_loop_copies [of offset skipped "[]" limit "e # es"] Cons.prems by simp
  qed
qed simp

lemma ListRecentScans_page:
  "ListRecentScans limit offset st =
     (let page = drop (nat offset) (rev (scanLogs st)) in if limit \<le> 0 then page else take (nat limit) page)"
proof (cases "offset \<ge> int (length (scanLogs st)) \<or> scanLogs st = []")
  case True
  then show ?thesis by (auto simp: ListRecentScans_def Let_def)
next
  case False
  let ?n = "int (length (scanLogs st))" and ?l = "if limit \<le> 0 \<or> limit > int (length (scanLogs st)) then int (length (scanLogs st)) else limit"
  have "0 < ?l" using False by auto
  then have "recent_loop ?l (if offset < 0 then 0 else offset) 0 (rev (scanLogs st)) [] =
      take (nat ?l) (drop (nat offset) (rev (scanLogs st)))"
    by (subst recent_loop_page) auto
  with False show ?thesis by (auto simp: ListRecentScans_def Let_def)
qed

lemma byDay_loop_counts:
  "map_of byDay d = Some row \<Longrightarrow>
   \<exists>row'. map_of (byDay_loop byDay es) d = Some row' \<and> ds_Date row' = ds_Date row \<and>
     ds_ScanCount row' = ds_ScanCount row + int (length (filter (\<lambda>e. day_of (sl_ScannedAt e) = d) es))"
proof (induction es arbitrary: byDay row)
  case (Cons e es)
  show ?case
  proof (cases "map_of byDay (day_of (sl_ScannedAt e))")
    case None
    then show ?thesis using Cons by auto
  next
    case (Some r)
    show ?thesis
    proof (cases "day_of (sl_ScannedAt e) = d")
      case True
      then show ?thesis using Cons.IH [of "AList.update d _ byDay"] Cons.prems Some by (fastforce simp: update_conv')
    next
      case False
      then show ?thesis using Cons.IH [of "AList.update (day_of (sl_ScannedAt e)) _ byDay" row] Cons.prems Some
        by (auto simp: update_conv')
    qed
  qed
qed simp

lemma CountScansByDay_counts:
  fixes now days
  defines "n \<equiv> if days \<le> 0 then 7 else days"
  shows "map ds_Date (CountScansByDay now days st) = map (\<lambda>i. (day_of now - (n - 1) + int i) * day) [0..<nat n]"
    and "map ds_ScanCount (CountScansByDay now days st) =
      map (\<lambda>i. int (length (filter (\<lambda>e. day_of (sl_ScannedAt e) = day_of now - (n - 1) + int i) (scanLogs st)))) [0..<nat n]"
proof -
  let ?w = "map (\<lambda>i. day_of now - (n - 1) + int i) [0..<nat n]"
  let ?b = "map (\<lambda>d. (d, \<lparr>ds_Date = d * day, ds_ScanCount = 0, ds_FindingsCount = 0\<rparr>)) ?w"
  have row: "\<exists>row'. map_of (byDay_loop ?b (scanLogs st)) d = Some row' \<and> ds_Date row' = d * day \<and>
      ds_ScanCount row' = int (length (filter (\<lambda>e. day_of (sl_ScannedAt e) = d) (scanLogs st)))" if "d \<in> set ?w" for d
  proof -
    have "map_of ?b d = Some \<lparr>ds_Date = d * day, ds_ScanCount = 0, ds_FindingsCount = 0\<rparr>"
      using that unfolding map_of_map_restrict by (simp only: restrict_in comp_apply)
    from byDay_loop_counts [OF this, of "scanLogs st"] show ?thesis by simp
  qed
  have eq: "CountScansByDay now days st = map (\<lambda>d. the (map_of (byDay_loop ?b (scanLogs st)) d)) ?w"
    by (simp add: CountScansByDay_def n_def Let_def)
  show "map ds_Date (CountScansByDay now days st) = map (\<lambda>i. (day_of now - (n - 1) + int i) * day) [0..<nat n]"
    unfolding eq using row by (fastforce simp: comp_def)
  show "map ds_ScanCount (CountScansByDay now days st) =
      map (\<lambda>i. int (length (filter (\<lambda>e. day_of (sl_ScannedAt e) = day_of now - (n - 1) + int i) (scanLogs st)))) [0..<nat n]"
    unfolding eq using row by (fastforce simp: comp_def)
qed

section \<open>What the search lists\<close>

definition vulnerability_matches :: "gostring \<Rightarrow> gostring \<Rightarrow> noopPackageSearchKey \<Rightarrow> Vulnerability \<Rightarrow> bool" where
  "vulnerability_matches query severity k v \<longleftrightarrow>
     v_Withdrawn v = None \<and> (severity = [] \<or> noopNormalizeSeverity (v_Severity v) = severity) \<and>
     matches_query query (snd k) \<and> (\<exists>a \<in> set (v_AffectedPackages v). (ap_Ecosystem a, ap_Name a) = k)"

definition malicious_matches :: "gostring \<Rightarrow> gostring \<Rightarrow> noopPackageSearchKey \<Rightarrow> MaliciousFinding \<Rightarrow> bool" where
  "malicious_matches query severity k m \<longleftrightarrow>
     (severity = [] \<or> noopNormalizeSeverity (mf_Severity m) = severity) \<and>
     matches_query query (snd k) \<and> (mf_Ecosystem m, mf_Name m) = k"

text \<open>The two counters of a package, if it is listed, and what a finding adds to them.\<close>

definition tally :: "search_results \<Rightarrow> noopPackageSearchKey \<Rightarrow> (int \<times> int) option" where
  "tally results k = map_option (\<lambda>r. (ps_FindingsCount r, ps_VulnerabilityCount r)) (map_of results k)"

definition add_counts :: "int \<Rightarrow> (int \<times> int) option \<Rightarrow> (int \<times> int) option" where
  "add_counts v t = (case t of None \<Rightarrow> Some (1, v) | Some (a, b) \<Rightarrow> Some (a + 1, b + v))"

lemma tally_update:
  "tally (AList.update k (count_vulnerability vuln (noopPackageSearchResult results k)) results) k' =
     (if k' = k then add_counts 1 (tally results k) else tally results k')"
  "tally (AList.update k (count_malicious mf (noopPackageSearchResult results k)) results) k' =
     (if k' = k then add_counts 0 (tally results k) else tally results k')"
  by (auto simp: tally_def update_conv' add_counts_def count_vulnerability_def count_malicious_def
      noopPackageSearchResult_def split: option.split)

lemma tally_seenPackages:
  "tally (seenPackages_loop vuln query as seen results) k =
     (if k \<notin> set seen \<and> matches_query query (snd k) \<and> (\<exists>a \<in> set as. (ap_Ecosystem a, ap_Name a) = k)
      then add_counts 1 (tally results k) else tally results k)"
proof (induction as arbitrary: seen results)
  case (Cons a as)
  let ?k = "(ap_Ecosystem a, ap_Name a)"
  consider "\<not> matches_query query (ap_Name a)" | "matches_query query (ap_Name a)" "?k \<in> set seen"
    | "matches_query query (ap_Name a)" "?k \<notin> set seen" by blast
  then show ?case
  proof cases
    case 3
    then show ?thesis using Cons.IH [of "?k # seen"] by (auto simp: Let_def tally_update)
  qed (use Cons.IH in \<open>auto simp: Let_def\<close>)
qed simp

lemma tally_vulnerabilities:
  "tally (collectNoopVulnerabilitySearch query severity vulns results) k =
     (add_counts 1 ^^ length (filter (vulnerability_matches query severity k) vulns)) (tally results k)"
  by (induction vulns arbitrary: results)
    (auto simp: vulnerability_matches_def tally_seenPackages funpow_swap1)

lemma tally_malicious:
  "tally (collectNoopMaliciousSearch query severity mfs results) k =
     (add_counts 0 ^^ length (filter (malicious_matches query severity k) mfs)) (tally results k)"
  by (induction mfs arbitrary: results)
    (auto simp: malicious_matches_def tally_update funpow_swap1 Let_def)

lemma add_counts_pow_Some: "(add_counts v ^^ n) (Some (a, b)) = Some (a + int n, b + int n * v)"
  by (induction n) (auto simp: add_counts_def algebra_simps)

lemma add_counts_pow_None: "(add_counts v ^^ n) None = (if n = 0 then None else Some (int n, int n * v))"
proof (cases n)
  case (Suc m)
  then have "(add_counts v ^^ n) None = (add_counts v ^^ m) (Some (1, v))"
    by (simp only: funpow_Suc_right comp_apply add_counts_def option.case)
  then show ?thesis using Suc by (simp add: add_counts_pow_Some algebra_simps)
qed simp

lemma set_update_subset: "set (AList.update k v xs) \<subseteq> insert (k, v) (set xs)"
  by (induction xs) auto

definition well_keyed :: "search_results \<Rightarrow> bool" where
  "well_keyed results \<longleftrightarrow> distinct (map fst results) \<and> (\<forall>(k, r) \<in> set results. k = (ps_Ecosystem r, ps_Name r))"

lemma well_keyed_update:
  assumes "well_keyed results"
  shows "well_keyed (AList.update k (count_vulnerability vuln (noopPackageSearchResult results k)) results)"
    and "well_keyed (AList.update k (count_malicious mf (noopPackageSearchResult results k)) results)"
proof -
  have key: "(ps_Ecosystem (noopPackageSearchResult results k), ps_Name (noopPackageSearchResult results k)) = k"
    using assms by (auto simp: well_keyed_def noopPackageSearchResult_def dest: map_of_SomeD split: option.split)
  have upd: "well_keyed (AList.update k r results)" if "(ps_Ecosystem r, ps_Name r) = k" for r
    using assms that set_update_subset [of k r results]
    by (fastforce simp: well_keyed_def distinct_update)
  show "well_keyed (AList.update k (count_vulnerability vuln (noopPackageSearchResult results k)) results)"
    and "well_keyed (AList.update k (count_malicious mf (noopPackageSearchResult results k)) results)"
    using key by (auto intro!: upd simp: count_vulnerability_def count_malicious_def)
qed

lemma well_keyed_seenPackages:
  "well_keyed results \<Longrightarrow> well_keyed (seenPackages_loop vuln query as seen results)"
  by (induction as arbitrary: seen results) (auto simp: Let_def well_keyed_update)

lemma well_keyed_vulnerabilities:
  "well_keyed results \<Longrightarrow> well_keyed (collectNoopVulnerabilitySearch query severity vulns results)"
  by (induction vulns arbitrary: results) (auto simp: well_keyed_seenPackages)

lemma well_keyed_malicious:
  "well_keyed results \<Longrightarrow> well_keyed (collectNoopMaliciousSearch query severity mfs results)"
  by (induction mfs arbitrary: results) (auto simp: Let_def well_keyed_update)

definition collected :: "PackageSearchParams \<Rightarrow> Store \<Rightarrow> search_results" where
  "collected params st =
     (let query = TrimSpace (ToLower (pp_Query params));
          severity = ToUpper (TrimSpace (pp_Severity params));
          findingType = ToLower (TrimSpace (pp_FindingType params));
          results = (if findingType = [] \<or> findingType = ''vulnerability''
                     then collectNoopVulnerabilitySearch query severity (map snd (vulnerable st)) [] else [])
      in if findingType = [] \<or> findingType = ''malicious''
         then collectNoopMaliciousSearch query severity (map snd (malicious st)) results else results)"

text \<open>The vulnerabilities and the malicious findings of a package that pass the filters.\<close>

definition hits :: "PackageSearchParams \<Rightarrow> Store \<Rightarrow> noopPackageSearchKey \<Rightarrow> nat \<times> nat" where
  "hits params st k =
     (let query = TrimSpace (ToLower (pp_Query params));
          severity = ToUpper (TrimSpace (pp_Severity params));
          findingType = ToLower (TrimSpace (pp_FindingType params))
      in (if findingType = [] \<or> findingType = ''vulnerability''
          then length (filter (vulnerability_matches query severity k) (map snd (vulnerable st))) else 0,
          if findingType = [] \<or> findingType = ''malicious''
          then length (filter (malicious_matches query severity k) (map snd (malicious st))) else 0))"

definition filtered :: "PackageSearchParams \<Rightarrow> bool" where
  "filtered params \<longleftrightarrow> TrimSpace (ToLower (pp_Query params)) \<noteq> [] \<or> ToUpper (TrimSpace (pp_Severity params)) \<noteq> [] \<or>
     ToLower (TrimSpace (pp_FindingType params)) \<noteq> []"

lemma tally_collected:
  "tally (collected params st) k =
     (case hits params st k of (v, m) \<Rightarrow> if v + m = 0 then None else Some (int (v + m), int v))"
proof -
  have "tally [] k = None" by (simp add: tally_def)
  then show ?thesis
    by (simp add: collected_def hits_def Let_def tally_malicious tally_vulnerabilities add_counts_pow_None add_counts_pow_Some)
qed

lemma collected_well_keyed: "well_keyed (collected params st)"
proof -
  have "well_keyed []" by (simp add: well_keyed_def)
  then show ?thesis by (simp add: collected_def Let_def well_keyed_malicious well_keyed_vulnerabilities)
qed

lemma page_from_all [simp]: "page_from 0 0 xs = xs"
  by (simp add: page_from_def)

lemma SearchPackages_collected:
  "filtered params \<Longrightarrow>
   SearchPackages params st = finalizeNoopPackageSearchResults (collected params st) (pp_Limit params) (pp_Offset params)"
  by (auto simp: SearchPackages_def filtered_def collected_def Let_def)

lemma distinct_map_sort_key: "distinct (map f (sort_key k xs)) = distinct (map f xs)"
  by (simp add: distinct_map)

lemma well_keyed_sorted:
  assumes "well_keyed results"
  shows "sorted_wrt (\<lambda>r s. (ps_Name r, ps_Ecosystem r) < (ps_Name s, ps_Ecosystem s))
    (finalizeNoopPackageSearchResults results 0 0)"
proof -
  let ?key = "\<lambda>r. (ps_Name r, ps_Ecosystem r)" and ?out = "finalizeNoopPackageSearchResults results 0 0"
  have "map ?key (map (\<lambda>(k, r). r\<lparr>ps_VulnerabilityIDs := f r\<rparr>) results) = map prod.swap (map fst results)" for f
    using assms by (auto simp: well_keyed_def)
  moreover have "distinct (map prod.swap (map fst results))"
    using assms unfolding well_keyed_def by (subst distinct_map) simp
  ultimately have "distinct (map ?key (map (\<lambda>(k, r). r\<lparr>ps_VulnerabilityIDs := f r\<rparr>) results))" for f
    by (simp only:)
  then have "distinct (map ?key ?out)"
    unfolding finalizeNoopPackageSearchResults_def page_from_all distinct_map_sort_key .
  moreover have "sorted (map ?key ?out)"
    unfolding finalizeNoopPackageSearchResults_def page_from_all by simp
  ultimately have "sorted_wrt (<) (map ?key ?out)" by (simp add: strict_sorted_iff)
  then show ?thesis by (simp add: sorted_wrt_map)
qed

lemma finalize_counts:
  assumes "well_keyed results"
  shows "(\<lambda>r. ((ps_Ecosystem r, ps_Name r), ps_FindingsCount r, ps_VulnerabilityCount r)) `
      set (finalizeNoopPackageSearchResults results 0 0) = {(k, a, b). tally results k = Some (a, b)}"
proof -
  have "(\<lambda>r. ((ps_Ecosystem r, ps_Name r), ps_FindingsCount r, ps_VulnerabilityCount r)) `
      set (finalizeNoopPackageSearchResults results 0 0) =
      (\<lambda>(k, r). ((ps_Ecosystem r, ps_Name r), ps_FindingsCount r, ps_VulnerabilityCount r)) ` set results"
    unfolding finalizeNoopPackageSearchResults_def page_from_all
    by (force simp: image_iff split: prod.splits)
  also have "\<dots> = (\<lambda>(k, r). (k, ps_FindingsCount r, ps_VulnerabilityCount r)) ` set results"
    using assms by (force simp: well_keyed_def image_iff)
  also have "\<dots> = {(k, a, b). tally results k = Some (a, b)}"
    using assms by (force simp: well_keyed_def tally_def map_of_eq_Some_iff image_iff)
  finally show ?thesis .
qed

text \<open>
  The search of the store is complete and exact. When at least one filter is given, the whole
  result (page size and offset dropped) lists in the order of their names and ecosystems, each once,
  exactly the packages with a finding that passes the filters, with the number of their findings and
  of their vulnerabilities; withdrawn vulnerabilities do not count, and a vulnerability that names a
  package several times counts once. Every page is the corresponding section of that result.
\<close>

theorem SearchPackages_exact:
  assumes "filtered params"
  shows "let found = SearchPackages (params\<lparr>pp_Limit := 0, pp_Offset := 0\<rparr>) st in
    sorted_wrt (\<lambda>r s. (ps_Name r, ps_Ecosystem r) < (ps_Name s, ps_Ecosystem s)) found \<and>
    (\<lambda>r. ((ps_Ecosystem r, ps_Name r), ps_FindingsCount r, ps_VulnerabilityCount r)) ` set found =
      {(k, int (v + m), int v) | k v m. hits params st k = (v, m) \<and> 0 < v + m} \<and>
    SearchPackages params st = page_from (pp_Limit params) (pp_Offset params) found"
proof -
  let ?all = "params\<lparr>pp_Limit := 0, pp_Offset := 0\<rparr>"
  have all: "filtered ?all" "collected ?all st = collected params st"
    using assms by (simp_all add: filtered_def collected_def)
  have "(\<lambda>r. ((ps_Ecosystem r, ps_Name r), ps_FindingsCount r, ps_VulnerabilityCount r)) ` set (SearchPackages ?all st) =
      {(k, int (v + m), int v) | k v m. hits params st k = (v, m) \<and> 0 < v + m}"
    by (auto simp: SearchPackages_collected all finalize_counts [OF collected_well_keyed] tally_collected split: prod.splits if_splits)
  moreover have "SearchPackages params st = page_from (pp_Limit params) (pp_Offset params) (SearchPackages ?all st)"
    by (simp add: SearchPackages_collected all assms finalizeNoopPackageSearchResults_def)
  ultimately show ?thesis
    using well_keyed_sorted [OF collected_well_keyed] by (simp add: SearchPackages_collected all Let_def)
qed

definition evil_search :: PackageSearchParams where
  "evil_search = \<lparr>pp_Query = '' EVIL'', pp_Severity = [], pp_FindingType = ''malicious'', pp_Limit = 0, pp_Offset = 0\<rparr>"

theorem SearchPackages_exact_witness:
  "filtered evil_search \<and> hits evil_search one_finding (''pypi'', ''evil-pkg'') = (0, 1) \<and>
   ((''pypi'', ''evil-pkg''), 1, 0) \<in> (\<lambda>r. ((ps_Ecosystem r, ps_Name r), ps_FindingsCount r, ps_VulnerabilityCount r)) `
     set (SearchPackages evil_search one_finding)"
proof -
  have filtered: "filtered evil_search" by code_simp
  have hit: "hits evil_search one_finding (''pypi'', ''evil-pkg'') = (0, 1)" by code_simp
  have all: "evil_search\<lparr>pp_Limit := 0, pp_Offset := 0\<rparr> = evil_search" by (simp add: evil_search_def)
  have "(\<lambda>r. ((ps_Ecosystem r, ps_Name r), ps_FindingsCount r, ps_VulnerabilityCount r)) ` set (SearchPackages evil_search one_finding) =
      {(k, int (v + m), int v) | k v m. hits evil_search one_finding k = (v, m) \<and> 0 < v + m}"
    using SearchPackages_exact [OF filtered, of one_finding] by (simp only: Let_def all)
  with filtered hit show ?thesis by force
qed

text \<open>
  C40: A replayed scan is answered by its first run. In every store reached by recording and pruning
  scans no two rows carry the same idempotency key, and for a key that is not empty any further
  sequence of recorded scans leaves the row of the key as it is, or, if there is none yet, the
  first of the new scans with the key is the one a lookup finds.
\<close>

theorem scan_log_idempotent:
  assumes "scan_step\<^sup>*\<^sup>* NewStore st" and "k \<noteq> []"
  shows "distinct (filter (\<lambda>k. k \<noteq> []) (map sl_IdempotencyKey (scanLogs st))) \<and>
    GetScanLogByIdempotencyKey k (fold (\<lambda>e st. snd (InsertScanLog e st)) es st) =
      (case GetScanLogByIdempotencyKey k st of
         Some first \<Rightarrow> Some first
       | None \<Rightarrow> find (\<lambda>e. sl_IdempotencyKey e = k) es)"
proof -
  have "distinct (scan_keys st)"
    using assms(1) by (induction rule: rtranclp_induct) (simp add: scan_keys_def NewStore_def, rule scan_step_keys)
  then show ?thesis using insert_scans_get [OF assms(2), of es st] by (simp add: scan_keys_def insert_scans_def)
qed

definition example_scan :: ScanLogEntry where
  "example_scan = \<lparr>sl_ScanID = ''s1'', sl_RepoName = ''repo'', sl_ScannedAt = 5 * day, sl_PackagesCount = 3,
     sl_FindingsCount = 1, sl_DurationMs = 20, sl_ClientIP = [], sl_ClientVersion = [], sl_APIKeyID = 1,
     sl_APIKeyName = ''ci'', sl_CorrelationID = [], sl_IdempotencyKey = ''run-7'', sl_RequestDigest = [],
     sl_ResultDigest = [], sl_FindingsBlocking = True, sl_BlockThreshold = ''HIGH'', sl_FeedStatus = [],
     sl_FeedVersions = [], sl_FindingIDs = [], sl_FindingSeverities = [], sl_ManualAdvisoriesCount = 0\<rparr>"

theorem scan_log_idempotent_witness:
  "scan_step\<^sup>*\<^sup>* NewStore (snd (InsertScanLog example_scan NewStore)) \<and>
   GetScanLogByIdempotencyKey ''run-7''
     (fold (\<lambda>e st. snd (InsertScanLog e st)) [example_scan\<lparr>sl_FindingsCount := 9\<rparr>]
       (snd (InsertScanLog example_scan NewStore))) = Some example_scan"
proof -
  have reach: "scan_step\<^sup>*\<^sup>* NewStore (snd (InsertScanLog example_scan NewStore))"
    by (rule r_into_rtranclp) (rule scan_step.insert)
  have "GetScanLogByIdempotencyKey ''run-7'' (snd (InsertScanLog example_scan NewStore)) = Some example_scan"
    by (simp add: GetScanLogByIdempotencyKey_def InsertScanLog_def NewStore_def example_scan_def)
  with reach scan_log_idempotent [OF reach, of "''run-7''" "[example_scan\<lparr>sl_FindingsCount := 9\<rparr>]"]
  show ?thesis by simp
qed

end
