(* ===== verification/WholeStore.thy ===== *)
theory WholeStore
  imports RefreshQueue FindingStore AdminStore ScanLogs
begin

text \<open>
  The in-memory store as a whole: the operations of the refresh queue, the advisory tables, the
  administration and the scan log interleaved in any order on one store, as the HTTP handlers and
  the feed workers call them under its mutex (\<open>internal/devstore/noop.go\<close>).

  What one component promises must survive the operations of the others. A locale per component
  says which properties of a store its operations leave alone: those that do not depend on the
  fields it owns and survive an audit row. The invariants of the other components are such
  properties, so they hold over every interleaving.
\<close>

inductive store_step :: "DevEnv \<Rightarrow> Store \<Rightarrow> Store \<Rightarrow> bool" for env where
  queue: "queue_step env st st' \<Longrightarrow> store_step env st st'"
| retry: "retry_step env st st' \<Longrightarrow> store_step env st st'"
| finding: "finding_step env st st' \<Longrightarrow> store_step env st st'"
| admin: "admin_step env st st' \<Longrightarrow> store_step env st st'"
| scan: "scan_step st st' \<Longrightarrow> store_step env st st'"

section \<open>Properties that survive an audit row\<close>

locale audited_frame =
  fixes env :: DevEnv and P :: "Store \<Rightarrow> bool"
  assumes keeps_audit: "P st \<Longrightarrow> P (insertAdminAuditLogLocked env now a st)"

section \<open>What the refresh queue leaves alone\<close>

locale queue_frame = audited_frame +
  assumes ignores_queue: "P (st\<lparr>refreshJobs := jobs\<rparr>) = P st" "P (st\<lparr>nextJobID := n\<rparr>) = P st"
    "P (st\<lparr>checkStatuses := statuses\<rparr>) = P st"
begin

lemma enqueue_keeps: "P st \<Longrightarrow> P (snd (enqueueRefreshLocked now job st))"
  by (simp add: enqueueRefreshLocked_def Let_def ignores_queue split: option.split)

lemma enqueue_audited_keeps: "P st \<Longrightarrow> P (snd (EnqueueRefreshWithAudit env now job builder st))"
  using enqueue_keeps [of st now job]
  by (auto simp: EnqueueRefreshWithAudit_def keeps_audit split: prod.splits sum.splits option.splits)

lemma change_job_keeps: "P st \<Longrightarrow> P (audit st) \<Longrightarrow> P (snd (change_job jobID allowed refusal change audit st))"
  by (simp add: change_job_def Let_def ignores_queue split: option.split)

lemma remove_jobs_keeps: "P st \<Longrightarrow> P (snd (remove_jobs gone st))"
  by (simp add: remove_jobs_def ignores_queue)

lemma removal_keeps:
  assumes "P st"
  shows "P (snd (PurgeQueue st))" "P (snd (PurgeQueueWithAudit env now audit st))"
    "P (snd (PruneRefreshQueue now retention st))" "P (snd (ClearQueue statuses st))"
    "P (snd (ClearQueueWithAudit env now statuses audit st))"
  using assms
  by (auto simp: PurgeQueue_def PurgeQueueWithAudit_def PruneRefreshQueue_def ClearQueue_def ClearQueueWithAudit_def
      purgeQueueLocked_def clearQueueWithAllowedLocked_def Let_def case_prod_beta remove_jobs_keeps keeps_audit split: sum.split)

lemma queue_step_keeps:
  assumes "queue_step env st st'" and "P st"
  shows "P st'"
  using assms
  by cases (simp_all add: EnqueueRefresh_def enqueue_keeps enqueue_audited_keeps DequeueRefresh_def Let_def ignores_queue
      CompleteRefresh_def CompleteClaimedRefresh_def ResetStuckJobs_def UpdateQueueJobPriority_def
      UpdateQueueJobPriorityWithAudit_def PauseQueueJob_def PauseQueueJobWithAudit_def ResumeQueueJob_def
      ResumeQueueJobWithAudit_def change_job_keeps keeps_audit removal_keeps UpsertPackageCheckStatus_def
      PrunePackageCheckStatus_def split: option.split)

lemma retry_step_keeps:
  assumes "retry_step env st st'" and "P st"
  shows "P st'"
  using assms by cases (simp_all add: RetryQueueJob_def RetryQueueJobWithAudit_def change_job_keeps keeps_audit)

end

section \<open>What the advisory tables leave alone\<close>

locale finding_frame = audited_frame +
  assumes ignores_tables: "P (st\<lparr>vulnerable := vs\<rparr>) = P st" "P (st\<lparr>malicious := ms\<rparr>) = P st"
    "P (st\<lparr>maliciousDel := ds\<rparr>) = P st" "P (st\<lparr>nextManualID := n\<rparr>) = P st" "P (st\<lparr>feedStatuses := fs\<rparr>) = P st"
begin

lemma withdraw_keeps: "P st \<Longrightarrow> P (withdraw i finding st)"
  by (simp add: withdraw_def ignores_tables)

lemma upserts_keep:
  assumes "P st"
  shows "P (snd (upsertVulnerabilityLocked v st))" "P (snd (upsertMaliciousFindingLocked m st))"
    "P (snd (deleteVulnerabilityForSourceLocked i source st))" "P (snd (upsertFeedSyncStatusLocked now status st))"
    "P (snd (delete_malicious_for_feed feed i st))"
  using assms
  by (auto simp: upsertVulnerabilityLocked_def upsertMaliciousFindingLocked_def deleteVulnerabilityForSourceLocked_def
      upsertFeedSyncStatusLocked_def delete_malicious_for_feed_def Let_def ignores_tables withdraw_keeps split: option.split)

lemma import_loop_keeps:
  assumes "\<And>x st. P st \<Longrightarrow> P (snd (step x st))" and "P st"
  shows "P (snd (import_loop step xs n st))"
  using assms(2)
proof (induction xs arbitrary: n st)
  case (Cons x xs)
  then show ?case using assms(1) [of st x] by (auto split: prod.splits sum.splits)
qed simp

lemma write_status_keeps: "P st \<Longrightarrow> P (snd (write_status now status imported deleted st))"
  using upserts_keep(4) [of st now status] by (auto simp: write_status_def split: option.splits prod.splits sum.splits)

lemma audit_import_keeps: "P (snd r) \<Longrightarrow> P (snd (audit_import env now audit r))"
  by (auto simp: audit_import_def keeps_audit split: prod.splits option.splits)

lemma imports_keep:
  assumes "P st"
  shows "P (snd (importVulnerabilityFeedLocked now feed vs ids status st))"
    and "P (snd (importMaliciousFeedLocked now feed ms ids status st))"
proof -
  let ?v = "import_loop (\<lambda>v. upsertVulnerabilityLocked (Some v)) vs 0 st"
  let ?m = "import_loop (\<lambda>m. upsertMaliciousFindingLocked (Some m)) ms 0 st"
  have "P (snd ?v)" "P (snd ?m)"
    using assms upserts_keep by (auto intro!: import_loop_keeps)
  moreover have "P (snd (import_loop (\<lambda>i. deleteVulnerabilityForSourceLocked i feed) ids 0 st'))"
    "P (snd (import_loop (delete_malicious_for_feed feed) ids 0 st'))" if "P st'" for st'
    using that upserts_keep by (auto intro!: import_loop_keeps)
  ultimately show "P (snd (importVulnerabilityFeedLocked now feed vs ids status st))"
    and "P (snd (importMaliciousFeedLocked now feed ms ids status st))"
    by (auto simp: importVulnerabilityFeedLocked_def importMaliciousFeedLocked_def case_prod_beta write_status_keeps
        split: option.split)
qed

lemma pruned_keeps: "P st \<Longrightarrow> P (snd (prune_loop source ids rows n st))"
  by (induction source ids rows n st rule: prune_loop.induct) (auto simp: withdraw_keeps)

lemma deletes_keep:
  assumes "P st"
  shows "P (snd (DeleteMaliciousFinding i st))" "P (snd (DeleteMaliciousFindingForSource i source st))"
    "P (snd (DeleteMaliciousFindingsNotInSource source ids st))" "P (snd (DeleteVulnerability i st))"
  using assms pruned_keeps [of st source ids "malicious st" 0]
  by (auto simp: DeleteMaliciousFinding_def DeleteMaliciousFindingForSource_def DeleteMaliciousFindingsNotInSource_def
      DeleteVulnerability_def Let_def withdraw_keeps ignores_tables split: option.split prod.split)

lemma manual_keeps:
  assumes "P st"
  shows "P (snd (upsertManualAdvisoryLocked now a st))" "P (snd (deleteManualAdvisoryLocked i st))"
  using assms
  by (auto simp: upsertManualAdvisoryLocked_def deleteManualAdvisoryLocked_def Let_def withdraw_keeps ignores_tables
      split: option.split)

lemma finding_step_keeps:
  assumes "finding_step env st st'" and "P st"
  shows "P st'"
  using assms
  by cases (simp_all add: UpsertVulnerability_def UpsertMaliciousFinding_def upserts_keep imports_keep
      ImportVulnerabilityFeedWithAudit_def ImportMaliciousFeedWithAudit_def audit_import_keeps deletes_keep
      DeleteVulnerabilityForSource_def UpsertManualAdvisory_def UpsertManualAdvisoryWithAudit_def manual_keeps
      DeleteManualAdvisory_def DeleteManualAdvisoryWithAudit_def keeps_audit split: option.split)

end

section \<open>What the administration leaves alone\<close>

locale admin_frame = audited_frame +
  assumes ignores_admin: "P (st\<lparr>apiKeys := ks\<rparr>) = P st" "P (st\<lparr>nextAPIKeyID := n\<rparr>) = P st"
    "P (st\<lparr>adminAuth := auth\<rparr>) = P st" "P (st\<lparr>feedConfigs := cs\<rparr>) = P st" "P (st\<lparr>feedStatuses := fs\<rparr>) = P st"
    "P (st\<lparr>systemConfig := sys\<rparr>) = P st"
begin

lemma locked_keeps:
  assumes "P st"
  shows "P (snd (createAPIKeyLocked now name hash ex st))" "P (revoke_key now i st)" "P (drop_key i st)"
    "P (upsertAdminAuthLocked now hash boot st)" "P (upsertFeedConfigLocked now cfg st)" "P (deleteFeedConfigLocked feed st)"
    "P (snd (upsertFeedSyncStatusLocked now status st))" "P (upsertSystemSettingsLocked now settings st)"
  using assms
  by (auto simp: createAPIKeyLocked_def revoke_key_def drop_key_def upsertAdminAuthLocked_def upsertFeedConfigLocked_def
      deleteFeedConfigLocked_def upsertFeedSyncStatusLocked_def upsertSystemSettingsLocked_def Let_def ignores_admin
      split: option.split)

lemma enrichment_keeps: "P st \<Longrightarrow> P (snd (import_enrichment env now status builder st))"
  using locked_keeps(7) [of st now status]
  by (auto simp: import_enrichment_def audit_import_def write_status_def keeps_audit split: option.splits prod.splits sum.splits)

lemma keys_keep:
  assumes "P st"
  shows "P (snd (TouchAPIKeyLastUsed now i st))" "P (snd (CreateAPIKey now name hash ex st))"
    "P (snd (CreateAPIKeyWithAudit env now name hash ex audit st))" "P (snd (RevokeAPIKey now i st))"
    "P (snd (RevokeAPIKeyWithAudit env now i audit st))" "P (snd (DeleteAPIKey i st))"
    "P (snd (DeleteAPIKeyWithAudit env now i audit st))"
  using assms locked_keeps(1)
  by (auto simp: TouchAPIKeyLastUsed_def ignores_admin CreateAPIKey_def CreateAPIKeyWithAudit_def RevokeAPIKey_def
      RevokeAPIKeyWithAudit_def DeleteAPIKey_def DeleteAPIKeyWithAudit_def locked_keeps keeps_audit case_prod_beta
      split: option.split sum.split)

lemma admin_step_keeps:
  assumes "admin_step env st st'" and "P st"
  shows "P st'"
  using assms
  by cases (simp_all add: keys_keep UpsertAdminAuth_def UpsertAdminAuthWithAudit_def ChangeAdminPasswordWithAudit_def
      InsertAdminAuditLog_def UpsertFeedConfig_def UpsertFeedConfigWithAudit_def DeleteFeedConfig_def
      DeleteFeedConfigWithAudit_def UpsertFeedSyncStatus_def enrichment_keeps UpsertSystemSettings_def
      UpsertSystemSettingsWithAudit_def locked_keeps keeps_audit split: option.split)

end

section \<open>The invariants hold over every interleaving\<close>

definition audit_ok :: "DevEnv \<Rightarrow> Store \<Rightarrow> bool" where
  "audit_ok env st \<longleftrightarrow> appended (audit_env env) (nextAuditID st, auditLog st)"

definition scans_ok :: "Store \<Rightarrow> bool" where
  "scans_ok st \<longleftrightarrow> distinct (scan_keys st)"

lemma audit_ok_insert: "audit_ok env st \<Longrightarrow> audit_ok env (insertAdminAuditLogLocked env now a st)"
  unfolding audit_ok_def by (rule insertAdminAuditLogLocked_appended)

lemmas frame_defs = queue_ok_def tables_ok_def audit_ok_def scans_ok_def scan_keys_def retired_def keys_ok_def

interpretation table_queue: queue_frame env tables_ok for env
  by unfold_locales (simp_all add: frame_defs)

interpretation audit_queue: queue_frame env "audit_ok env" for env
  by unfold_locales (simp add: audit_ok_insert, simp_all add: frame_defs)

interpretation scan_queue: queue_frame env scans_ok for env
  by unfold_locales (simp_all add: frame_defs)

interpretation key_queue: queue_frame env keys_ok for env
  by unfold_locales (simp_all add: frame_defs)

interpretation retired_queue: queue_frame env "retired i" for env i
  by unfold_locales (simp_all add: frame_defs)

interpretation queue_finding: finding_frame env queue_ok for env
  by unfold_locales (simp_all add: frame_defs)

interpretation audit_finding: finding_frame env "audit_ok env" for env
  by unfold_locales (simp add: audit_ok_insert, simp_all add: frame_defs)

interpretation scan_finding: finding_frame env scans_ok for env
  by unfold_locales (simp_all add: frame_defs)

interpretation key_finding: finding_frame env keys_ok for env
  by unfold_locales (simp_all add: frame_defs)

interpretation retired_finding: finding_frame env "retired i" for env i
  by unfold_locales (simp_all add: frame_defs)

interpretation queue_admin: admin_frame env queue_ok for env
  by unfold_locales (simp_all add: frame_defs)

interpretation table_admin: admin_frame env tables_ok for env
  by unfold_locales (simp_all add: frame_defs)

interpretation audit_admin: admin_frame env "audit_ok env" for env
  by unfold_locales (simp add: audit_ok_insert, simp_all add: frame_defs)

interpretation scan_admin: admin_frame env scans_ok for env
  by unfold_locales (simp_all add: frame_defs)

lemma scan_step_frame:
  assumes "scan_step st st'"
  shows "queue_ok st' = queue_ok st" "tables_ok st' = tables_ok st" "audit_ok env st' = audit_ok env st"
    "keys_ok st' = keys_ok st" "retired i st' = retired i st"
proof -
  have "\<exists>logs. st' = st\<lparr>scanLogs := logs\<rparr>"
    using assms
  proof cases
    case (insert entry)
    then have "st' = st\<lparr>scanLogs := scanLogs st'\<rparr>" by (simp add: InsertScanLog_def)
    then show ?thesis by blast
  next
    case (prune now retention)
    then have "st' = st\<lparr>scanLogs := scanLogs st'\<rparr>" by (simp add: PruneScanLogs_def Let_def)
    then show ?thesis by blast
  qed
  then obtain logs where "st' = st\<lparr>scanLogs := logs\<rparr>" ..
  then show "queue_ok st' = queue_ok st" "tables_ok st' = tables_ok st" "audit_ok env st' = audit_ok env st"
    "keys_ok st' = keys_ok st" "retired i st' = retired i st"
    by (simp_all add: frame_defs)
qed

definition store_ok :: "DevEnv \<Rightarrow> Store \<Rightarrow> bool" where
  "store_ok env st \<longleftrightarrow> queue_ok st \<and> tables_ok st \<and> audit_ok env st \<and> scans_ok st \<and> keys_ok st"

lemma store_okD:
  assumes "store_ok env st"
  shows "queue_ok st" "tables_ok st" "audit_ok env st" "scans_ok st" "keys_ok st"
  using assms unfolding store_ok_def by auto

lemma NewStore_store_ok: "store_ok env NewStore"
  by (simp add: store_ok_def NewStore_ok NewStore_tables audit_ok_def scans_ok_def scan_keys_def keys_ok_def)
    (simp add: NewStore_def appended.start)

lemma finding_step_tables: "finding_step env st st' \<Longrightarrow> tables_ok st \<Longrightarrow> tables_ok st'"
  using finding_step_evolved [of env st st' "{}"] by (simp add: evolved_def)

lemma store_step_ok:
  assumes "store_step env st st'" and "store_ok env st"
  shows "store_ok env st'"
  using assms(1)
proof cases
  case queue
  then show ?thesis
    using store_okD [OF assms(2)] queue_effect_invariants(1) [OF queue_step_effect [OF queue]]
      table_queue.queue_step_keeps audit_queue.queue_step_keeps scan_queue.queue_step_keeps key_queue.queue_step_keeps
    unfolding store_ok_def by blast
next
  case retry
  then show ?thesis
    using store_okD [OF assms(2)] retry_step_ok table_queue.retry_step_keeps audit_queue.retry_step_keeps
      scan_queue.retry_step_keeps key_queue.retry_step_keeps
    unfolding store_ok_def by blast
next
  case finding
  then show ?thesis
    using store_okD [OF assms(2)] finding_step_tables queue_finding.finding_step_keeps audit_finding.finding_step_keeps
      scan_finding.finding_step_keeps key_finding.finding_step_keeps
    unfolding store_ok_def by blast
next
  case admin
  then show ?thesis
    using store_okD [OF assms(2)] admin_step_keys queue_admin.admin_step_keeps table_admin.admin_step_keeps
      audit_admin.admin_step_keeps scan_admin.admin_step_keeps
    unfolding store_ok_def by blast
next
  case scan
  then show ?thesis
    using store_okD [OF assms(2)] scan_step_frame [OF scan] scan_step_keys [OF scan]
    unfolding store_ok_def scans_ok_def by blast
qed

lemma store_steps_ok: "(store_step env)\<^sup>*\<^sup>* NewStore st \<Longrightarrow> store_ok env st"
  by (induction rule: rtranclp_induct) (auto simp: NewStore_store_ok intro: store_step_ok)

lemma store_step_retired: "store_step env st st' \<Longrightarrow> retired i st \<Longrightarrow> retired i st'"
  by (induction rule: store_step.induct)
    (auto simp: scan_step_frame intro: retired_queue.queue_step_keeps retired_queue.retry_step_keeps
      retired_finding.finding_step_keeps admin_step_retired)

lemma store_steps_retired: "(store_step env)\<^sup>*\<^sup>* st st' \<Longrightarrow> retired i st \<Longrightarrow> retired i st'"
  by (induction rule: rtranclp_induct) (auto intro: store_step_retired)

end
