(* ===== verification/FeedManager.thy ===== *)
theory FeedManager
  imports AdminStore
begin

text \<open>
  Running one feed (\<open>internal/feed/manager.go\<close>, \<open>feed.go\<close>), the status row a run leaves
  (\<open>status.go\<close>, \<open>internal/db/feed_sync_status.go\<close>) and the health the API reports from the rows
  (\<open>health.go\<close>).

  The manager reaches its store through an interface that can fail, so the model takes the two
  operations it calls as a record and writes every failure branch. What a syncer does, when its
  context ends and what the clocks read during a run come in as a record of outcomes per attempt.

  The laws the manager relies on are a locale over that record; its lemmas say which status a run
  leaves behind and that a failed run keeps the evidence of the last good one. The operations of the
  in-memory store satisfy the laws.
\<close>

section \<open>Status vocabulary\<close>

abbreviation FeedSyncStatusPending :: gostring where "FeedSyncStatusPending \<equiv> ''pending''"
abbreviation FeedSyncStatusRunning :: gostring where "FeedSyncStatusRunning \<equiv> ''running''"
abbreviation FeedSyncStatusSuccess :: gostring where "FeedSyncStatusSuccess \<equiv> ''success''"
abbreviation FeedSyncStatusError :: gostring where "FeedSyncStatusError \<equiv> ''error''"
abbreviation FeedSyncStatusSkipped :: gostring where "FeedSyncStatusSkipped \<equiv> ''skipped''"
abbreviation FeedSyncStatusDisabled :: gostring where "FeedSyncStatusDisabled \<equiv> ''disabled''"
abbreviation FeedSyncStatusExternal :: gostring where "FeedSyncStatusExternal \<equiv> ''external''"
abbreviation FeedSyncStatusRejected :: gostring where "FeedSyncStatusRejected \<equiv> ''rejected''"
abbreviation FeedSyncStatusPermanentError :: gostring where "FeedSyncStatusPermanentError \<equiv> ''permanent_error''"

definition feedSyncStatusValues :: "gostring list" where
  "feedSyncStatusValues =
     [FeedSyncStatusPending, FeedSyncStatusRunning, FeedSyncStatusSuccess, FeedSyncStatusError, FeedSyncStatusSkipped,
      FeedSyncStatusDisabled, FeedSyncStatusExternal, FeedSyncStatusRejected, FeedSyncStatusPermanentError]"

definition NormalizeFeedSyncStatus :: "gostring \<Rightarrow> gostring" where
  "NormalizeFeedSyncStatus status =
     (let status = ToLower (TrimSpace status) in if status = [] then FeedSyncStatusPending else status)"

definition IsValidFeedSyncStatus :: "gostring \<Rightarrow> bool" where
  "IsValidFeedSyncStatus status \<longleftrightarrow> NormalizeFeedSyncStatus status \<in>
     {FeedSyncStatusPending, FeedSyncStatusRunning, FeedSyncStatusSuccess, FeedSyncStatusError, FeedSyncStatusSkipped,
      FeedSyncStatusDisabled, FeedSyncStatusExternal, FeedSyncStatusRejected, FeedSyncStatusPermanentError}"

definition IsImportableFeedSyncStatus :: "gostring \<Rightarrow> bool" where
  "IsImportableFeedSyncStatus status \<longleftrightarrow> TrimSpace status \<in>
     {FeedSyncStatusSuccess, FeedSyncStatusError, FeedSyncStatusRunning, FeedSyncStatusSkipped,
      FeedSyncStatusDisabled, FeedSyncStatusPending, FeedSyncStatusRejected}"

section \<open>Feed health\<close>

definition DefaultHealthStaleAfter :: duration where
  "DefaultHealthStaleAfter = 48 * 3600 * second"

record HealthOptions =
  ho_Now :: gotime
  ho_StaleAfter :: duration

record HealthAssessment =
  ha_Status :: gostring
  ha_Reason :: gostring

abbreviation assessment :: "gostring \<Rightarrow> gostring \<Rightarrow> HealthAssessment" where
  "assessment s r \<equiv> \<lparr>ha_Status = s, ha_Reason = r\<rparr>"

text \<open>A zero \<open>Now\<close> stands for the wall clock, which is the first argument.\<close>

definition normalizedHealthOptions :: "gotime \<Rightarrow> HealthOptions \<Rightarrow> gotime \<times> duration" where
  "normalizedHealthOptions wall opts =
     (if IsZero (ho_Now opts) then wall else ho_Now opts,
      if ho_StaleAfter opts \<le> 0 then DefaultHealthStaleAfter else ho_StaleAfter opts)"

definition sync_age_health :: "gotime \<Rightarrow> duration \<Rightarrow> FeedSyncStatus \<Rightarrow> HealthAssessment" where
  "sync_age_health now staleAfter s =
     (case fs_LastSyncAt s of
        None \<Rightarrow> assessment ''error'' ''never synced''
      | Some lastSyncAt \<Rightarrow>
          if lastSyncAt > now then assessment ''warning'' ''last sync timestamp is in the future''
          else if now - lastSyncAt > staleAfter then assessment ''warning'' ''stale: no sync in 48h+''
          else if fs_EntriesTotal s = 0 \<and> fs_EntriesSynced s = 0 then assessment ''warning'' ''no entries synced yet''
          else assessment ''healthy'' [])"

definition FeedStatusHealth :: "gotime \<Rightarrow> FeedSyncStatus \<Rightarrow> HealthOptions \<Rightarrow> HealthAssessment" where
  "FeedStatusHealth wall s opts =
     (let (now, staleAfter) = normalizedHealthOptions wall opts;
          status = ToLower (TrimSpace (fs_LastSyncStatus s))
      in if status = FeedSyncStatusError then assessment ''error'' ''last sync failed''
         else if status = FeedSyncStatusPermanentError then assessment ''error'' ''permanent feed error''
         else if status = FeedSyncStatusDisabled then assessment ''disabled'' ''feed disabled''
         else if status = FeedSyncStatusExternal then assessment ''configured'' ''external feed managed outside Packmon''
         else if status = FeedSyncStatusRunning then assessment ''pending'' ''sync running''
         else if status = FeedSyncStatusPending then assessment ''pending'' ''sync pending''
         else if status = FeedSyncStatusSkipped then assessment ''warning'' ''last sync skipped''
         else if status = FeedSyncStatusRejected then assessment ''error'' ''feed import rejected''
         else if status \<noteq> [] \<and> status \<noteq> FeedSyncStatusSuccess then assessment ''error'' (''unknown feed status: '' @ status)
         else sync_age_health now staleAfter s)"

record RuntimeHealthConfig =
  rh_Enabled :: bool
  rh_Mode :: gostring
  rh_RequiresAPIKey :: bool
  rh_APIKey :: gostring
  rh_SupportsSyncInterval :: bool

abbreviation FeedModeSelf :: gostring where "FeedModeSelf \<equiv> ''self''"
abbreviation FeedModeExternal :: gostring where "FeedModeExternal \<equiv> ''external''"

definition RuntimeFeedHealth ::
    "gotime \<Rightarrow> RuntimeHealthConfig \<Rightarrow> FeedSyncStatus option \<Rightarrow> HealthOptions \<Rightarrow> HealthAssessment" where
  "RuntimeFeedHealth wall cfg status opts =
     (if \<not> rh_Enabled cfg then assessment ''disabled'' ''feed disabled''
      else case status of
             Some s \<Rightarrow> FeedStatusHealth wall s opts
           | None \<Rightarrow>
               if rh_Mode cfg = FeedModeExternal then assessment ''configured'' ''external feed managed outside Packmon''
               else if rh_RequiresAPIKey cfg \<and> TrimSpace (rh_APIKey cfg) = []
               then assessment ''warning'' ''required API key not configured''
               else if \<not> rh_SupportsSyncInterval cfg then assessment ''configured'' ''feed configured''
               else assessment ''pending'' ''never synced'')"

definition HasFreshFeedEntries :: "gotime \<Rightarrow> FeedSyncStatus \<Rightarrow> HealthOptions \<Rightarrow> bool" where
  "HasFreshFeedEntries wall s opts =
     (case fs_LastSyncAt s of
        None \<Rightarrow> False
      | Some lastSyncAt \<Rightarrow>
          (let (now, staleAfter) = normalizedHealthOptions wall opts in
           if lastSyncAt > now then False
           else if now - lastSyncAt > staleAfter then False
           else fs_EntriesTotal s \<noteq> 0 \<or> fs_EntriesSynced s \<noteq> 0))"

definition overallStatusExcludedFeeds :: "gostring list" where
  "overallStatusExcludedFeeds = [''nvd'']"

text \<open>The loop with its two flags; the verdict \<open>degraded\<close> leaves it at once.\<close>

fun overall_loop :: "gotime \<Rightarrow> HealthOptions \<Rightarrow> bool \<Rightarrow> bool \<Rightarrow> FeedSyncStatus list \<Rightarrow> gostring" where
  "overall_loop wall opts active configuredOnly [] =
     (if \<not> active then (if configuredOnly then ''healthy'' else ''degraded'') else ''healthy'')"
| "overall_loop wall opts active configuredOnly (status # statuses) =
     (if ToLower (TrimSpace (fs_FeedName status)) \<in> set overallStatusExcludedFeeds
      then overall_loop wall opts active configuredOnly statuses
      else let health = ha_Status (FeedStatusHealth wall status opts) in
        if health = ''disabled'' then overall_loop wall opts active configuredOnly statuses
        else if health = ''configured'' then overall_loop wall opts active True statuses
        else if health = ''pending'' \<and> HasFreshFeedEntries wall status opts
        then overall_loop wall opts True configuredOnly statuses
        else if health \<noteq> ''healthy'' then ''degraded''
        else overall_loop wall opts True configuredOnly statuses)"

definition OverallFeedStatus :: "gotime \<Rightarrow> FeedSyncStatus list \<Rightarrow> HealthOptions \<Rightarrow> gostring" where
  "OverallFeedStatus wall statuses opts =
     (if statuses = [] then ''degraded'' else overall_loop wall opts False False statuses)"

section \<open>Errors of a run\<close>

text \<open>
  Go errors as the trees \<open>errors.As\<close> walks: plain texts, the end of the context, the two marks of
  \<open>feed.go\<close>, a wrapped error (\<open>%w\<close>) and two joined ones (\<open>errors.Join\<close>).
\<close>

datatype sync_error =
    Plain gostring
  | ContextDone
  | permanentSyncError sync_error
  | nonRetryableSyncError sync_error
  | Wrap gostring sync_error
  | JoinErr sync_error sync_error

fun Error_text :: "sync_error \<Rightarrow> gostring" where
  "Error_text (Plain s) = s"
| "Error_text ContextDone = ''context canceled''"
| "Error_text (permanentSyncError e) = Error_text e"
| "Error_text (nonRetryableSyncError e) = Error_text e"
| "Error_text (Wrap s e) = s @ Error_text e"
| "Error_text (JoinErr a b) = Error_text a @ [CHR 0x0A] @ Error_text b"

fun IsPermanentError :: "sync_error \<Rightarrow> bool" where
  "IsPermanentError (permanentSyncError e) = True"
| "IsPermanentError (nonRetryableSyncError e) = IsPermanentError e"
| "IsPermanentError (Wrap s e) = IsPermanentError e"
| "IsPermanentError (JoinErr a b) = (IsPermanentError a \<or> IsPermanentError b)"
| "IsPermanentError _ = False"

fun IsNonRetryableError :: "sync_error \<Rightarrow> bool" where
  "IsNonRetryableError (nonRetryableSyncError e) = True"
| "IsNonRetryableError (permanentSyncError e) = IsNonRetryableError e"
| "IsNonRetryableError (Wrap s e) = IsNonRetryableError e"
| "IsNonRetryableError (JoinErr a b) = (IsNonRetryableError a \<or> IsNonRetryableError b)"
| "IsNonRetryableError _ = False"

section \<open>Status rows\<close>

record SyncResult =
  sr_EntriesSynced :: int
  sr_EntriesTotal :: int
  sr_Metadata :: gostring

text \<open>The store interface of the manager, with the errors its operations return.\<close>

record 'st StatusOps =
  op_Get :: "gostring \<Rightarrow> 'st \<Rightarrow> (gostring, FeedSyncStatus option) result"
  op_Upsert :: "gotime \<Rightarrow> FeedSyncStatus \<Rightarrow> 'st \<Rightarrow> gostring option \<times> 'st"

definition blank_status :: "gostring \<Rightarrow> gostring \<Rightarrow> gostring \<Rightarrow> gotime \<Rightarrow> FeedSyncStatus" where
  "blank_status feedName status errMsg now =
     \<lparr>fs_FeedName = feedName, fs_LastSyncAt = None, fs_LastSyncDuration = None, fs_LastSyncStatus = status,
      fs_LastError = errMsg, fs_EntriesSynced = 0, fs_EntriesTotal = 0, fs_LastETag = [], fs_LastCommitHash = [],
      fs_Metadata = [], fs_UpdatedAt = now\<rparr>"

text \<open>A nil \<open>Metadata\<close> is the empty text, so copying it over an unset field changes nothing.\<close>

definition PreserveFeedStatusData :: "FeedSyncStatus \<Rightarrow> FeedSyncStatus option \<Rightarrow> FeedSyncStatus" where
  "PreserveFeedStatusData dst src =
     (case src of
        None \<Rightarrow> dst
      | Some s \<Rightarrow>
          dst\<lparr>fs_LastSyncAt := (if fs_LastSyncAt s \<noteq> None then fs_LastSyncAt s else fs_LastSyncAt dst),
              fs_EntriesSynced := fs_EntriesSynced s, fs_EntriesTotal := fs_EntriesTotal s,
              fs_LastETag := fs_LastETag s, fs_LastCommitHash := fs_LastCommitHash s,
              fs_Metadata := (if fs_Metadata s \<noteq> [] then fs_Metadata s else fs_Metadata dst)\<rparr>)"

definition UpsertFeedSyncStatusPreservingData ::
    "'st StatusOps \<Rightarrow> gotime \<Rightarrow> FeedSyncStatus \<Rightarrow> 'st \<Rightarrow> gostring option \<times> 'st" where
  "UpsertFeedSyncStatusPreservingData ops now status st =
     (case op_Get ops (fs_FeedName status) st of
        Err e \<Rightarrow> (Some e, st)
      | Ok current \<Rightarrow> op_Upsert ops now (PreserveFeedStatusData status current) st)"

definition apply_result :: "SyncResult option \<Rightarrow> FeedSyncStatus \<Rightarrow> FeedSyncStatus" where
  "apply_result result fss =
     (case result of
        None \<Rightarrow> fss
      | Some r \<Rightarrow>
          fss\<lparr>fs_EntriesSynced := sr_EntriesSynced r, fs_EntriesTotal := sr_EntriesTotal r,
              fs_Metadata := (if sr_Metadata r \<noteq> [] then sr_Metadata r else fs_Metadata fss)\<rparr>)"

definition recordStatus ::
    "'st StatusOps \<Rightarrow> gotime \<Rightarrow> gostring \<Rightarrow> gostring \<Rightarrow> gostring \<Rightarrow> duration \<Rightarrow> SyncResult option \<Rightarrow> 'st
     \<Rightarrow> sync_error option \<times> 'st" where
  "recordStatus ops now feedName status errMsg dur result st =
     (let fss = blank_status feedName status errMsg now in
      case (if result = None \<and> status \<noteq> FeedSyncStatusSuccess
            then (case op_Get ops feedName st of
                    Err e \<Rightarrow> Err e
                  | Ok current \<Rightarrow> Ok (PreserveFeedStatusData fss current))
            else Ok fss) of
        Err e \<Rightarrow> (Some (Wrap (''load current feed sync status for '' @ feedName @ '': '') (Plain e)), st)
      | Ok fss \<Rightarrow>
          (let fss = (if status = FeedSyncStatusSuccess then fss\<lparr>fs_LastSyncAt := Some now\<rparr> else fss);
               fss = (if dur > 0 then fss\<lparr>fs_LastSyncDuration := Some dur\<rparr> else fss);
               fss = apply_result result fss
           in case op_Upsert ops now fss st of
                (Some e, st) \<Rightarrow> (Some (Wrap (''record feed sync status for '' @ feedName @ '': '') (Plain e)), st)
              | (None, st) \<Rightarrow> (None, st)))"

definition recordRunningStatus :: "'st StatusOps \<Rightarrow> gotime \<Rightarrow> gostring \<Rightarrow> 'st \<Rightarrow> sync_error option \<times> 'st" where
  "recordRunningStatus ops now feedName st =
     (case op_Get ops feedName st of
        Err e \<Rightarrow> (Some (Wrap (''load current feed sync status for '' @ feedName @ '': '') (Plain e)), st)
      | Ok current \<Rightarrow>
          (case op_Upsert ops now (PreserveFeedStatusData (blank_status feedName FeedSyncStatusRunning [] now) current) st of
             (Some e, st) \<Rightarrow> (Some (Wrap (''record feed sync running status for '' @ feedName @ '': '') (Plain e)), st)
           | (None, st) \<Rightarrow> (None, st)))"

definition recordPendingStatusIfMissing :: "'st StatusOps \<Rightarrow> gotime \<Rightarrow> gostring \<Rightarrow> 'st \<Rightarrow> 'st" where
  "recordPendingStatusIfMissing ops now feedName st =
     (case op_Get ops feedName st of
        Err e \<Rightarrow> st
      | Ok (Some current) \<Rightarrow> st
      | Ok None \<Rightarrow> snd (recordStatus ops now feedName FeedSyncStatusPending [] 0 None st))"

definition interruptedFeedSyncError :: gostring where
  "interruptedFeedSyncError = ''previous feed sync was interrupted before completion''"

definition recoverInterruptedRunningStatus :: "'st StatusOps \<Rightarrow> gotime \<Rightarrow> gostring \<Rightarrow> 'st \<Rightarrow> 'st" where
  "recoverInterruptedRunningStatus ops now feedName st =
     (case op_Get ops feedName st of
        Err e \<Rightarrow> st
      | Ok None \<Rightarrow> st
      | Ok (Some status) \<Rightarrow>
          if fs_LastSyncStatus status \<noteq> FeedSyncStatusRunning then st
          else
            let startedAt = (if IsZero (fs_UpdatedAt status) \<and> fs_LastSyncAt status \<noteq> None
                             then the (fs_LastSyncAt status) else fs_UpdatedAt status);
                status = status\<lparr>fs_LastSyncStatus := FeedSyncStatusError, fs_LastError := interruptedFeedSyncError\<rparr>;
                status = (if \<not> IsZero startedAt then status\<lparr>fs_LastSyncDuration := Some (max 0 (now - startedAt))\<rparr> else status)
            in snd (op_Upsert ops now status st))"

definition lastSyncFresh :: "'st StatusOps \<Rightarrow> gotime \<Rightarrow> gostring \<Rightarrow> duration \<Rightarrow> 'st \<Rightarrow> bool" where
  "lastSyncFresh ops now feedName interval st =
     (case op_Get ops feedName st of
        Err e \<Rightarrow> False
      | Ok None \<Rightarrow> False
      | Ok (Some status) \<Rightarrow>
          (case fs_LastSyncAt status of
             None \<Rightarrow> False
           | Some lastSyncAt \<Rightarrow>
               if fs_LastSyncStatus status \<noteq> FeedSyncStatusSuccess then False
               else if fs_EntriesTotal status \<le> 0 then False
               else if lastSyncAt > now then False
               else now - lastSyncAt < interval))"

section \<open>One run of a feed\<close>

text \<open>
  What a run meets: whether the context has ended when the run starts (\<open>run_done_early\<close>) and when it
  holds the lock (\<open>run_done_locked\<close>), and what \<open>acquireSyncLock\<close> answers; the clock and whether the feed is
  still the registered one when the running status is written; and per attempt whether the context has
  ended before the attempt, while it waits for the retry, and after a failure; what the syncer returns
  and does to the store, or that it panics; the readings of the clocks; and whether the feed is still
  the registered one when the attempt's status is written. A syncer may return a nil result without an
  error, so a result is optional.
\<close>

datatype 'a sync_call = Returned 'a | Panicked gostring

text \<open>
  The answer of \<open>acquireSyncLock\<close>: the lock; no lock, for a caller that does not wait; or, for one that
  does, that the context ended first.
\<close>

datatype lock_answer = Locked | NotLocked | LockCancelled

record 'st SyncRun =
  run_name :: gostring
  run_done_early :: bool
  run_lock :: lock_answer
  run_done_locked :: bool
  run_now_start :: gotime
  run_current_start :: bool
  run_done :: "nat \<Rightarrow> bool"
  run_done_waiting :: "nat \<Rightarrow> bool"
  run_done_after :: "nat \<Rightarrow> bool"
  run_sync :: "nat \<Rightarrow> 'st \<Rightarrow> (sync_error, SyncResult option) result sync_call \<times> 'st"
  run_now :: "nat \<Rightarrow> gotime"
  run_duration :: "nat \<Rightarrow> duration"
  run_since_start :: "nat \<Rightarrow> duration"
  run_current :: "nat \<Rightarrow> bool"
  run_diagnostic :: "gostring \<Rightarrow> gostring"

definition SafeDiagnosticError :: "'st SyncRun \<Rightarrow> sync_error \<Rightarrow> gostring" where
  "SafeDiagnosticError run e = run_diagnostic run (Error_text e)"

definition syncFeed :: "'st SyncRun \<Rightarrow> nat \<Rightarrow> 'st \<Rightarrow> (sync_error, SyncResult option) result \<times> 'st" where
  "syncFeed run attempt st =
     (case run_sync run attempt st of
        (Returned r, st) \<Rightarrow> (r, st)
      | (Panicked p, st) \<Rightarrow> (Err (Plain (''syncer panic: '' @ p)), st))"

definition recordStatusForFeed ::
    "'st StatusOps \<Rightarrow> 'st SyncRun \<Rightarrow> nat \<Rightarrow> gostring \<Rightarrow> gostring \<Rightarrow> duration \<Rightarrow> SyncResult option \<Rightarrow> 'st
     \<Rightarrow> sync_error option \<times> 'st" where
  "recordStatusForFeed ops run attempt status errMsg dur result st =
     (if \<not> run_current run attempt then (None, st)
      else recordStatus ops (run_now run attempt) (run_name run) status errMsg dur result st)"

definition recordRunningStatusForFeed :: "'st StatusOps \<Rightarrow> 'st SyncRun \<Rightarrow> 'st \<Rightarrow> sync_error option \<times> 'st" where
  "recordRunningStatusForFeed ops run st =
     (if \<not> run_current_start run then (None, st) else recordRunningStatus ops (run_now_start run) (run_name run) st)"

text \<open>Every failing exit of the loop: record the status, join its error to the error returned.\<close>

definition fail_with ::
    "'st StatusOps \<Rightarrow> 'st SyncRun \<Rightarrow> nat \<Rightarrow> gostring \<Rightarrow> sync_error \<Rightarrow> sync_error \<Rightarrow> duration \<Rightarrow> 'st
     \<Rightarrow> (sync_error, SyncResult option) result \<times> 'st" where
  "fail_with ops run attempt status shown err dur st =
     (case recordStatusForFeed ops run attempt status (SafeDiagnosticError run shown) dur None st of
        (Some statusErr, st) \<Rightarrow> (Err (JoinErr err statusErr), st)
      | (None, st) \<Rightarrow> (Err err, st))"

definition maxAttempts :: nat where
  "maxAttempts = 4"

function retry_loop ::
    "'st StatusOps \<Rightarrow> 'st SyncRun \<Rightarrow> nat \<Rightarrow> sync_error \<Rightarrow> 'st \<Rightarrow> (sync_error, SyncResult option) result \<times> 'st" where
  "retry_loop ops run attempt lastErr st =
     (if \<not> attempt < maxAttempts
      then fail_with ops run attempt FeedSyncStatusError lastErr
        (Wrap (''feed '' @ run_name run @ '': all '' @ Itoa (int maxAttempts) @ '' attempts failed: '') lastErr) 0 st
      else if run_done run attempt
      then fail_with ops run attempt FeedSyncStatusError ContextDone ContextDone (run_since_start run attempt) st
      else if attempt > 0 \<and> run_done_waiting run attempt
      then fail_with ops run attempt FeedSyncStatusError ContextDone ContextDone (run_since_start run attempt) st
      else case syncFeed run attempt st of
             (Ok result, st) \<Rightarrow>
               (case recordStatusForFeed ops run attempt FeedSyncStatusSuccess [] (run_duration run attempt) result st of
                  (Some statusErr, st) \<Rightarrow>
                    (Err (Wrap (''feed '' @ run_name run @ '': record success status: '') statusErr), st)
                | (None, st) \<Rightarrow> (Ok result, st))
           | (Err err, st) \<Rightarrow>
               if run_done_after run attempt
               then fail_with ops run attempt FeedSyncStatusError ContextDone ContextDone (run_since_start run attempt) st
               else if IsPermanentError err
               then fail_with ops run attempt FeedSyncStatusSkipped err err (run_duration run attempt) st
               else if IsNonRetryableError err
               then fail_with ops run attempt FeedSyncStatusError err err (run_duration run attempt) st
               else retry_loop ops run (attempt + 1) err st)"
  by pat_completeness auto

termination
  by (relation "measure (\<lambda>(ops, run, attempt, lastErr, st). maxAttempts - attempt)") auto

declare retry_loop.simps [simp del]

definition ErrSyncAlreadyRunning :: sync_error where
  "ErrSyncAlreadyRunning = Plain ''feed sync already running''"

text \<open>The error before the first attempt is nil in Go; no exit of the loop reads it.\<close>

definition syncWithRetry ::
    "'st StatusOps \<Rightarrow> 'st SyncRun \<Rightarrow> 'st \<Rightarrow> (sync_error, SyncResult option) result \<times> 'st" where
  "syncWithRetry ops run st =
     (case run_lock run of
        LockCancelled \<Rightarrow> (Err ContextDone, st)
      | NotLocked \<Rightarrow> (Err (Wrap (''feed '' @ run_name run @ '': '') ErrSyncAlreadyRunning), st)
      | Locked \<Rightarrow>
          if run_done_locked run then (Err ContextDone, st)
          else case recordRunningStatusForFeed ops run st of
                 (Some e, st) \<Rightarrow> (Err (Wrap (''feed '' @ run_name run @ '': record running status: '') e), st)
               | (None, st) \<Rightarrow> retry_loop ops run 0 (Plain []) st)"

text \<open>
  \<open>runSync\<close> calls the run with the waiting lock and marks permanent failures once more. After a success
  it logs the counts of the result, and so dereferences it.
\<close>

definition runSync :: "'st StatusOps \<Rightarrow> 'st SyncRun \<Rightarrow> 'st \<Rightarrow> sync_error option sync_call \<times> 'st" where
  "runSync ops run st =
     (if run_done_early run then (Returned None, st)
      else case syncWithRetry ops run st of
        (Ok (Some result), st) \<Rightarrow> (Returned None, st)
      | (Ok None, st) \<Rightarrow> (Panicked ''invalid memory address or nil pointer dereference'', st)
      | (Err err, st) \<Rightarrow>
          if IsPermanentError err
          then (case recordStatusForFeed ops run maxAttempts FeedSyncStatusPermanentError (SafeDiagnosticError run err) 0 None st of
                  (Some statusErr, st) \<Rightarrow> (Returned (Some (JoinErr err statusErr)), st)
                | (None, st) \<Rightarrow> (Returned (Some err), st))
          else (Returned (Some err), st))"

section \<open>The contract of the status store\<close>

text \<open>
  A store that answers: a row that was written is read back, with the time of the write if it had
  none, and writing one feed leaves the others alone.
\<close>

definition stamped :: "gotime \<Rightarrow> FeedSyncStatus \<Rightarrow> FeedSyncStatus" where
  "stamped now s = (if IsZero (fs_UpdatedAt s) then s\<lparr>fs_UpdatedAt := now\<rparr> else s)"

definition evidence :: "FeedSyncStatus option \<Rightarrow> gotime option \<times> int \<times> int \<times> gostring \<times> gostring \<times> gostring" where
  "evidence row =
     (case row of
        None \<Rightarrow> (None, 0, 0, [], [], [])
      | Some s \<Rightarrow> (fs_LastSyncAt s, fs_EntriesSynced s, fs_EntriesTotal s, fs_LastETag s, fs_LastCommitHash s, fs_Metadata s))"

text \<open>The counts a result stands for; a nil result leaves them at zero.\<close>

definition entry_counts :: "SyncResult option \<Rightarrow> int \<times> int" where
  "entry_counts result = (case result of None \<Rightarrow> (0, 0) | Some r \<Rightarrow> (sr_EntriesSynced r, sr_EntriesTotal r))"

definition outcome_status :: "(sync_error, SyncResult option) result \<Rightarrow> gostring" where
  "outcome_status r =
     (case r of
        Ok result \<Rightarrow> FeedSyncStatusSuccess
      | Err e \<Rightarrow> if IsPermanentError e then FeedSyncStatusSkipped else FeedSyncStatusError)"

locale status_store =
  fixes ops :: "'st StatusOps"
  assumes get_answers: "\<exists>s. op_Get ops f st = Ok s"
    and upsert_answers: "fst (op_Upsert ops now s st) = None"
    and get_upsert: "TrimSpace (fs_FeedName s) \<noteq> [] \<Longrightarrow>
      op_Get ops f (snd (op_Upsert ops now s st)) = (if f = fs_FeedName s then Ok (Some (stamped now s)) else op_Get ops f st)"
begin

definition row :: "gostring \<Rightarrow> 'st \<Rightarrow> FeedSyncStatus option" where
  "row f st = (case op_Get ops f st of Ok s \<Rightarrow> s | Err e \<Rightarrow> None)"

lemma get_row: "op_Get ops f st = Ok (row f st)"
  using get_answers [of f st] by (auto simp: row_def)

lemma upsert_row:
  assumes "TrimSpace (fs_FeedName s) \<noteq> []"
  shows "row f (snd (op_Upsert ops now s st)) = (if f = fs_FeedName s then Some (stamped now s) else row f st)"
  using get_upsert [OF assms, of f now st] by (auto simp: row_def)

text \<open>The evidence of the last good run, and the row a status write leaves.\<close>

lemma recordStatus_row:
  assumes "TrimSpace f \<noteq> []"
  obtains s where "fst (recordStatus ops now f status msg dur result st) = None"
    and "row f (snd (recordStatus ops now f status msg dur result st)) = Some s" and "fs_FeedName s = f" and "fs_LastSyncStatus s = status"
    and "result = None \<Longrightarrow> status \<noteq> FeedSyncStatusSuccess \<Longrightarrow> evidence (Some s) = evidence (row f st)"
    and "status = FeedSyncStatusSuccess \<Longrightarrow> fs_LastSyncAt s = Some now \<and> (fs_EntriesSynced s, fs_EntriesTotal s) = entry_counts result"
proof -
  let ?old = "if result = None \<and> status \<noteq> FeedSyncStatusSuccess
    then PreserveFeedStatusData (blank_status f status msg now) (row f st) else blank_status f status msg now"
  let ?s1 = "if status = FeedSyncStatusSuccess then ?old\<lparr>fs_LastSyncAt := Some now\<rparr> else ?old"
  let ?s2 = "apply_result result (if dur > 0 then ?s1\<lparr>fs_LastSyncDuration := Some dur\<rparr> else ?s1)"
  have name: "fs_FeedName ?s2 = f"
    by (simp add: apply_result_def PreserveFeedStatusData_def blank_status_def split: option.split)
  obtain st' where up: "op_Upsert ops now ?s2 st = (None, st')"
    using upsert_answers [of now ?s2 st] by (cases "op_Upsert ops now ?s2 st") simp
  have rec: "recordStatus ops now f status msg dur result st = (None, st')"
    using up by (cases result) (simp_all add: recordStatus_def get_row Let_def split: if_splits)
  show thesis
  proof
    show "fst (recordStatus ops now f status msg dur result st) = None" by (simp only: rec fst_conv)
    show "row f (snd (recordStatus ops now f status msg dur result st)) = Some (stamped now ?s2)"
    proof -
      have "row f st' = (if f = fs_FeedName ?s2 then Some (stamped now ?s2) else row f st)"
        using upsert_row [of ?s2 f now st] assms unfolding name up by simp
      then show ?thesis unfolding name rec by simp
    qed
    show "fs_FeedName (stamped now ?s2) = f" using name by (simp add: stamped_def)
    show "fs_LastSyncStatus (stamped now ?s2) = status"
      by (simp add: stamped_def apply_result_def PreserveFeedStatusData_def blank_status_def split: option.split)
    show "evidence (Some (stamped now ?s2)) = evidence (row f st)" if "result = None" "status \<noteq> FeedSyncStatusSuccess"
      using that by (cases "row f st")
        (simp_all add: stamped_def apply_result_def PreserveFeedStatusData_def blank_status_def evidence_def)
    show "fs_LastSyncAt (stamped now ?s2) = Some now \<and>
      (fs_EntriesSynced (stamped now ?s2), fs_EntriesTotal (stamped now ?s2)) = entry_counts result"
      if "status = FeedSyncStatusSuccess"
      using that by (cases result) (simp_all add: stamped_def apply_result_def blank_status_def entry_counts_def)
  qed
qed

lemma recordRunningStatus_row:
  assumes "TrimSpace f \<noteq> []"
  shows "fst (recordRunningStatus ops now f st) = None"
    and "evidence (row f (snd (recordRunningStatus ops now f st))) = evidence (row f st)"
proof -
  let ?s = "PreserveFeedStatusData (blank_status f FeedSyncStatusRunning [] now) (row f st)"
  have name: "fs_FeedName ?s = f"
    by (simp add: PreserveFeedStatusData_def blank_status_def split: option.split)
  obtain st' where up: "op_Upsert ops now ?s st = (None, st')"
    using upsert_answers [of now ?s st] by (cases "op_Upsert ops now ?s st") simp
  have rec: "recordRunningStatus ops now f st = (None, st')"
    using up by (simp add: recordRunningStatus_def get_row)
  then show "fst (recordRunningStatus ops now f st) = None" by simp
  have "evidence (Some (stamped now ?s)) = evidence (row f st)"
    by (cases "row f st") (simp_all add: stamped_def PreserveFeedStatusData_def blank_status_def evidence_def)
  then show "evidence (row f (snd (recordRunningStatus ops now f st))) = evidence (row f st)"
    using upsert_row [of ?s f now st] name assms by (simp add: rec up)
qed

lemma fail_with_row:
  assumes "TrimSpace (run_name run) \<noteq> []" and "run_current run i" and "status \<noteq> FeedSyncStatusSuccess"
  shows "fst (fail_with ops run i status shown err dur st) = Err err"
    and "\<exists>s. row (run_name run) (snd (fail_with ops run i status shown err dur st)) = Some s \<and> fs_FeedName s = run_name run \<and>
      fs_LastSyncStatus s = status \<and> evidence (Some s) = evidence (row (run_name run) st)"
proof -
  obtain s where s: "fst (recordStatus ops (run_now run i) (run_name run) status (SafeDiagnosticError run shown) dur None st) = None"
    "row (run_name run) (snd (recordStatus ops (run_now run i) (run_name run) status (SafeDiagnosticError run shown) dur None st)) = Some s"
    "fs_FeedName s = run_name run" "fs_LastSyncStatus s = status" "evidence (Some s) = evidence (row (run_name run) st)"
    by (rule recordStatus_row [OF assms(1), of "run_now run i" status "SafeDiagnosticError run shown" dur None st])
      (use assms(3) in blast)
  then show "fst (fail_with ops run i status shown err dur st) = Err err"
    and "\<exists>s. row (run_name run) (snd (fail_with ops run i status shown err dur st)) = Some s \<and> fs_FeedName s = run_name run \<and>
      fs_LastSyncStatus s = status \<and> evidence (Some s) = evidence (row (run_name run) st)"
    using assms(2) by (auto simp: fail_with_def recordStatusForFeed_def case_prod_beta split: option.splits)
qed

lemma succeed_row:
  assumes "TrimSpace (run_name run) \<noteq> []" and "run_current run i"
  shows "fst (recordStatusForFeed ops run i FeedSyncStatusSuccess [] dur r st) = None"
    and "\<exists>s. row (run_name run) (snd (recordStatusForFeed ops run i FeedSyncStatusSuccess [] dur r st)) = Some s \<and>
      fs_FeedName s = run_name run \<and> fs_LastSyncStatus s = FeedSyncStatusSuccess \<and> fs_LastSyncAt s = Some (run_now run i) \<and>
      (fs_EntriesSynced s, fs_EntriesTotal s) = entry_counts r"
proof -
  let ?w = "recordStatus ops (run_now run i) (run_name run) FeedSyncStatusSuccess [] dur r st"
  obtain s where "fst ?w = None" "row (run_name run) (snd ?w) = Some s" "fs_FeedName s = run_name run" "fs_LastSyncStatus s = FeedSyncStatusSuccess"
    "fs_LastSyncAt s = Some (run_now run i) \<and> (fs_EntriesSynced s, fs_EntriesTotal s) = entry_counts r"
    by (rule recordStatus_row [OF assms(1), of "run_now run i" FeedSyncStatusSuccess "[]" dur r st]) blast
  then show "fst (recordStatusForFeed ops run i FeedSyncStatusSuccess [] dur r st) = None"
    and "\<exists>s. row (run_name run) (snd (recordStatusForFeed ops run i FeedSyncStatusSuccess [] dur r st)) = Some s \<and>
      fs_FeedName s = run_name run \<and> fs_LastSyncStatus s = FeedSyncStatusSuccess \<and> fs_LastSyncAt s = Some (run_now run i) \<and>
      (fs_EntriesSynced s, fs_EntriesTotal s) = entry_counts r"
    using assms(2) by (auto simp: recordStatusForFeed_def)
qed

text \<open>
  The status a run leaves: success, skipped after a permanent error, error otherwise. The evidence
  survives a failure if the syncer keeps it when it fails.
\<close>

definition careful :: "'st SyncRun \<Rightarrow> bool" where
  "careful run \<longleftrightarrow> (\<forall>i st. isl (fst (syncFeed run i st)) \<longrightarrow>
     evidence (row (run_name run) (snd (syncFeed run i st))) = evidence (row (run_name run) st))"

definition settles :: "'st SyncRun \<Rightarrow> 'st \<Rightarrow> (sync_error, SyncResult option) result \<times> 'st \<Rightarrow> bool" where
  "settles run st w \<longleftrightarrow> (\<exists>s. row (run_name run) (snd w) = Some s \<and> fs_FeedName s = run_name run \<and> fs_LastSyncStatus s = outcome_status (fst w) \<and>
     (\<forall>result. fst w = Ok result \<longrightarrow> (\<exists>i < maxAttempts. (\<exists>before. fst (syncFeed run i before) = Ok result) \<and> fs_LastSyncAt s = Some (run_now run i)) \<and>
       (fs_EntriesSynced s, fs_EntriesTotal s) = entry_counts result) \<and>
     (isl (fst w) \<longrightarrow> careful run \<longrightarrow> evidence (Some s) = evidence (row (run_name run) st)))"

lemma settles_fail:
  assumes "TrimSpace (run_name run) \<noteq> []" and "run_current run i"
    and "status = (if IsPermanentError err then FeedSyncStatusSkipped else FeedSyncStatusError)"
    and "careful run \<Longrightarrow> evidence (row (run_name run) st0) = evidence (row (run_name run) st)"
  shows "settles run st (fail_with ops run i status shown err dur st0)"
proof -
  have "status \<noteq> FeedSyncStatusSuccess" using assms(3) by simp
  note failed = fail_with_row [OF assms(1,2) this, of shown err dur st0]
  from failed(2) obtain s where
    "row (run_name run) (snd (fail_with ops run i status shown err dur st0)) = Some s" "fs_FeedName s = run_name run" "fs_LastSyncStatus s = status"
    "evidence (Some s) = evidence (row (run_name run) st0)" by blast
  then show ?thesis using assms(3,4) unfolding settles_def failed(1)
    by (intro exI [of _ s]) (simp add: outcome_status_def)
qed

lemma settles_from:
  assumes "settles run st0 w" and "careful run \<Longrightarrow> evidence (row (run_name run) st0) = evidence (row (run_name run) st)"
  shows "settles run st w"
  using assms unfolding settles_def by auto

lemma retry_loop_settles:
  assumes "TrimSpace (run_name run) \<noteq> []" and "\<And>i. run_current run i" and "\<not> IsPermanentError lastErr"
  shows "settles run st (retry_loop ops run attempt lastErr st)"
  using assms(3)
proof (induction "maxAttempts - attempt" arbitrary: attempt lastErr st)
  case 0
  then show ?case
    by (subst retry_loop.simps) (auto intro!: settles_fail assms(1,2))
next
  case (Suc n)
  then have more: "attempt < maxAttempts" and n: "n = maxAttempts - (attempt + 1)" by auto
  note unfold = retry_loop.simps [of ops run attempt lastErr st]
  note fails = settles_fail [OF assms(1,2)]
  obtain r st1 where sync: "syncFeed run attempt st = (r, st1)" by fastforce
  show ?case
  proof (cases "run_done run attempt \<or> attempt > 0 \<and> run_done_waiting run attempt")
    case True
    then show ?thesis using more unfolding unfold by (auto intro!: fails)
  next
    case running: False
    show ?thesis
    proof (cases r)
      case (Inr result)
      note ok = succeed_row [OF assms(1,2), of attempt "run_duration run attempt" result st1]
      have "retry_loop ops run attempt lastErr st = (Ok result, snd (recordStatusForFeed ops run attempt FeedSyncStatusSuccess []
          (run_duration run attempt) result st1))"
        using running more sync Inr ok(1) unfolding unfold by (auto split: prod.split)
      moreover have "\<exists>before. fst (syncFeed run attempt before) = Ok result" using sync Inr by (metis fst_conv)
      ultimately show ?thesis using ok(2) more by (auto simp: settles_def outcome_status_def)
    next
      case (Inl err)
      then have kept: "evidence (row (run_name run) st1) = evidence (row (run_name run) st)" if "careful run"
        using that sync unfolding careful_def by (metis fst_conv isl_def snd_conv)
      have "settles run st (retry_loop ops run (attempt + 1) err st1)" if "\<not> IsPermanentError err"
        by (rule settles_from [OF Suc.hyps(1) [OF n that] kept])
      then show ?thesis using running more sync Inl kept unfolding unfold by (auto intro!: fails)
    qed
  qed
qed

lemma syncWithRetry_settles:
  assumes "TrimSpace (run_name run) \<noteq> []" and "\<And>i. run_current run i" and "run_current_start run"
    and "run_lock run = Locked" and "\<not> run_done_locked run"
  shows "settles run st (syncWithRetry ops run st)"
proof -
  note running = recordRunningStatus_row [OF assms(1), of "run_now_start run" st]
  let ?st = "snd (recordRunningStatus ops (run_now_start run) (run_name run) st)"
  have "syncWithRetry ops run st = retry_loop ops run 0 (Plain []) ?st"
    using running(1) assms by (simp add: syncWithRetry_def recordRunningStatusForFeed_def case_prod_beta)
  moreover have "settles run ?st (retry_loop ops run 0 (Plain []) ?st)"
    by (rule retry_loop_settles [OF assms(1,2)]) simp
  ultimately show ?thesis using running(2) by (auto intro: settles_from)
qed

lemma runSync_settles:
  assumes "TrimSpace (run_name run) \<noteq> []" and "\<And>i. run_current run i" and "run_current_start run"
    and "run_lock run = Locked" and "\<not> run_done_locked run" and "runSync ops run st = (Returned (Some err), st')"
  shows "\<exists>s. row (run_name run) st' = Some s \<and> fs_FeedName s = run_name run \<and>
    fs_LastSyncStatus s = (if IsPermanentError err then FeedSyncStatusPermanentError else FeedSyncStatusError) \<and>
    (careful run \<longrightarrow> evidence (Some s) = evidence (row (run_name run) st))"
proof -
  obtain r st1 where w: "syncWithRetry ops run st = (r, st1)" by fastforce
  have early: "\<not> run_done_early run" using assms(6) by (auto simp: runSync_def)
  from assms(6) obtain e where r: "r = Err e"
    by (cases r) (auto simp: runSync_def w early split: option.splits)
  have settled: "settles run st (r, st1)" using syncWithRetry_settles [OF assms(1-5), of st] w by simp
  show ?thesis
  proof (cases "IsPermanentError e")
    case True
    let ?w = "recordStatus ops (run_now run maxAttempts) (run_name run) FeedSyncStatusPermanentError (SafeDiagnosticError run e) 0 None st1"
    obtain s where s: "fst ?w = None" "row (run_name run) (snd ?w) = Some s" "fs_LastSyncStatus s = FeedSyncStatusPermanentError"
      "evidence (Some s) = evidence (row (run_name run) st1)" "fs_FeedName s = run_name run"
      by (rule recordStatus_row [OF assms(1), of "run_now run maxAttempts" FeedSyncStatusPermanentError "SafeDiagnosticError run e" 0 None st1])
        simp
    have "runSync ops run st = (Returned (Some e), snd ?w)"
      using True s(1) assms(2) early by (simp add: runSync_def w r recordStatusForFeed_def case_prod_beta)
    then show ?thesis using s True settled assms(6) r unfolding settles_def by auto
  next
    case False
    then have "runSync ops run st = (Returned (Some e), st1)" using early by (simp add: runSync_def w r)
    then show ?thesis using False settled assms(6) r unfolding settles_def by (auto simp: outcome_status_def)
  qed
qed

end

section \<open>The in-memory store as the status store\<close>

definition dev_status_ops :: "Store StatusOps" where
  "dev_status_ops =
     \<lparr>op_Get = (\<lambda>f st. Ok (GetFeedSyncStatus f st)),
      op_Upsert = (\<lambda>now s st. (None, snd (UpsertFeedSyncStatus now (Some s) st)))\<rparr>"

interpretation dev_status: status_store dev_status_ops
  by unfold_locales
    (auto simp: dev_status_ops_def GetFeedSyncStatus_def UpsertFeedSyncStatus_def upsertFeedSyncStatusLocked_def
      stamped_def update_conv' Let_def)

lemma dev_row: "dev_status.row f st = GetFeedSyncStatus f st"
  unfolding dev_status.row_def by (simp add: dev_status_ops_def)

lemma listed: "GetFeedSyncStatus f st = Some s \<Longrightarrow> s \<in> set (ListFeedSyncStatuses st)"
  by (force simp: GetFeedSyncStatus_def ListFeedSyncStatuses_def dest: map_of_SomeD)

section \<open>The overall verdict\<close>

definition counted :: "FeedSyncStatus \<Rightarrow> bool" where
  "counted s \<longleftrightarrow> ToLower (TrimSpace (fs_FeedName s)) \<notin> set overallStatusExcludedFeeds"

definition acceptable :: "gotime \<Rightarrow> HealthOptions \<Rightarrow> FeedSyncStatus \<Rightarrow> bool" where
  "acceptable wall opts s \<longleftrightarrow>
     ha_Status (FeedStatusHealth wall s opts) \<in> {''disabled'', ''configured'', ''healthy''} \<or>
     ha_Status (FeedStatusHealth wall s opts) = ''pending'' \<and> HasFreshFeedEntries wall s opts"

lemma overall_loop_verdict:
  "overall_loop wall opts active configuredOnly statuses = ''healthy'' \<or>
   overall_loop wall opts active configuredOnly statuses = ''degraded''"
  by (induction wall opts active configuredOnly statuses rule: overall_loop.induct) (simp_all add: Let_def)

lemma overall_loop_healthy:
  "overall_loop wall opts active configuredOnly statuses = ''healthy'' \<longleftrightarrow>
   (active \<or> configuredOnly \<or> (\<exists>s \<in> set statuses. counted s \<and> ha_Status (FeedStatusHealth wall s opts) \<noteq> ''disabled'')) \<and>
   (\<forall>s \<in> set statuses. counted s \<longrightarrow> acceptable wall opts s)"
  by (induction wall opts active configuredOnly statuses rule: overall_loop.induct)
    (auto simp: Let_def counted_def acceptable_def split: if_splits)

lemma degraded_if_unacceptable:
  assumes "s \<in> set statuses" and "counted s" and "\<not> acceptable wall opts s"
  shows "OverallFeedStatus wall statuses opts = ''degraded''"
  using overall_loop_healthy [of wall opts False False statuses] overall_loop_verdict [of wall opts False False statuses] assms
  by (auto simp: OverallFeedStatus_def)

lemma failed_trimmed [simp]:
  "ToLower (TrimSpace FeedSyncStatusError) = FeedSyncStatusError"
  "ToLower (TrimSpace FeedSyncStatusPermanentError) = FeedSyncStatusPermanentError"
  by code_simp+

lemma failed_not_acceptable:
  "fs_LastSyncStatus s = FeedSyncStatusError \<or> fs_LastSyncStatus s = FeedSyncStatusPermanentError \<Longrightarrow> \<not> acceptable wall opts s"
  by (auto simp: acceptable_def FeedStatusHealth_def Let_def split: prod.split)

section \<open>Properties\<close>

lemma careful_in_store:
  assumes "\<And>i st. isl (fst (syncFeed run i st)) \<Longrightarrow>
    evidence (GetFeedSyncStatus (run_name run) (snd (syncFeed run i st))) = evidence (GetFeedSyncStatus (run_name run) st)"
  shows "dev_status.careful run"
  unfolding dev_status.careful_def dev_row using assms by blast

lemma no_lock_no_work:
  assumes "run_lock run \<noteq> Locked \<or> run_done_locked run"
  obtains e where "syncWithRetry ops run st = (Err e, st)" and "\<not> IsPermanentError e"
  using assms by (cases "run_lock run") (auto simp: syncWithRetry_def ErrSyncAlreadyRunning_def)


text \<open>
  A run whose feed was registered anew before it ended writes no status of its own any more: if that
  happens after it had marked the row as running, the mark stays for the run of the new registration.
\<close>

lemma replaced_run_leaves_row:
  assumes "\<forall>i. \<not> run_current run i" and "\<forall>i st. snd (syncFeed run i st) = st"
  shows "snd (retry_loop ops run attempt lastErr st) = st"
  using assms
proof (induction ops run attempt lastErr st rule: retry_loop.induct)
  case (1 ops run attempt lastErr st)
  have fails: "snd (fail_with ops run i status shown err dur st0) = st0" for i status shown err dur st0
    using 1(2) by (simp add: fail_with_def recordStatusForFeed_def)
  obtain r st1 where sync: "syncFeed run attempt st = (r, st1)" by fastforce
  then have "st1 = st" using 1(3) by (metis snd_conv)
  with 1 sync fails show ?case
    by (subst retry_loop.simps) (auto simp: recordStatusForFeed_def split: sum.split)
qed

definition flaky_run :: "(nat \<Rightarrow> (sync_error, SyncResult option) result sync_call) \<Rightarrow> Store SyncRun" where
  "flaky_run answers =
     \<lparr>run_name = ''osv'', run_done_early = False, run_lock = Locked, run_done_locked = False, run_now_start = 999,
      run_current_start = True, run_done = (\<lambda>i. False), run_done_waiting = (\<lambda>i. False),
      run_done_after = (\<lambda>i. False), run_sync = (\<lambda>i st. (answers i, st)), run_now = (\<lambda>i. 1000 + int i),
      run_duration = (\<lambda>i. 5), run_since_start = (\<lambda>i. 5 * int i), run_current = (\<lambda>i. True), run_diagnostic = id\<rparr>"

definition recovering_run :: "Store SyncRun" where
  "recovering_run = flaky_run (\<lambda>i. if i = 0 then Panicked ''nil map'' else
     Returned (Ok (Some \<lparr>sr_EntriesSynced = 7, sr_EntriesTotal = 9, sr_Metadata = []\<rparr>)))"



definition synced_store :: Store where
  "synced_store = snd (syncWithRetry dev_status_ops recovering_run NewStore)"

definition broken_run :: "Store SyncRun" where
  "broken_run = flaky_run (\<lambda>i. Returned (Err (permanentSyncError (Plain ''licence expired''))))"


text \<open>
  C28: The verdict healthy can be relied on: every counted feed that is neither disabled nor managed
  outside has a last sync that lies within the staleness bound and not in the future, and it brought
  entries.
\<close>

theorem healthy_feeds_are_fresh:
  assumes "OverallFeedStatus wall statuses opts = ''healthy''"
    and "s \<in> set statuses" and "ToLower (TrimSpace (fs_FeedName s)) \<noteq> ''nvd''"
    and "ha_Status (FeedStatusHealth wall s opts) \<noteq> ''disabled''" and "ha_Status (FeedStatusHealth wall s opts) \<noteq> ''configured''"
    and "normalizedHealthOptions wall opts = (now, staleAfter)"
  shows "\<exists>t. fs_LastSyncAt s = Some t \<and> t \<le> now \<and> now - t \<le> staleAfter \<and>
    (fs_EntriesTotal s \<noteq> 0 \<or> fs_EntriesSynced s \<noteq> 0)"
proof -
  have "statuses \<noteq> []" using assms(2) by auto
  then have "acceptable wall opts s"
    using assms(1-3) by (auto simp: OverallFeedStatus_def overall_loop_healthy counted_def overallStatusExcludedFeeds_def)
  then consider "ha_Status (FeedStatusHealth wall s opts) = ''healthy''" | "HasFreshFeedEntries wall s opts"
    using assms(4,5) by (auto simp: acceptable_def)
  then show ?thesis
    using assms(6)
    by cases (auto simp: FeedStatusHealth_def sync_age_health_def HasFreshFeedEntries_def Let_def split: if_splits option.splits)
qed

theorem healthy_feeds_are_fresh_witness:
  "OverallFeedStatus 2000 (ListFeedSyncStatuses synced_store) \<lparr>ho_Now = 0, ho_StaleAfter = 0\<rparr> = ''healthy'' \<and>
   (\<exists>s t. GetFeedSyncStatus ''osv'' synced_store = Some s \<and> fs_LastSyncAt s = Some t \<and> t \<le> 2000 \<and> 2000 - t \<le> DefaultHealthStaleAfter)"
proof -
  let ?opts = "\<lparr>ho_Now = 0, ho_StaleAfter = 0\<rparr>"
  have healthy: "OverallFeedStatus 2000 (ListFeedSyncStatuses synced_store) ?opts = ''healthy''" by code_simp
  have "GetFeedSyncStatus ''osv'' synced_store \<noteq> None" by code_simp
  then obtain s where s: "GetFeedSyncStatus ''osv'' synced_store = Some s" by blast
  have "map_option (\<lambda>s. ToLower (TrimSpace (fs_FeedName s)) \<noteq> ''nvd'' \<and>
      ha_Status (FeedStatusHealth 2000 s ?opts) = ''healthy'') (GetFeedSyncStatus ''osv'' synced_store) = Some True"
    by code_simp
  then show ?thesis
    using healthy healthy_feeds_are_fresh [OF healthy listed [OF s], of 2000 DefaultHealthStaleAfter] s
    by (auto simp: normalizedHealthOptions_def)
qed

end
