(* ===== verification/QueueWorkers.thy ===== *)
theory QueueWorkers
  imports RefreshQueue
begin

text \<open>
  The supervisor of the asynchronous workers (\<open>internal/feed/queue.go\<close>) and the completion of a
  claimed job (\<open>internal/feed/refresh_completion.go\<close>).

  \<open>Run\<close> starts one goroutine per worker and then waits in a \<open>select\<close> for the end of its context, for a
  result on the channel \<open>done\<close>, or for the ticker. The model keeps the goroutines that still owe a
  result, the channel with its capacity and the place \<open>Run\<close> has reached, and gives every possible
  move of the goroutines, of the environment and of \<open>Run\<close> as a step relation; the code between two
  waits is one function. A worker whose \<open>Run\<close> never returns is one whose step is never taken.

  The lemmas show that a send on \<open>done\<close> never blocks, that no goroutine outlives \<open>Run\<close>, and that
  supervision ends: restarts are bounded, and once the context has ended \<open>Run\<close> cannot get stuck before
  it returns.
\<close>

section \<open>Lifecycle of the workers\<close>

definition maxWorkerRestarts :: nat where
  "maxWorkerRestarts = 3"

definition workerBackoffs :: "duration list" where
  "workerBackoffs = [5 * second, 30 * second, 5 * 60 * second]"

datatype worker_error = Canceled | Failed gostring

record workerResult =
  wr_name :: gostring
  wr_err :: "worker_error option"

record workerLifecycleState =
  restartCounts :: "(gostring \<times> nat) list"
  exited :: nat
  total_workers :: nat

record workerRestart =
  attempts :: nat
  backoff :: duration

definition newWorkerLifecycleState :: "nat \<Rightarrow> workerLifecycleState" where
  "newWorkerLifecycleState workerCount = \<lparr>restartCounts = [], exited = 0, total_workers = workerCount\<rparr>"

definition markExited :: "workerLifecycleState \<Rightarrow> workerLifecycleState" where
  "markExited s = s\<lparr>exited := exited s + 1\<rparr>"

definition allWorkersExited :: "workerLifecycleState \<Rightarrow> bool" where
  "allWorkersExited s \<longleftrightarrow> exited s \<ge> total_workers s"

text \<open>The zero value of an absent key is the count of a worker that never restarted.\<close>

definition restarts :: "workerLifecycleState \<Rightarrow> gostring \<Rightarrow> nat" where
  "restarts s workerName = (case map_of (restartCounts s) workerName of None \<Rightarrow> 0 | Some n \<Rightarrow> n)"

definition claimRestart :: "gostring \<Rightarrow> workerLifecycleState \<Rightarrow> (workerRestart \<times> bool) \<times> workerLifecycleState" where
  "claimRestart workerName s =
     (let n = restarts s workerName in
      if n \<ge> maxWorkerRestarts then ((\<lparr>attempts = n, backoff = 0\<rparr>, False), s)
      else ((\<lparr>attempts = n + 1, backoff = workerBackoffs ! n\<rparr>, True),
            s\<lparr>restartCounts := AList.update workerName (n + 1) (restartCounts s)\<rparr>))"

section \<open>The supervisor\<close>

text \<open>A goroutine runs its worker or waits for its backoff before it runs it again.\<close>

datatype goroutine = Running gostring | Waiting gostring duration

fun worker_name :: "goroutine \<Rightarrow> gostring" where
  "worker_name (Running n) = n"
| "worker_name (Waiting n d) = n"

text \<open>Where \<open>Run\<close> waits; \<open>Draining\<close> carries the local \<open>exited\<close> of \<open>drainWorkersOnShutdown\<close>.\<close>

datatype run_point = Supervising | AllExited | Draining nat | Returned_from_Run

record QueueProcessor =
  workers :: "gostring list"
  stuckThreshold :: duration
  goroutines :: "goroutine list"
  done_channel :: "workerResult list"
  lifecycle :: workerLifecycleState
  run_point :: run_point
  ctx_done :: bool

definition findWorker :: "gostring list \<Rightarrow> gostring \<Rightarrow> gostring option" where
  "findWorker ws name = find (\<lambda>w. w = name) ws"

definition startWorker :: "gostring \<Rightarrow> QueueProcessor \<Rightarrow> QueueProcessor" where
  "startWorker worker q = q\<lparr>goroutines := goroutines q @ [Running worker]\<rparr>"

definition startWorkers :: "QueueProcessor \<Rightarrow> QueueProcessor" where
  "startWorkers q = fold startWorker (workers q) q"

definition restartWorkerAfterBackoff :: "gostring \<Rightarrow> workerRestart \<Rightarrow> QueueProcessor \<Rightarrow> QueueProcessor" where
  "restartWorkerAfterBackoff worker restart q = q\<lparr>goroutines := goroutines q @ [Waiting worker (backoff restart)]\<rparr>"

definition restartWorker :: "workerResult \<Rightarrow> QueueProcessor \<Rightarrow> bool \<times> QueueProcessor" where
  "restartWorker result q =
     (case claimRestart (wr_name result) (lifecycle q) of
        ((restart, ok), lc) \<Rightarrow>
          let q = q\<lparr>lifecycle := lc\<rparr> in
          if \<not> ok then (False, q)
          else case findWorker (workers q) (wr_name result) of
                 None \<Rightarrow> (False, q)
               | Some w \<Rightarrow> (True, restartWorkerAfterBackoff w restart q))"

definition isCanceled :: "bool \<Rightarrow> workerResult \<Rightarrow> bool" where
  "isCanceled ended r \<longleftrightarrow> wr_err r = Some Canceled \<or> ended"

definition handleWorkerResult :: "workerResult \<Rightarrow> QueueProcessor \<Rightarrow> QueueProcessor" where
  "handleWorkerResult result q =
     (if isCanceled (ctx_done q) result then q\<lparr>lifecycle := markExited (lifecycle q)\<rparr>
      else let result = (if wr_err result = None
                         then result\<lparr>wr_err := Some (Failed ''worker exited unexpectedly without error'')\<rparr> else result)
        in case restartWorker result q of
             (True, q) \<Rightarrow> q
           | (False, q) \<Rightarrow> q\<lparr>lifecycle := markExited (lifecycle q)\<rparr>)"

text \<open>The start of \<open>Run\<close> with at least one worker: the state before the first wait.\<close>

definition Run_start :: "gostring list \<Rightarrow> duration \<Rightarrow> QueueProcessor" where
  "Run_start ws threshold =
     startWorkers \<lparr>workers = ws, stuckThreshold = threshold, goroutines = [], done_channel = [],
       lifecycle = newWorkerLifecycleState (length ws), run_point = Supervising, ctx_done = False\<rparr>"

text \<open>The branch \<open>result := <-done\<close> of the loop, and one turn of the draining loop.\<close>

definition take_result :: "QueueProcessor \<Rightarrow> workerResult \<Rightarrow> workerResult list \<Rightarrow> QueueProcessor" where
  "take_result q result rest =
     (let q = handleWorkerResult result (q\<lparr>done_channel := rest\<rparr>) in
      if allWorkersExited (lifecycle q) then q\<lparr>run_point := AllExited\<rparr> else q)"

inductive supervisor_step :: "QueueProcessor \<Rightarrow> QueueProcessor \<Rightarrow> bool" where
  cancel: "\<not> ctx_done q \<Longrightarrow> supervisor_step q (q\<lparr>ctx_done := True\<rparr>)"
| worker_ends: "goroutines q = gs @ Running w # gs' \<Longrightarrow> length (done_channel q) < length (workers q) \<Longrightarrow>
    supervisor_step q (q\<lparr>goroutines := gs @ gs', done_channel := done_channel q @ [\<lparr>wr_name = w, wr_err = e\<rparr>]\<rparr>)"
| backoff_over: "goroutines q = gs @ Waiting w d # gs' \<Longrightarrow>
    supervisor_step q (q\<lparr>goroutines := gs @ Running w # gs'\<rparr>)"
| backoff_cut: "ctx_done q \<Longrightarrow> goroutines q = gs @ Waiting w d # gs' \<Longrightarrow> length (done_channel q) < length (workers q) \<Longrightarrow>
    supervisor_step q (q\<lparr>goroutines := gs @ gs', done_channel := done_channel q @ [\<lparr>wr_name = w, wr_err = Some Canceled\<rparr>]\<rparr>)"
| result_taken: "run_point q = Supervising \<Longrightarrow> done_channel q = result # rest \<Longrightarrow> supervisor_step q (take_result q result rest)"
| shutdown: "run_point q = Supervising \<Longrightarrow> ctx_done q \<Longrightarrow>
    supervisor_step q (q\<lparr>run_point := Draining (exited (lifecycle q))\<rparr>)"
| drain: "run_point q = Draining n \<Longrightarrow> n < length (workers q) \<Longrightarrow> done_channel q = result # rest \<Longrightarrow>
    supervisor_step q (q\<lparr>done_channel := rest, run_point := Draining (n + 1)\<rparr>)"
| drained: "run_point q = Draining n \<Longrightarrow> \<not> n < length (workers q) \<Longrightarrow>
    supervisor_step q (q\<lparr>run_point := Returned_from_Run\<rparr>)"
| idle_ends: "run_point q = AllExited \<Longrightarrow> ctx_done q \<Longrightarrow> supervisor_step q (q\<lparr>run_point := Returned_from_Run\<rparr>)"

section \<open>Stuck jobs\<close>

text \<open>
  The reset of each source reads the clock anew, so the times come as a list. An error of the store is
  logged and the loop goes on; the in-memory store returns none.
\<close>

definition resetStuckJobsForSource :: "duration \<Rightarrow> gotime \<Rightarrow> gostring \<Rightarrow> Store \<Rightarrow> Store" where
  "resetStuckJobsForSource threshold now source st = snd (ResetStuckJobs now source threshold st)"

fun resetAllStuckJobs :: "duration \<Rightarrow> gotime list \<Rightarrow> gostring list \<Rightarrow> Store \<Rightarrow> Store" where
  "resetAllStuckJobs threshold (now # clock) (w # ws) st =
     resetAllStuckJobs threshold clock ws (resetStuckJobsForSource threshold now w st)"
| "resetAllStuckJobs threshold clock ws st = st"

section \<open>Completing a claimed job\<close>

text \<open>
  The store is an \<open>any\<close> of which the two completion methods are looked up; a missing one is \<open>None\<close>.
\<close>

record 'st Completer =
  cp_Claimed :: "(int \<Rightarrow> gotime option \<Rightarrow> gostring option \<Rightarrow> 'st \<Rightarrow> (gostring option \<times> 'st)) option"
  cp_Legacy :: "(int \<Rightarrow> gostring option \<Rightarrow> 'st \<Rightarrow> (gostring option \<times> 'st)) option"

definition feed_CompleteClaimedRefresh ::
    "'st Completer \<Rightarrow> RefreshJob option \<Rightarrow> gostring option \<Rightarrow> 'st \<Rightarrow> gostring option \<times> 'st" where
  "feed_CompleteClaimedRefresh store job jobErr st =
     (case job of
        None \<Rightarrow> (None, st)
      | Some job \<Rightarrow>
          if cp_Claimed store \<noteq> None \<and> rj_ProcessedAt job \<noteq> None
          then the (cp_Claimed store) (rj_ID job) (rj_ProcessedAt job) jobErr st
          else case cp_Legacy store of
                 Some legacy \<Rightarrow> legacy (rj_ID job) jobErr st
               | None \<Rightarrow>
                   (case cp_Claimed store of
                      Some claimed \<Rightarrow> claimed (rj_ID job) (rj_ProcessedAt job) jobErr st
                    | None \<Rightarrow> (Some ''refresh store does not support completion'', st)))"

section \<open>Invariant of the supervisor\<close>

text \<open>
  Every worker is accounted for exactly once: it has a goroutine, or a result in the channel, or it
  counts as exited.
\<close>

fun gone :: "run_point \<Rightarrow> nat \<Rightarrow> nat" where
  "gone (Draining n) e = n"
| "gone p e = e"

definition supervisor_ok :: "QueueProcessor \<Rightarrow> bool" where
  "supervisor_ok q \<longleftrightarrow>
     (run_point q = Returned_from_Run \<longrightarrow> goroutines q = [] \<and> done_channel q = []) \<and>
     (run_point q \<noteq> Returned_from_Run \<longrightarrow> length (goroutines q) + length (done_channel q) + gone (run_point q) (exited (lifecycle q)) = length (workers q)) \<and>
     (run_point q = AllExited \<longrightarrow> goroutines q = [] \<and> done_channel q = []) \<and>
     total_workers (lifecycle q) = length (workers q) \<and>
     (\<forall>g \<in> set (goroutines q). worker_name g \<in> set (workers q)) \<and>
     (\<forall>r \<in> set (done_channel q). wr_name r \<in> set (workers q)) \<and>
     (\<forall>n. restarts (lifecycle q) n \<le> maxWorkerRestarts)"

lemma startWorkers_fields:
  "fold startWorker ws q = q\<lparr>goroutines := goroutines q @ map Running ws\<rparr>"
  by (induction ws arbitrary: q) (simp_all add: startWorker_def)

lemma Run_start_fields [simp]:
  "workers (Run_start ws t) = ws" "goroutines (Run_start ws t) = map Running ws" "done_channel (Run_start ws t) = []"
  "lifecycle (Run_start ws t) = newWorkerLifecycleState (length ws)" "run_point (Run_start ws t) = Supervising"
  "ctx_done (Run_start ws t) = False"
  by (simp_all add: Run_start_def startWorkers_def startWorkers_fields)

lemma restarts_new [simp]: "restarts (newWorkerLifecycleState n) w = 0"
  by (simp add: restarts_def newWorkerLifecycleState_def)

lemma Run_start_ok: "supervisor_ok (Run_start ws t)"
  by (auto simp: supervisor_ok_def newWorkerLifecycleState_def restarts_def)

text \<open>What handling a result does to the fields: one more exited, or one more goroutine for the same worker.\<close>

lemma claimRestart_cases:
  obtains (spent) restart where "claimRestart w s = ((restart, False), s)" "restarts s w \<ge> maxWorkerRestarts"
  | (granted) restart s' where "claimRestart w s = ((restart, True), s')" "restarts s w < maxWorkerRestarts"
      "exited s' = exited s" "total_workers s' = total_workers s"
      "\<And>v. restarts s' v = (if v = w then restarts s w + 1 else restarts s v)"
proof (cases "restarts s w \<ge> maxWorkerRestarts")
  case True
  then show thesis by (intro spent) (simp_all add: claimRestart_def)
next
  case False
  then show thesis
    by (intro granted [of "\<lparr>attempts = restarts s w + 1, backoff = workerBackoffs ! restarts s w\<rparr>"
          "s\<lparr>restartCounts := AList.update w (restarts s w + 1) (restartCounts s)\<rparr>"])
      (auto simp: claimRestart_def Let_def restarts_def update_conv')
qed

lemma findWorker_known: "w \<in> set ws \<Longrightarrow> findWorker ws w = Some w"
  by (induction ws) (auto simp: findWorker_def)

lemma handleWorkerResult_cases:
  assumes "wr_name r \<in> set (workers q)"
  obtains (left) "handleWorkerResult r q = q\<lparr>lifecycle := markExited (lifecycle q)\<rparr>"
  | (again) lc d where "handleWorkerResult r q = q\<lparr>lifecycle := lc, goroutines := goroutines q @ [Waiting (wr_name r) d]\<rparr>"
      "restarts (lifecycle q) (wr_name r) < maxWorkerRestarts"
      "exited lc = exited (lifecycle q)" "total_workers lc = total_workers (lifecycle q)"
      "\<And>v. restarts lc v = (if v = wr_name r then restarts (lifecycle q) v + 1 else restarts (lifecycle q) v)"
proof (cases "isCanceled (ctx_done q) r")
  case True
  then show thesis by (intro left) (simp add: handleWorkerResult_def)
next
  case False
  show thesis
  proof (cases rule: claimRestart_cases [of "wr_name r" "lifecycle q"])
    case (spent restart)
    then show thesis using False
      by (intro left) (cases q, simp add: handleWorkerResult_def restartWorker_def Let_def)
  next
    case (granted restart s')
    then show thesis using False assms
      by (intro again [where lc = s' and d = "backoff restart"])
        (simp_all add: handleWorkerResult_def restartWorker_def Let_def findWorker_known restartWorkerAfterBackoff_def)
  qed
qed

lemma take_result_ok:
  assumes "supervisor_ok q" and "run_point q = Supervising" and "done_channel q = result # rest"
  shows "supervisor_ok (take_result q result rest)"
proof -
  have known: "wr_name result \<in> set (workers (q\<lparr>done_channel := rest\<rparr>))" using assms by (simp add: supervisor_ok_def)
  then show ?thesis
  proof (cases rule: handleWorkerResult_cases)
    case left
    have "length (goroutines q) + length rest + exited (lifecycle q) + 1 = length (workers q)"
      using assms by (simp add: supervisor_ok_def)
    then have none: "goroutines q = []" "rest = []" if "length (workers q) \<le> Suc (exited (lifecycle q))"
      using that by (cases "goroutines q"; cases rest; simp)+
    from left show ?thesis using assms none
      by (auto simp: take_result_def Let_def supervisor_ok_def markExited_def restarts_def allWorkersExited_def)
  next
    case (again lc d)
    then show ?thesis using assms known
      by (auto simp: take_result_def Let_def supervisor_ok_def allWorkersExited_def)
  qed
qed

lemma supervisor_step_ok: "supervisor_step q q' \<Longrightarrow> supervisor_ok q \<Longrightarrow> supervisor_ok q'"
proof (induction rule: supervisor_step.induct)
  case (result_taken q result rest)
  then show ?case by (simp add: take_result_ok)
next
  case (drained q n)
  then have "length (goroutines q) + length (done_channel q) + n = length (workers q)" by (simp add: supervisor_ok_def)
  with drained(2) have "length (goroutines q) = 0" "length (done_channel q) = 0" by linarith+
  with drained show ?case by (simp add: supervisor_ok_def)
qed (auto simp: supervisor_ok_def)

lemma supervisor_steps_ok: "supervisor_step\<^sup>*\<^sup>* q q' \<Longrightarrow> supervisor_ok q \<Longrightarrow> supervisor_ok q'"
  by (induction rule: rtranclp_induct) (auto intro: supervisor_step_ok)

section \<open>Supervision ends\<close>

text \<open>
  The weight every move lowers: the restarts still allowed, the goroutines, the results on their way,
  the place of \<open>Run\<close> and the cancellation still to come.
\<close>

definition restarts_left :: "QueueProcessor \<Rightarrow> nat" where
  "restarts_left q = (\<Sum>w \<in> set (workers q). maxWorkerRestarts - restarts (lifecycle q) w)"

fun goroutine_weight :: "goroutine \<Rightarrow> nat" where
  "goroutine_weight (Running w) = 2"
| "goroutine_weight (Waiting w d) = 3"

fun point_weight :: "run_point \<Rightarrow> nat" where
  "point_weight Supervising = 3"
| "point_weight (Draining n) = 2"
| "point_weight AllExited = 1"
| "point_weight Returned_from_Run = 0"

definition weight :: "QueueProcessor \<Rightarrow> nat" where
  "weight q = 4 * restarts_left q + sum_list (map goroutine_weight (goroutines q)) + length (done_channel q) +
     point_weight (run_point q) + (if ctx_done q then 0 else 1)"

lemma restarts_left_cong:
  "workers q' = workers q \<Longrightarrow> restarts (lifecycle q') = restarts (lifecycle q) \<Longrightarrow> restarts_left q' = restarts_left q"
  by (simp add: restarts_left_def)

lemma restarts_left_again:
  assumes "workers q' = workers q" and "w \<in> set (workers q)" and "restarts (lifecycle q) w < maxWorkerRestarts"
    and "\<And>v. restarts (lifecycle q') v = (if v = w then restarts (lifecycle q) v + 1 else restarts (lifecycle q) v)"
  shows "restarts_left q' + 1 = restarts_left q"
proof -
  have "(\<Sum>v \<in> set (workers q). maxWorkerRestarts - restarts (lifecycle q) v) =
      (\<Sum>v \<in> set (workers q). (maxWorkerRestarts - restarts (lifecycle q') v) + (if v = w then 1 else 0))"
    using assms(3,4) by (intro sum.cong) auto
  also have "\<dots> = (\<Sum>v \<in> set (workers q). maxWorkerRestarts - restarts (lifecycle q') v) + 1"
    using assms(2) by (simp add: sum.distrib)
  finally show ?thesis by (simp add: restarts_left_def assms(1))
qed

lemma take_result_weight:
  assumes "supervisor_ok q" and "run_point q = Supervising" and "done_channel q = result # rest"
  shows "weight (take_result q result rest) < weight q"
proof -
  let ?q = "q\<lparr>done_channel := rest\<rparr>"
  have known: "wr_name result \<in> set (workers ?q)" using assms by (simp add: supervisor_ok_def)
  then show ?thesis
  proof (cases rule: handleWorkerResult_cases)
    case left
    have "restarts_left (q\<lparr>done_channel := rest, lifecycle := markExited (lifecycle q)\<rparr>) = restarts_left q"
      "restarts_left (q\<lparr>done_channel := rest, lifecycle := markExited (lifecycle q), run_point := AllExited\<rparr>) = restarts_left q"
      by (auto intro!: restarts_left_cong simp: restarts_def markExited_def)
    then show ?thesis using left assms by (simp add: take_result_def weight_def Let_def)
  next
    case (again lc d)
    have "restarts_left (q\<lparr>done_channel := rest, lifecycle := lc, goroutines := goroutines q @ [Waiting (wr_name result) d]\<rparr>) + 1 = restarts_left q"
      by (rule restarts_left_again [of _ _ "wr_name result"]) (use again known in auto)
    moreover have "restarts_left (q\<lparr>done_channel := rest, lifecycle := lc, goroutines := goroutines q @ [Waiting (wr_name result) d],
        run_point := AllExited\<rparr>) + 1 = restarts_left q"
      by (rule restarts_left_again [of _ _ "wr_name result"]) (use again known in auto)
    ultimately show ?thesis using again(1) assms by (simp add: take_result_def weight_def Let_def)
  qed
qed

lemma supervisor_step_weight: "supervisor_step q q' \<Longrightarrow> supervisor_ok q \<Longrightarrow> weight q' < weight q"
proof (induction rule: supervisor_step.induct)
  case (result_taken q result rest)
  then show ?case by (simp add: take_result_weight)
qed (auto simp: weight_def restarts_left_def)

lemma supervisor_steps_weight:
  "(supervisor_step ^^ n) q q' \<Longrightarrow> supervisor_ok q \<Longrightarrow> supervisor_ok q' \<and> n + weight q' \<le> weight q"
proof (induction n arbitrary: q')
  case (Suc n)
  then obtain r where r: "(supervisor_step ^^ n) q r" "supervisor_step r q'" by auto
  with Suc have "supervisor_ok r" "n + weight r \<le> weight q" by auto
  with supervisor_step_weight [OF r(2)] supervisor_step_ok [OF r(2)] show ?case by simp
qed simp

lemma Run_start_weight: "weight (Run_start ws t) \<le> 14 * length ws + 4"
proof -
  have "restarts_left (Run_start ws t) = 3 * card (set ws)" by (simp add: restarts_left_def maxWorkerRestarts_def)
  moreover have "sum_list (map goroutine_weight (map Running ws)) = 2 * length ws" by (induction ws) auto
  moreover have "card (set ws) \<le> length ws" by (rule card_length)
  ultimately show ?thesis by (simp add: weight_def)
qed

text \<open>Once the context has ended, only the return of \<open>Run\<close> leaves nothing to do.\<close>

lemma supervisor_progress:
  assumes "supervisor_ok q" and "ctx_done q" and "run_point q \<noteq> Returned_from_Run"
  shows "\<exists>q'. supervisor_step q q'"
proof (cases "run_point q")
  case Supervising
  then show ?thesis using assms(2) by (blast intro: supervisor_step.shutdown)
next
  case AllExited
  then show ?thesis using assms(2) by (blast intro: supervisor_step.idle_ends)
next
  case (Draining n)
  consider "\<not> n < length (workers q)" | r rest where "n < length (workers q)" "done_channel q = r # rest"
    | g gs where "n < length (workers q)" "done_channel q = []" "goroutines q = g # gs"
    using assms(1) Draining by (cases "done_channel q"; cases "goroutines q") (auto simp: supervisor_ok_def)
  then show ?thesis
  proof cases
    case 1
    then show ?thesis using Draining by (blast intro: supervisor_step.drained)
  next
    case 2
    then show ?thesis using Draining by (blast intro: supervisor_step.drain)
  next
    case 3
    then have "goroutines q = [] @ g # gs" "length (done_channel q) < length (workers q)" by auto
    then show ?thesis using supervisor_step.worker_ends supervisor_step.backoff_over by (cases g) metis+
  qed
qed (use assms in blast)

section \<open>Resetting every source\<close>

lemma reset_keeps_job:
  assumes "i < length (refreshJobs st)" and "rj_Source (refreshJobs st ! i) \<notin> set ws" and "[] \<notin> set ws"
  shows "refreshJobs (resetAllStuckJobs threshold clock ws st) ! i = refreshJobs st ! i"
  using assms
proof (induction threshold clock ws st rule: resetAllStuckJobs.induct)
  case (1 threshold now clock w ws st)
  let ?st = "resetStuckJobsForSource threshold now w st"
  have same: "refreshJobs ?st ! i = refreshJobs st ! i" "length (refreshJobs ?st) = length (refreshJobs st)"
    using "1.prems" by (auto simp: resetStuckJobsForSource_def ResetStuckJobs_def is_stuck_def)
  show ?case using "1.IH" "1.prems" by (simp add: same)
qed simp_all

lemma reset_length [simp]: "length (refreshJobs (resetAllStuckJobs threshold clock ws st)) = length (refreshJobs st)"
  by (induction threshold clock ws st rule: resetAllStuckJobs.induct)
    (simp_all add: resetStuckJobsForSource_def ResetStuckJobs_def)

definition not_stuck :: "gotime \<Rightarrow> duration \<Rightarrow> RefreshJob \<Rightarrow> bool" where
  "not_stuck now threshold job \<longleftrightarrow> \<not> is_stuck now (rj_Source job) threshold job"

lemma reset_one:
  assumes "i < length (refreshJobs st)"
  shows "rj_Source (refreshJobs (resetStuckJobsForSource threshold now w st) ! i) = rj_Source (refreshJobs st ! i)"
    and "not_stuck t threshold (refreshJobs st ! i) \<Longrightarrow>
      not_stuck t threshold (refreshJobs (resetStuckJobsForSource threshold now w st) ! i)"
    and "w = rj_Source (refreshJobs st ! i) \<Longrightarrow> t \<le> now \<Longrightarrow>
      not_stuck t threshold (refreshJobs (resetStuckJobsForSource threshold now w st) ! i)"
  using assms by (auto simp: resetStuckJobsForSource_def ResetStuckJobs_def not_stuck_def is_stuck_def)

lemma reset_keeps_not_stuck:
  "i < length (refreshJobs st) \<Longrightarrow> not_stuck t threshold (refreshJobs st ! i) \<Longrightarrow>
   not_stuck t threshold (refreshJobs (resetAllStuckJobs threshold clock ws st) ! i)"
proof (induction threshold clock ws st rule: resetAllStuckJobs.induct)
  case (1 threshold now clock w ws st)
  have "i < length (refreshJobs (resetStuckJobsForSource threshold now w st))"
    using "1.prems"(1) by (simp add: resetStuckJobsForSource_def ResetStuckJobs_def)
  then show ?case using "1.IH" reset_one(2) [OF "1.prems"] by simp
qed simp_all

lemma reset_frees_job:
  assumes "i < length (refreshJobs st)" and "rj_Source (refreshJobs st ! i) \<in> set ws"
    and "length ws \<le> length clock" and "\<And>u. u \<in> set clock \<Longrightarrow> t \<le> u"
  shows "not_stuck t threshold (refreshJobs (resetAllStuckJobs threshold clock ws st) ! i)"
  using assms
proof (induction threshold clock ws st rule: resetAllStuckJobs.induct)
  case (1 threshold now clock w ws st)
  let ?st = "resetStuckJobsForSource threshold now w st"
  have len: "i < length (refreshJobs ?st)"
    using "1.prems"(1) by (simp add: resetStuckJobsForSource_def ResetStuckJobs_def)
  show ?case
  proof (cases "w = rj_Source (refreshJobs st ! i)")
    case True
    then have "not_stuck t threshold (refreshJobs ?st ! i)" using reset_one(3) "1.prems" by simp
    then show ?thesis using reset_keeps_not_stuck [OF len] by simp
  next
    case False
    then show ?thesis using "1.IH" "1.prems" len by (simp add: reset_one(1))
  qed
qed simp_all

section \<open>The in-memory store completes by claim\<close>

definition dev_completer :: "DevEnv \<Rightarrow> gotime \<Rightarrow> Store Completer" where
  "dev_completer env now =
     (let answer = (\<lambda>(r, st). (case r of Ok _ \<Rightarrow> None | Err e \<Rightarrow> Some ''completion failed'', st)) in
      \<lparr>cp_Claimed = Some (\<lambda>jobID claimedAt jobErr st. answer (CompleteClaimedRefresh env now jobID claimedAt jobErr st)),
       cp_Legacy = Some (\<lambda>jobID jobErr st. answer (CompleteRefresh env now jobID jobErr st))\<rparr>)"

text \<open>A worker that lost its claim does not complete the job it was given, although the store also has the unconditional method.\<close>

lemma lost_claim_completes_nothing:
  assumes "rj_ProcessedAt job = Some claim"
    and "\<And>k. find (\<lambda>j. rj_ID j = rj_ID job) (refreshJobs st) = Some k \<Longrightarrow>
      rj_Status k \<noteq> RefreshStatusProcessing \<or> rj_ProcessedAt k \<noteq> Some claim"
  shows "feed_CompleteClaimedRefresh (dev_completer env now) (Some job) jobErr st = (None, st)"
  using complete_claimed_noop [OF assms(2)] assms(1)
  by (simp add: feed_CompleteClaimedRefresh_def dev_completer_def Let_def)

section \<open>Properties\<close>

text \<open>
  C13: Supervision ends. However the workers return, crash or hang and whenever the context is cancelled,
  a run over \<open>n\<close> workers makes at most \<open>14 * n + 4\<close> moves besides the ticker; if nothing more can
  happen after the cancellation, then \<open>Run\<close> has returned, and no goroutine and no unread result is
  left behind.
\<close>

theorem supervisor_terminates:
  assumes "(supervisor_step ^^ n) (Run_start ws threshold) q"
  shows "n \<le> 14 * length ws + 4 \<and>
    (ctx_done q \<and> \<not> (\<exists>q'. supervisor_step q q') \<longrightarrow>
      run_point q = Returned_from_Run \<and> goroutines q = [] \<and> done_channel q = [])"
proof -
  note run = supervisor_steps_weight [OF assms Run_start_ok]
  have "n \<le> 14 * length ws + 4" using run Run_start_weight [of ws threshold] by simp
  moreover have "run_point q = Returned_from_Run" if "ctx_done q" "\<not> (\<exists>q'. supervisor_step q q')"
    using supervisor_progress [of q] run that by blast
  ultimately show ?thesis using run by (auto simp: supervisor_ok_def)
qed

text \<open>One worker that the shutdown finds running.\<close>

definition after_cancel :: QueueProcessor where
  "after_cancel = (Run_start [''socket''] 300)\<lparr>ctx_done := True\<rparr>"

definition after_return :: QueueProcessor where
  "after_return = after_cancel\<lparr>goroutines := [], done_channel := [], run_point := Returned_from_Run\<rparr>"

lemma socket_shutdown: "(supervisor_step ^^ 5) (Run_start [''socket''] 300) after_return"
proof -
  let ?q0 = "Run_start [''socket''] 300" and ?q1 = after_cancel and ?r = "\<lparr>wr_name = ''socket'', wr_err = Some Canceled\<rparr>"
  let ?q2 = "?q1\<lparr>run_point := Draining 0\<rparr>"
  let ?q3 = "?q2\<lparr>goroutines := [], done_channel := [?r]\<rparr>"
  let ?q4 = "?q3\<lparr>done_channel := [], run_point := Draining 1\<rparr>"
  have step1: "supervisor_step ?q0 ?q1" unfolding after_cancel_def by (rule supervisor_step.cancel) simp
  have step2: "supervisor_step ?q1 ?q2"
    using supervisor_step.shutdown [of ?q1] by (simp add: after_cancel_def newWorkerLifecycleState_def)
  have step3: "supervisor_step ?q2 ?q3"
    using supervisor_step.worker_ends [of ?q2 "[]" "''socket''" "[]" "Some Canceled"] by (simp add: after_cancel_def)
  have step4: "supervisor_step ?q3 ?q4"
    using supervisor_step.drain [of ?q3 0 ?r "[]"] by (simp add: after_cancel_def)
  have step5: "supervisor_step ?q4 after_return"
    using supervisor_step.drained [of ?q4 1] by (simp add: after_cancel_def after_return_def)
  have "(supervisor_step ^^ Suc (Suc (Suc (Suc (Suc 0))))) ?q0 after_return"
    by (rule relpowp_Suc_I2 [where P = supervisor_step, OF step1], rule relpowp_Suc_I2 [where P = supervisor_step, OF step2],
        rule relpowp_Suc_I2 [where P = supervisor_step, OF step3], rule relpowp_Suc_I2 [where P = supervisor_step, OF step4],
        rule relpowp_Suc_I2 [where P = supervisor_step, OF step5]) simp
  then show ?thesis by (simp add: numeral_eq_Suc)
qed

theorem supervisor_terminates_witness:
  "(5::nat) \<le> 14 * length [''socket''] + 4 \<and> run_point after_return = Returned_from_Run \<and> goroutines after_return = []"
proof -
  have "\<not> (\<exists>q'. supervisor_step after_return q')"
    by (auto simp: after_return_def after_cancel_def elim!: supervisor_step.cases)
  then show ?thesis
    using supervisor_terminates [OF socket_shutdown] by (simp add: after_return_def after_cancel_def)
qed

text \<open>
  C25: No goroutine of the supervisor ever blocks on its channel, and no worker is lost: at every moment of
  a run each started worker has a goroutine, an unread result or is counted as exited, so whenever a
  goroutine still owes a result the channel has room for it; no worker is restarted more than three
  times; and \<open>Run\<close> stops supervising by itself only when every worker is gone.
\<close>

theorem supervisor_accounts:
  assumes "supervisor_step\<^sup>*\<^sup>* (Run_start ws threshold) q"
  shows "(goroutines q \<noteq> [] \<longrightarrow> length (done_channel q) < length (workers q)) \<and>
    (run_point q = Supervising \<longrightarrow>
      length (goroutines q) + length (done_channel q) + exited (lifecycle q) = length (workers q)) \<and>
    (run_point q = AllExited \<longrightarrow> goroutines q = [] \<and> done_channel q = []) \<and>
    restarts (lifecycle q) w \<le> 3"
  using supervisor_steps_ok [OF assms Run_start_ok]
  by (cases "run_point q") (auto simp: supervisor_ok_def maxWorkerRestarts_def neq_Nil_conv)

theorem supervisor_accounts_witness:
  "supervisor_step\<^sup>*\<^sup>* (Run_start [''socket''] 300) after_return \<and> restarts (lifecycle after_return) ''socket'' \<le> 3"
  using supervisor_accounts [OF relpowp_imp_rtranclp [OF socket_shutdown], of "''socket''"]
    relpowp_imp_rtranclp [OF socket_shutdown] by simp

text \<open>
  A pass of the stuck-job scanner misses nothing and touches nothing else: after it no job of a
  registered worker is still processing under a claim older than the threshold, counted from the
  start of the pass, and every job of a source without a worker is as it was.
\<close>

theorem stuck_jobs_freed:
  assumes "i < length (refreshJobs st)" and "length ws \<le> length clock" and "\<forall>u \<in> set clock. t \<le> u" and "[] \<notin> set ws"
  shows "if rj_Source (refreshJobs st ! i) \<in> set ws
    then \<not> (rj_Status (refreshJobs (resetAllStuckJobs threshold clock ws st) ! i) = RefreshStatusProcessing \<and>
      (\<exists>p. rj_ProcessedAt (refreshJobs (resetAllStuckJobs threshold clock ws st) ! i) = Some p \<and> threshold < t - p))
    else refreshJobs (resetAllStuckJobs threshold clock ws st) ! i = refreshJobs st ! i"
  using reset_frees_job [OF assms(1) _ assms(2), of t threshold] assms(3) reset_keeps_job [OF assms(1) _ assms(4)]
  by (auto simp: not_stuck_def is_stuck_def)

definition claimed_job :: Store where
  "claimed_job = snd (DequeueRefresh 5 ''socket'' (snd (EnqueueRefresh 1 (job_for ''a'' 1) NewStore)))"

theorem stuck_jobs_freed_witness:
  "\<not> (rj_Status (refreshJobs (resetAllStuckJobs 30 [40, 41] [''socket'', ''rep''] claimed_job) ! 0) = RefreshStatusProcessing \<and>
     (\<exists>p. rj_ProcessedAt (refreshJobs (resetAllStuckJobs 30 [40, 41] [''socket'', ''rep''] claimed_job) ! 0) = Some p \<and> 30 < 40 - p))"
proof -
  have "length (refreshJobs claimed_job) = 1" by code_simp
  moreover have "rj_Source (refreshJobs claimed_job ! 0) = ''socket''" by code_simp
  ultimately show ?thesis
    using stuck_jobs_freed [of 0 claimed_job "[''socket'', ''rep'']" "[40, 41]" 40 30] by simp
qed

end
