(* ===== verification/Sessions.thy ===== *)
theory Sessions
  imports AuditLog "HOL-Library.AList"
begin

text \<open>
  The admin sessions of the server (\<open>internal/auth/session.go\<close>, \<open>internal/auth/csrf.go\<close>) and the
  middleware that guards the admin routes with them (\<open>internal/server/middleware/session.go\<close>).

  The manager is a record with its map of sessions. A session handed to a caller is a copy that shares
  one thing with the original: the state of its CSRF token, a pointer. The model keeps these states in
  an explicit heap, a list indexed by address. Clock readings and the answers of \<open>crypto/rand\<close> are
  arguments, the cookies an operation writes are results; each operation runs under the lock of the
  manager, so it is one step.

  The specification is a history of what happened to sessions and the login it leaves alive for a
  cookie. The lemmas show that the manager with its expiry rules and its silent evictions decides
  exactly as the history does.
\<close>

section \<open>Sessions\<close>

record Session =
  s_ID :: gostring
  s_Admin :: bool
  s_AuthenticatedWithBootstrap :: bool
  s_CreatedAt :: gotime
  s_LastAccessed :: gotime
  s_expiresAt :: gotime
  s_csrf :: "nat option"
  s_flash :: "(gostring \<times> gostring) list"

record SessionManager =
  sessions :: "(gostring \<times> Session) list"
  maxAge :: duration
  idleTimeout :: duration
  secure :: bool
  csrf_heap :: "gostring list"

record SetCookie =
  ck_Value :: gostring
  ck_Path :: gostring
  ck_MaxAge :: int
  ck_Secure :: bool

definition SessionCookiePath :: gostring where
  "SessionCookiePath = ''/admin''"

definition preAuthSessionTTL :: duration where
  "preAuthSessionTTL = 15 * 60 * second"

definition DefaultAdminIdleTimeout :: duration where
  "DefaultAdminIdleTimeout = 15 * 60 * second"

definition NewSessionManagerWithIdleTimeout :: "duration \<Rightarrow> duration \<Rightarrow> bool \<Rightarrow> SessionManager" where
  "NewSessionManagerWithIdleTimeout age idle sec =
     \<lparr>sessions = [],
      maxAge = (if age \<le> 0 then 8 * 3600 * second else age),
      idleTimeout = (if idle \<le> 0 then DefaultAdminIdleTimeout else idle),
      secure = sec, csrf_heap = []\<rparr>"

text \<open>All cookies are \<open>HttpOnly\<close> and \<open>SameSite=Strict\<close>; a \<open>MaxAge\<close> of zero is an unset one.\<close>

definition clearCookie :: "SessionManager \<Rightarrow> gostring \<Rightarrow> SetCookie" where
  "clearCookie sm path = \<lparr>ck_Value = [], ck_Path = path, ck_MaxAge = - 1, ck_Secure = secure sm\<rparr>"

definition setAdminCookie :: "SessionManager \<Rightarrow> gostring \<Rightarrow> SetCookie" where
  "setAdminCookie sm sessionID = \<lparr>ck_Value = sessionID, ck_Path = SessionCookiePath, ck_MaxAge = 0, ck_Secure = secure sm\<rparr>"

definition setPreAuthCookie :: "SessionManager \<Rightarrow> gostring \<Rightarrow> duration \<Rightarrow> SetCookie" where
  "setPreAuthCookie sm sessionID ttl =
     \<lparr>ck_Value = sessionID, ck_Path = SessionCookiePath, ck_MaxAge = ttl div second, ck_Secure = secure sm\<rparr>"

definition hex_EncodeToString :: "gostring \<Rightarrow> gostring" where
  "hex_EncodeToString b = concat (map (\<lambda>c. [hex_digit (byte c div 16), hex_digit (byte c mod 16)]) b)"

text \<open>The random bytes, or the error of reading them, are the argument.\<close>

definition generateSessionID :: "(gostring, gostring) result \<Rightarrow> (gostring, gostring) result" where
  "generateSessionID rand =
     (case rand of Err e \<Rightarrow> Err (''crypto/rand: '' @ e) | Ok b \<Rightarrow> Ok (hex_EncodeToString b))"

text \<open>\<open>&sessionCSRFState{}\<close>: a new cell with an empty token.\<close>

definition new_csrf :: "SessionManager \<Rightarrow> nat \<times> SessionManager" where
  "new_csrf sm = (length (csrf_heap sm), sm\<lparr>csrf_heap := csrf_heap sm @ [[]]\<rparr>)"

definition cloneSession :: "Session \<Rightarrow> SessionManager \<Rightarrow> Session \<times> SessionManager" where
  "cloneSession sess sm =
     (case s_csrf sess of
        Some a \<Rightarrow> (sess, sm)
      | None \<Rightarrow> (let (a, sm) = new_csrf sm in (sess\<lparr>s_csrf := Some a\<rparr>, sm)))"

definition deleteAdminSessionsLocked :: "SessionManager \<Rightarrow> SessionManager" where
  "deleteAdminSessionsLocked sm = sm\<lparr>sessions := filter (\<lambda>(sessionID, sess). \<not> s_Admin sess) (sessions sm)\<rparr>"

definition createAdmin ::
    "(gostring, gostring) result \<Rightarrow> gotime \<Rightarrow> bool \<Rightarrow> bool \<Rightarrow> SessionManager
     \<Rightarrow> (gostring, Session) result \<times> SetCookie list \<times> SessionManager" where
  "createAdmin rand now authenticatedWithBootstrap exclusive sm =
     (case generateSessionID rand of
        Err e \<Rightarrow> (Err (''auth: generate session id: '' @ e), [], sm)
      | Ok sid \<Rightarrow>
          let (a, sm) = new_csrf sm;
              sess = \<lparr>s_ID = sid, s_Admin = True, s_AuthenticatedWithBootstrap = authenticatedWithBootstrap,
                      s_CreatedAt = now, s_LastAccessed = now, s_expiresAt = now + maxAge sm,
                      s_csrf = Some a, s_flash = []\<rparr>;
              sm = (if exclusive then deleteAdminSessionsLocked sm else sm);
              sm = sm\<lparr>sessions := AList.update sid sess (sessions sm)\<rparr>;
              (clone, sm) = cloneSession sess sm
          in (Ok clone, [setAdminCookie sm sid], sm))"

definition CreateAdmin ::
    "(gostring, gostring) result \<Rightarrow> gotime \<Rightarrow> bool \<Rightarrow> SessionManager
     \<Rightarrow> (gostring, Session) result \<times> SetCookie list \<times> SessionManager" where
  "CreateAdmin rand now authenticatedWithBootstrap sm = createAdmin rand now authenticatedWithBootstrap False sm"

definition CreateExclusiveAdmin ::
    "(gostring, gostring) result \<Rightarrow> gotime \<Rightarrow> SessionManager
     \<Rightarrow> (gostring, Session) result \<times> SetCookie list \<times> SessionManager" where
  "CreateExclusiveAdmin rand now sm = createAdmin rand now False True sm"

definition CreatePreAuth ::
    "(gostring, gostring) result \<Rightarrow> gotime \<Rightarrow> SessionManager
     \<Rightarrow> (gostring, Session) result \<times> SetCookie list \<times> SessionManager" where
  "CreatePreAuth rand now sm =
     (case generateSessionID rand of
        Err e \<Rightarrow> (Err (''auth: generate session id: '' @ e), [], sm)
      | Ok sid \<Rightarrow>
          let ttl = min (maxAge sm) preAuthSessionTTL;
              (a, sm) = new_csrf sm;
              sess = \<lparr>s_ID = sid, s_Admin = False, s_AuthenticatedWithBootstrap = False,
                      s_CreatedAt = now, s_LastAccessed = now, s_expiresAt = now + ttl,
                      s_csrf = Some a, s_flash = []\<rparr>;
              sm = sm\<lparr>sessions := AList.update sid sess (sessions sm)\<rparr>;
              (clone, sm) = cloneSession sess sm
          in (Ok clone, [setPreAuthCookie sm sid ttl], sm))"

text \<open>A request matters to the manager by its session cookie, if it carries one.\<close>

definition reusablePreAuthSession ::
    "gotime \<Rightarrow> gostring option \<Rightarrow> SessionManager \<Rightarrow> (Session \<times> duration) option \<times> SessionManager" where
  "reusablePreAuthSession now cookie sm =
     (if cookie = None \<or> cookie = Some [] then (None, sm)
      else let value = the cookie in
        case map_of (sessions sm) value of
          None \<Rightarrow> (None, sm)
        | Some sess \<Rightarrow>
            if s_Admin sess then (None, sm)
            else if IsZero (s_expiresAt sess) \<or> \<not> now < s_expiresAt sess
            then (None, sm\<lparr>sessions := AList.delete value (sessions sm)\<rparr>)
            else let ttl = s_expiresAt sess - now in
              if ttl < second then (None, sm\<lparr>sessions := AList.delete value (sessions sm)\<rparr>)
              else let sess = sess\<lparr>s_LastAccessed := now\<rparr>;
                       sm = sm\<lparr>sessions := AList.update value sess (sessions sm)\<rparr>;
                       (clone, sm) = cloneSession sess sm
                in (Some (clone, ttl), sm))"

definition CreateOrReusePreAuth ::
    "(gostring, gostring) result \<Rightarrow> gotime \<Rightarrow> gostring option \<Rightarrow> SessionManager
     \<Rightarrow> (gostring, Session) result \<times> SetCookie list \<times> SessionManager" where
  "CreateOrReusePreAuth rand now cookie sm =
     (case reusablePreAuthSession now cookie sm of
        (Some (sess, ttl), sm) \<Rightarrow> (Ok sess, [setPreAuthCookie sm (s_ID sess) ttl], sm)
      | (None, sm) \<Rightarrow> CreatePreAuth rand now sm)"

text \<open>The two expiry tests that \<open>Get\<close> and the periodic clean-up share.\<close>

definition session_expired :: "gotime \<Rightarrow> SessionManager \<Rightarrow> Session \<Rightarrow> bool" where
  "session_expired now sm sess \<longleftrightarrow>
     (\<not> IsZero (s_expiresAt sess) \<and> now > s_expiresAt sess) \<or>
     (s_Admin sess \<and> idleTimeout sm > 0 \<and> now - s_LastAccessed sess > idleTimeout sm)"

definition Get :: "gotime \<Rightarrow> gostring option \<Rightarrow> SessionManager \<Rightarrow> Session option \<times> SessionManager" where
  "Get now cookie sm =
     (case cookie of
        None \<Rightarrow> (None, sm)
      | Some value \<Rightarrow>
          (case map_of (sessions sm) value of
             None \<Rightarrow> (None, sm)
           | Some sess \<Rightarrow>
               if session_expired now sm sess then (None, sm\<lparr>sessions := AList.delete value (sessions sm)\<rparr>)
               else let sess = sess\<lparr>s_LastAccessed := now\<rparr>;
                        sm = sm\<lparr>sessions := AList.update value sess (sessions sm)\<rparr>;
                        (clone, sm) = cloneSession sess sm
                 in (Some clone, sm)))"

definition DeleteByID :: "gostring \<Rightarrow> SessionManager \<Rightarrow> SetCookie list \<times> SessionManager" where
  "DeleteByID sessionID sm =
     ([clearCookie sm SessionCookiePath, clearCookie sm ''/''], sm\<lparr>sessions := AList.delete sessionID (sessions sm)\<rparr>)"

definition Delete_session :: "gostring option \<Rightarrow> SessionManager \<Rightarrow> SetCookie list \<times> SessionManager" where
  "Delete_session cookie sm = (case cookie of None \<Rightarrow> ([], sm) | Some value \<Rightarrow> DeleteByID value sm)"

definition DeleteAllAdminSessions :: "SessionManager \<Rightarrow> SetCookie list \<times> SessionManager" where
  "DeleteAllAdminSessions sm =
     ([clearCookie sm SessionCookiePath, clearCookie sm ''/''], deleteAdminSessionsLocked sm)"

definition SetFlash :: "gostring \<Rightarrow> gostring \<Rightarrow> gostring \<Rightarrow> SessionManager \<Rightarrow> SessionManager" where
  "SetFlash sessionID key val sm =
     (case map_of (sessions sm) sessionID of
        None \<Rightarrow> sm
      | Some sess \<Rightarrow>
          sm\<lparr>sessions := AList.update sessionID (sess\<lparr>s_flash := AList.update key val (s_flash sess)\<rparr>) (sessions sm)\<rparr>)"

definition GetFlash :: "gostring \<Rightarrow> gostring \<Rightarrow> SessionManager \<Rightarrow> gostring \<times> SessionManager" where
  "GetFlash sessionID key sm =
     (case map_of (sessions sm) sessionID of
        None \<Rightarrow> ([], sm)
      | Some sess \<Rightarrow>
          (case map_of (s_flash sess) key of
             None \<Rightarrow> ([], sm)
           | Some val \<Rightarrow>
               (val, sm\<lparr>sessions :=
                  AList.update sessionID (sess\<lparr>s_flash := AList.delete key (s_flash sess)\<rparr>) (sessions sm)\<rparr>)))"

definition PeekFlash :: "gostring \<Rightarrow> gostring \<Rightarrow> SessionManager \<Rightarrow> gostring" where
  "PeekFlash sessionID key sm =
     (case map_of (sessions sm) sessionID of
        None \<Rightarrow> []
      | Some sess \<Rightarrow> (case map_of (s_flash sess) key of None \<Rightarrow> [] | Some val \<Rightarrow> val))"

definition cleanupExpiredSessions :: "gotime \<Rightarrow> SessionManager \<Rightarrow> SessionManager" where
  "cleanupExpiredSessions now sm = sm\<lparr>sessions := filter (\<lambda>(sid, sess). \<not> session_expired now sm sess) (sessions sm)\<rparr>"

section \<open>CSRF tokens\<close>

definition csrfState :: "Session \<Rightarrow> SessionManager \<Rightarrow> nat \<times> Session \<times> SessionManager" where
  "csrfState sess sm =
     (case s_csrf sess of
        Some a \<Rightarrow> (a, sess, sm)
      | None \<Rightarrow> (let (a, sm) = new_csrf sm in (a, sess\<lparr>s_csrf := Some a\<rparr>, sm)))"

definition CSRFToken ::
    "(gostring, gostring) result \<Rightarrow> Session option \<Rightarrow> SessionManager \<Rightarrow> (gostring, gostring) result \<times> SessionManager" where
  "CSRFToken rand sess sm =
     (case sess of
        None \<Rightarrow> (Err ''auth: csrf: nil session'', sm)
      | Some sess \<Rightarrow>
          (case csrfState sess sm of
             (a, sess, sm) \<Rightarrow>
               if csrf_heap sm ! a \<noteq> [] then (Ok (csrf_heap sm ! a), sm)
               else (case rand of
                       Err e \<Rightarrow> (Err (''auth: csrf: generate token: '' @ e), sm)
                     | Ok b \<Rightarrow> (Ok (hex_EncodeToString b), sm\<lparr>csrf_heap := (csrf_heap sm)[a := hex_EncodeToString b]\<rparr>))))"

text \<open>The submitted form value is the argument. \<open>ConstantTimeCompare\<close> is equality.\<close>

definition ValidateCSRF :: "gostring \<Rightarrow> Session option \<Rightarrow> SessionManager \<Rightarrow> bool" where
  "ValidateCSRF formToken sess sm =
     (case sess of
        None \<Rightarrow> False
      | Some sess \<Rightarrow>
          (case csrfState sess sm of
             (a, sess, sm) \<Rightarrow>
               let token = csrf_heap sm ! a in
               if token = [] then False else if formToken = [] then False else formToken = token))"

section \<open>The guard of the admin routes\<close>

definition isAdminSessionPath :: "gostring \<Rightarrow> bool" where
  "isAdminSessionPath path \<longleftrightarrow> path = ''/admin'' \<or> HasPrefix path ''/admin/''"

definition redirectToAdminLogin :: "gostring option \<Rightarrow> SessionManager \<Rightarrow> SetCookie list \<times> SessionManager" where
  "redirectToAdminLogin cookie sm = Delete_session cookie sm"

text \<open>The middleware calls the next handler (\<open>True\<close>) or answers with the redirect to the login page.\<close>

definition RequireAdminSession ::
    "gotime \<Rightarrow> gostring \<Rightarrow> gostring option \<Rightarrow> SessionManager \<Rightarrow> bool \<times> SetCookie list \<times> SessionManager" where
  "RequireAdminSession now path cookie sm =
     (if \<not> isAdminSessionPath path then (True, [], sm)
      else if path = ''/admin/login'' then (True, [], sm)
      else case Get now cookie sm of
             (sess, sm) \<Rightarrow>
               if sess = None \<or> \<not> s_Admin (the sess)
               then (let (cookies, sm) = redirectToAdminLogin cookie sm in (False, cookies, sm))
               else (True, [], sm))"

section \<open>Runs and their history\<close>

text \<open>What happens to sessions, newest first, and the login it leaves alive for a cookie: when it happened and when it was last used.\<close>

datatype session_event =
    LoggedIn gostring gotime
  | LoggedInExclusively gostring gotime
  | GotForm gostring
  | Used gostring gotime
  | LoggedOut gostring
  | AllLoggedOut

fun live_login :: "session_event list \<Rightarrow> gostring \<Rightarrow> (gotime \<times> gotime) option" where
  "live_login [] c = None"
| "live_login (LoggedIn sid t # h) c = (if c = sid then Some (t, t) else live_login h c)"
| "live_login (LoggedInExclusively sid t # h) c = (if c = sid then Some (t, t) else None)"
| "live_login (GotForm sid # h) c = (if c = sid then None else live_login h c)"
| "live_login (Used sid t # h) c =
     (if c = sid then map_option (\<lambda>(created, used). (created, t)) (live_login h c) else live_login h c)"
| "live_login (LoggedOut sid # h) c = (if c = sid then None else live_login h c)"
| "live_login (AllLoggedOut # h) c = None"

text \<open>A login counts until it is too old or was left unused for too long.\<close>

fun counts :: "duration \<Rightarrow> duration \<Rightarrow> gotime \<Rightarrow> (gotime \<times> gotime) option \<Rightarrow> bool" where
  "counts age idle now None = False"
| "counts age idle now (Some (created, used)) = (now - created \<le> age \<and> now - used \<le> idle)"

record SessionRun =
  run_sm :: SessionManager
  run_clock :: gotime
  run_history :: "session_event list"

abbreviation moved :: "SessionRun \<Rightarrow> gotime \<Rightarrow> session_event list \<Rightarrow> SessionManager \<Rightarrow> SessionRun" where
  "moved w now events sm \<equiv> \<lparr>run_sm = sm, run_clock = now, run_history = events @ run_history w\<rparr>"

inductive session_step :: "SessionRun \<Rightarrow> SessionRun \<Rightarrow> bool" where
  login: "run_clock w \<le> now \<Longrightarrow> CreateAdmin rand now boot (run_sm w) = (Ok sess, cookies, sm) \<Longrightarrow>
    session_step w (moved w now [LoggedIn (s_ID sess) now] sm)"
| exclusive_login: "run_clock w \<le> now \<Longrightarrow> CreateExclusiveAdmin rand now (run_sm w) = (Ok sess, cookies, sm) \<Longrightarrow>
    session_step w (moved w now [LoggedInExclusively (s_ID sess) now] sm)"
| login_form: "run_clock w \<le> now \<Longrightarrow> CreatePreAuth rand now (run_sm w) = (Ok sess, cookies, sm) \<Longrightarrow>
    session_step w (moved w now [GotForm (s_ID sess)] sm)"
| reuse_form: "run_clock w \<le> now \<Longrightarrow> reusablePreAuthSession now cookie (run_sm w) = (r, sm) \<Longrightarrow>
    session_step w (moved w now [] sm)"
| got: "run_clock w \<le> now \<Longrightarrow> Get now (Some c) (run_sm w) = (Some sess, sm) \<Longrightarrow>
    session_step w (moved w now [Used c now] sm)"
| not_got: "run_clock w \<le> now \<Longrightarrow> Get now cookie (run_sm w) = (None, sm) \<Longrightarrow> session_step w (moved w now [] sm)"
| logout: "run_clock w \<le> now \<Longrightarrow> DeleteByID c (run_sm w) = (cookies, sm) \<Longrightarrow> session_step w (moved w now [LoggedOut c] sm)"
| logout_all: "run_clock w \<le> now \<Longrightarrow> DeleteAllAdminSessions (run_sm w) = (cookies, sm) \<Longrightarrow>
    session_step w (moved w now [AllLoggedOut] sm)"
| clean_up: "run_clock w \<le> now \<Longrightarrow> session_step w (moved w now [] (cleanupExpiredSessions now (run_sm w)))"
| set_flash: "session_step w (moved w (run_clock w) [] (SetFlash sid key val (run_sm w)))"
| get_flash: "session_step w (moved w (run_clock w) [] (snd (GetFlash sid key (run_sm w))))"
| token: "s_csrf sess = Some a \<Longrightarrow> a < length (csrf_heap (run_sm w)) \<Longrightarrow>
    session_step w (moved w (run_clock w) [] (snd (CSRFToken rand (Some sess) (run_sm w))))"

definition session_start :: "duration \<Rightarrow> duration \<Rightarrow> bool \<Rightarrow> SessionRun" where
  "session_start age idle sec = \<lparr>run_sm = NewSessionManagerWithIdleTimeout age idle sec, run_clock = 1, run_history = []\<rparr>"

section \<open>The manager decides as the history does\<close>

definition lookup_session :: "SessionManager \<Rightarrow> gostring \<Rightarrow> Session option" where
  "lookup_session sm c = map_of (sessions sm) c"

definition login_of :: "Session \<Rightarrow> (gotime \<times> gotime) option" where
  "login_of s = (if s_Admin s then Some (s_CreatedAt s, s_LastAccessed s) else None)"

definition session_wf :: "SessionManager \<Rightarrow> gotime \<Rightarrow> gostring \<Rightarrow> Session \<Rightarrow> bool" where
  "session_wf sm clock c s \<longleftrightarrow>
     s_ID s = c \<and> s_CreatedAt s \<le> clock \<and> 0 < s_expiresAt s \<and>
     (s_Admin s \<longrightarrow> s_expiresAt s = s_CreatedAt s + maxAge sm) \<and>
     (\<exists>a < length (csrf_heap sm). s_csrf s = Some a)"

definition manager_ok :: "SessionManager \<Rightarrow> gotime \<Rightarrow> bool" where
  "manager_ok sm clock \<longleftrightarrow>
     0 < maxAge sm \<and> 0 < idleTimeout sm \<and> 0 < clock \<and> distinct (map fst (sessions sm)) \<and>
     (\<forall>c s. lookup_session sm c = Some s \<longrightarrow> session_wf sm clock c s) \<and>
     (\<forall>c s c' s'. lookup_session sm c = Some s \<longrightarrow> lookup_session sm c' = Some s' \<longrightarrow> s_csrf s = s_csrf s' \<longrightarrow> c = c')"

definition agrees :: "SessionManager \<Rightarrow> gotime \<Rightarrow> session_event list \<Rightarrow> bool" where
  "agrees sm clock h \<longleftrightarrow>
     (\<forall>c. case lookup_session sm c of
            None \<Rightarrow> \<not> counts (maxAge sm) (idleTimeout sm) clock (live_login h c)
          | Some s \<Rightarrow> live_login h c = login_of s)"

lemma map_of_filter_val:
  "distinct (map fst xs) \<Longrightarrow> map_of (filter (\<lambda>(k, v). Q v) xs) c =
     (case map_of xs c of None \<Rightarrow> None | Some v \<Rightarrow> if Q v then Some v else None)"
  by (induction xs) (auto split: option.splits simp: map_of_eq_None_iff)

lemma lookup_simps [simp]:
  "lookup_session (sm\<lparr>sessions := AList.update c s (sessions sm)\<rparr>) c' = (if c' = c then Some s else lookup_session sm c')"
  "lookup_session (sm\<lparr>sessions := AList.delete c (sessions sm)\<rparr>) c' = (if c' = c then None else lookup_session sm c')"
  "lookup_session (sm\<lparr>csrf_heap := heap\<rparr>) c' = lookup_session sm c'"
  by (auto simp: lookup_session_def update_conv' delete_conv')

lemma lookup_filter:
  "distinct (map fst (sessions sm)) \<Longrightarrow> lookup_session (sm\<lparr>sessions := filter (\<lambda>(k, v). Q v) (sessions sm)\<rparr>) c =
     (case lookup_session sm c of None \<Rightarrow> None | Some v \<Rightarrow> if Q v then Some v else None)"
  by (simp add: lookup_session_def map_of_filter_val)

text \<open>Time only makes logins lapse.\<close>

lemma counts_mono: "clock \<le> now \<Longrightarrow> counts age idle now l \<Longrightarrow> counts age idle clock l"
  by (cases l) auto

lemma agreesD:
  assumes "agrees sm clock h"
  shows "lookup_session sm c = None \<Longrightarrow> \<not> counts (maxAge sm) (idleTimeout sm) clock (live_login h c)"
    and "lookup_session sm c = Some s \<Longrightarrow> live_login h c = login_of s"
  using assms [unfolded agrees_def, rule_format, of c] by simp_all

lemma agrees_later: "agrees sm clock h \<Longrightarrow> clock \<le> now \<Longrightarrow> agrees sm now h"
  unfolding agrees_def using counts_mono by (metis (no_types, lifting) option.case_eq_if)

text \<open>A change agrees if it does so at every cookie it touches.\<close>

lemma agrees_change:
  assumes "agrees sm clock h" and "maxAge sm' = maxAge sm" "idleTimeout sm' = idleTimeout sm"
    and "\<And>c. lookup_session sm' c = lookup_session sm c \<and> live_login h' c = live_login h c \<or>
      (\<exists>s. lookup_session sm' c = Some s \<and> live_login h' c = login_of s) \<or>
      lookup_session sm' c = None \<and> \<not> counts (maxAge sm) (idleTimeout sm) clock (live_login h' c)"
  shows "agrees sm' clock h'"
  unfolding agrees_def assms(2,3)
proof (intro allI)
  fix c
  show "case lookup_session sm' c of None \<Rightarrow> \<not> counts (maxAge sm) (idleTimeout sm) clock (live_login h' c)
    | Some s \<Rightarrow> live_login h' c = login_of s"
    using assms(4) [of c] agreesD [OF assms(1), of c] by (auto split: option.split)
qed

lemma manager_later: "manager_ok sm clock \<Longrightarrow> clock \<le> now \<Longrightarrow> manager_ok sm now"
  by (fastforce simp: manager_ok_def session_wf_def)

lemma managerD:
  assumes "manager_ok sm clock"
  shows "0 < maxAge sm" "0 < idleTimeout sm" "0 < clock" "distinct (map fst (sessions sm))"
    and "lookup_session sm c = Some s \<Longrightarrow> session_wf sm clock c s"
    and "lookup_session sm c = Some s \<Longrightarrow> lookup_session sm c' = Some s' \<Longrightarrow> s_csrf s = s_csrf s' \<Longrightarrow> c = c'"
  using assms unfolding manager_ok_def by blast+

lemma managerI:
  assumes "0 < maxAge sm" "0 < idleTimeout sm" "0 < clock" "distinct (map fst (sessions sm))"
    and "\<And>c s. lookup_session sm c = Some s \<Longrightarrow> session_wf sm clock c s"
    and "\<And>c s c' s'. lookup_session sm c = Some s \<Longrightarrow> lookup_session sm c' = Some s' \<Longrightarrow> s_csrf s = s_csrf s' \<Longrightarrow> c = c'"
  shows "manager_ok sm clock"
  using assms unfolding manager_ok_def by blast

lemma manager_csrf:
  assumes "manager_ok sm clock" and "lookup_session sm c = Some s"
  shows "\<exists>a < length (csrf_heap sm). s_csrf s = Some a"
  using managerD(5) [OF assms] by (simp add: session_wf_def)

text \<open>Keeping some of the sessions, as deletion and eviction do.\<close>

lemma manager_shrink:
  assumes "manager_ok sm clock" and "distinct (map fst kept)"
    and "\<And>c s. lookup_session (sm\<lparr>sessions := kept\<rparr>) c = Some s \<Longrightarrow> lookup_session sm c = Some s"
  shows "manager_ok (sm\<lparr>sessions := kept\<rparr>) clock"
proof -
  have "session_wf (sm\<lparr>sessions := kept\<rparr>) clock c s" if "lookup_session (sm\<lparr>sessions := kept\<rparr>) c = Some s" for c s
    using assms(1) assms(3) [OF that] unfolding manager_ok_def session_wf_def by simp
  moreover have "c = c'" if "lookup_session (sm\<lparr>sessions := kept\<rparr>) c = Some s"
      "lookup_session (sm\<lparr>sessions := kept\<rparr>) c' = Some s'" "s_csrf s = s_csrf s'" for c s c' s'
    using assms(1) assms(3) [OF that(1)] assms(3) [OF that(2)] that(3) unfolding manager_ok_def by blast
  ultimately show ?thesis using assms(1,2) unfolding manager_ok_def by simp
qed

lemma manager_drop:
  assumes "manager_ok sm clock"
  shows "manager_ok (sm\<lparr>sessions := AList.delete c (sessions sm)\<rparr>) clock"
  by (rule manager_shrink [OF assms]) (use assms in \<open>auto simp: manager_ok_def distinct_delete split: if_splits\<close>)

lemma manager_filter:
  assumes "manager_ok sm clock"
  shows "manager_ok (sm\<lparr>sessions := filter (\<lambda>(k, v). Q v) (sessions sm)\<rparr>) clock"
proof (rule manager_shrink [OF assms])
  have keys: "distinct (map fst (sessions sm))" using assms by (simp add: manager_ok_def)
  then show "distinct (map fst (filter (\<lambda>(k, v). Q v) (sessions sm)))" by (rule distinct_map_filter)
  show "lookup_session (sm\<lparr>sessions := filter (\<lambda>(k, v). Q v) (sessions sm)\<rparr>) c = Some s \<Longrightarrow> lookup_session sm c = Some s" for c s
    by (auto simp: lookup_filter [OF keys] split: option.splits if_splits)
qed

text \<open>Storing a session whose CSRF state no other session has.\<close>

lemma manager_put:
  assumes "manager_ok sm clock" and "session_wf sm clock c s"
    and "\<And>c' s'. c' \<noteq> c \<Longrightarrow> lookup_session sm c' = Some s' \<Longrightarrow> s_csrf s' \<noteq> s_csrf s"
  shows "manager_ok (sm\<lparr>sessions := AList.update c s (sessions sm)\<rparr>) clock"
proof (rule managerI)
  fix c1 s1 c2 s2
  assume stored: "lookup_session (sm\<lparr>sessions := AList.update c s (sessions sm)\<rparr>) c1 = Some s1"
    "lookup_session (sm\<lparr>sessions := AList.update c s (sessions sm)\<rparr>) c2 = Some s2" and same: "s_csrf s1 = s_csrf s2"
  show "c1 = c2"
  proof (cases "c1 = c \<or> c2 = c")
    case True
    then show ?thesis using stored same assms(3) [of c1 s1] assms(3) [of c2 s2] by (auto split: if_splits)
  next
    case False
    then show ?thesis using stored same managerD(6) [OF assms(1)] by simp
  qed
next
  fix c' s' assume "lookup_session (sm\<lparr>sessions := AList.update c s (sessions sm)\<rparr>) c' = Some s'"
  then show "session_wf (sm\<lparr>sessions := AList.update c s (sessions sm)\<rparr>) clock c' s'"
    using assms(2) managerD(5) [OF assms(1), of c' s'] by (simp add: session_wf_def split: if_splits)
qed (use managerD(1-4) [OF assms(1)] in \<open>simp_all add: distinct_update\<close>)

lemma manager_heap:
  assumes "manager_ok sm clock" and "length (csrf_heap sm) \<le> length heap"
  shows "manager_ok (sm\<lparr>csrf_heap := heap\<rparr>) clock"
proof (rule managerI)
  fix c s assume "lookup_session (sm\<lparr>csrf_heap := heap\<rparr>) c = Some s"
  then have "session_wf sm clock c s" using managerD(5) [OF assms(1)] by simp
  then show "session_wf (sm\<lparr>csrf_heap := heap\<rparr>) clock c s"
    using assms(2) by (auto simp: session_wf_def)
next
  fix c s c' s'
  assume "lookup_session (sm\<lparr>csrf_heap := heap\<rparr>) c = Some s" "lookup_session (sm\<lparr>csrf_heap := heap\<rparr>) c' = Some s'"
    "s_csrf s = s_csrf s'"
  then show "c = c'" using managerD(6) [OF assms(1)] by simp
qed (use managerD(1-4) [OF assms(1)] in simp_all)

section \<open>Every operation keeps the invariant\<close>

definition sessions_ok :: "SessionRun \<Rightarrow> bool" where
  "sessions_ok w \<longleftrightarrow> manager_ok (run_sm w) (run_clock w) \<and> agrees (run_sm w) (run_clock w) (run_history w)"

text \<open>A new session, admin or not, after the admin sessions were dropped or not.\<close>

lemma manager_new:
  assumes "manager_ok sm now" and "0 < ttl" and "adm \<Longrightarrow> ttl = maxAge sm"
  shows "manager_ok (sm\<lparr>csrf_heap := csrf_heap sm @ [[]],
    sessions := AList.update sid \<lparr>s_ID = sid, s_Admin = adm, s_AuthenticatedWithBootstrap = boot, s_CreatedAt = now,
      s_LastAccessed = now, s_expiresAt = now + ttl, s_csrf = Some (length (csrf_heap sm)), s_flash = []\<rparr> (sessions sm)\<rparr>) now"
proof -
  let ?sm = "sm\<lparr>csrf_heap := csrf_heap sm @ [[]]\<rparr>"
  let ?s = "\<lparr>s_ID = sid, s_Admin = adm, s_AuthenticatedWithBootstrap = boot, s_CreatedAt = now,
      s_LastAccessed = now, s_expiresAt = now + ttl, s_csrf = Some (length (csrf_heap sm)), s_flash = []\<rparr>"
  have "manager_ok ?sm now" by (rule manager_heap [OF assms(1)]) simp
  moreover have "session_wf ?sm now sid ?s" using assms by (simp add: session_wf_def manager_ok_def)
  moreover have "s_csrf s' \<noteq> s_csrf ?s" if "lookup_session ?sm c' = Some s'" for c' s'
    using manager_csrf [OF assms(1), of c'] that by fastforce
  ultimately show ?thesis using manager_put [of ?sm now sid ?s] by simp
qed

lemma createAdmin_Ok:
  assumes "createAdmin rand now boot exclusive sm = (Ok sess, cookies, sm')"
  obtains sid where "sess = \<lparr>s_ID = sid, s_Admin = True, s_AuthenticatedWithBootstrap = boot, s_CreatedAt = now,
      s_LastAccessed = now, s_expiresAt = now + maxAge sm, s_csrf = Some (length (csrf_heap sm)), s_flash = []\<rparr>"
    and "cookies = [setAdminCookie sm sid]"
    and "sm' = sm\<lparr>csrf_heap := csrf_heap sm @ [[]], sessions := AList.update sid sess
      (if exclusive then filter (\<lambda>(sessionID, sess). \<not> s_Admin sess) (sessions sm) else sessions sm)\<rparr>"
  using assms
  by (auto simp: createAdmin_def new_csrf_def cloneSession_def deleteAdminSessionsLocked_def setAdminCookie_def Let_def
      split: sum.splits if_splits)

lemma CreatePreAuth_Ok:
  assumes "CreatePreAuth rand now sm = (Ok sess, cookies, sm')"
  obtains sid where "sess = \<lparr>s_ID = sid, s_Admin = False, s_AuthenticatedWithBootstrap = False, s_CreatedAt = now,
      s_LastAccessed = now, s_expiresAt = now + min (maxAge sm) preAuthSessionTTL, s_csrf = Some (length (csrf_heap sm)), s_flash = []\<rparr>"
    and "sm' = sm\<lparr>csrf_heap := csrf_heap sm @ [[]], sessions := AList.update sid sess (sessions sm)\<rparr>"
  using assms
  by (auto simp: CreatePreAuth_def new_csrf_def cloneSession_def Let_def split: sum.splits)

lemma createAdmin_ok:
  assumes "manager_ok sm clock" and "agrees sm clock h" and "clock \<le> now"
    and "createAdmin rand now boot exclusive sm = (Ok sess, cookies, sm')"
  shows "manager_ok sm' now"
    and "agrees sm' now ((if exclusive then LoggedInExclusively (s_ID sess) now else LoggedIn (s_ID sess) now) # h)"
proof -
  define kept where "kept = (if exclusive then filter (\<lambda>(sessionID, sess). \<not> s_Admin sess) (sessions sm) else sessions sm)"
  obtain sid where sess: "sess = \<lparr>s_ID = sid, s_Admin = True, s_AuthenticatedWithBootstrap = boot, s_CreatedAt = now,
      s_LastAccessed = now, s_expiresAt = now + maxAge sm, s_csrf = Some (length (csrf_heap sm)), s_flash = []\<rparr>"
    and sm': "sm' = sm\<lparr>csrf_heap := csrf_heap sm @ [[]], sessions := AList.update sid sess kept\<rparr>"
    using createAdmin_Ok [OF assms(4)] unfolding kept_def .
  have now: "manager_ok sm now" using assms(1,3) by (rule manager_later)
  note keys = managerD(4) [OF now]
  let ?sm = "sm\<lparr>sessions := kept\<rparr>"
  have kept: "manager_ok ?sm now"
    using manager_filter [OF now, of "\<lambda>s. \<not> s_Admin s"] now by (cases exclusive) (simp_all add: kept_def)
  have eq: "sm' = ?sm\<lparr>csrf_heap := csrf_heap ?sm @ [[]], sessions := AList.update sid \<lparr>s_ID = sid, s_Admin = True,
      s_AuthenticatedWithBootstrap = boot, s_CreatedAt = now, s_LastAccessed = now, s_expiresAt = now + maxAge sm,
      s_csrf = Some (length (csrf_heap ?sm)), s_flash = []\<rparr> (sessions ?sm)\<rparr>"
    unfolding sm' sess by simp
  show "manager_ok sm' now"
    unfolding eq by (rule manager_new [OF kept]) (use managerD(1) [OF now] in simp_all)
  have looked: "lookup_session sm' c = (if c = sid then Some sess else
      case lookup_session sm c of None \<Rightarrow> None | Some s \<Rightarrow> if exclusive \<and> s_Admin s then None else Some s)" for c
    using map_of_filter_val [OF keys, of "\<lambda>s. \<not> s_Admin s" c]
    by (cases exclusive) (simp_all add: sm' lookup_session_def update_conv' kept_def split: option.split)
  have fields: "maxAge sm' = maxAge sm" "idleTimeout sm' = idleTimeout sm" "s_ID sess = sid" by (simp_all add: sm' sess)
  show "agrees sm' now ((if exclusive then LoggedInExclusively (s_ID sess) now else LoggedIn (s_ID sess) now) # h)"
    by (rule agrees_change [OF agrees_later [OF assms(2,3)] fields(1,2)])
      (auto simp: looked sess login_of_def split: option.split)
qed

lemma CreatePreAuth_ok:
  assumes "manager_ok sm clock" and "agrees sm clock h" and "clock \<le> now" and "CreatePreAuth rand now sm = (Ok sess, cookies, sm')"
  shows "manager_ok sm' now" and "agrees sm' now (GotForm (s_ID sess) # h)"
proof -
  obtain sid where sess: "sess = \<lparr>s_ID = sid, s_Admin = False, s_AuthenticatedWithBootstrap = False, s_CreatedAt = now,
      s_LastAccessed = now, s_expiresAt = now + min (maxAge sm) preAuthSessionTTL, s_csrf = Some (length (csrf_heap sm)), s_flash = []\<rparr>"
    and sm': "sm' = sm\<lparr>csrf_heap := csrf_heap sm @ [[]], sessions := AList.update sid sess (sessions sm)\<rparr>"
    using CreatePreAuth_Ok [OF assms(4)] .
  have now: "manager_ok sm now" using assms(1,3) by (rule manager_later)
  show "manager_ok sm' now"
    unfolding sm' sess by (rule manager_new [OF now]) (use managerD(1) [OF now] in \<open>simp_all add: preAuthSessionTTL_def\<close>)
  have looked: "lookup_session sm' c = (if c = sid then Some sess else lookup_session sm c)" for c
    by (simp add: sm' lookup_session_def update_conv')
  have fields: "maxAge sm' = maxAge sm" "idleTimeout sm' = idleTimeout sm" by (simp_all add: sm')
  show "agrees sm' now (GotForm (s_ID sess) # h)"
    by (rule agrees_change [OF agrees_later [OF assms(2,3)] fields]) (auto simp: looked sess login_of_def)
qed

text \<open>Writing a session back with another access time or other flash values.\<close>

lemma manager_touch:
  assumes "manager_ok sm clock" and "lookup_session sm c = Some s"
    and "s_ID s' = s_ID s" "s_Admin s' = s_Admin s" "s_CreatedAt s' = s_CreatedAt s" "s_expiresAt s' = s_expiresAt s" "s_csrf s' = s_csrf s"
  shows "manager_ok (sm\<lparr>sessions := AList.update c s' (sessions sm)\<rparr>) clock"
proof (rule manager_put [OF assms(1)])
  show "session_wf sm clock c s'" using managerD(5) [OF assms(1,2)] assms(3-7) by (simp add: session_wf_def)
  show "s_csrf t \<noteq> s_csrf s'" if "d \<noteq> c" "lookup_session sm d = Some t" for d t
    using managerD(6) [OF assms(1) that(2) assms(2)] that(1) assms(7) by auto
qed

lemma agrees_touch:
  assumes "agrees sm clock h" and "lookup_session sm c = Some s" and "login_of s' = login_of s"
  shows "agrees (sm\<lparr>sessions := AList.update c s' (sessions sm)\<rparr>) clock h"
  by (rule agrees_change [OF assms(1)]) (use assms(3) agreesD(2) [OF assms(1,2)] in auto)

text \<open>Sessions that leave silently are lapsed ones.\<close>

lemma expired_lapsed:
  assumes "manager_ok sm clock" and "lookup_session sm c = Some s" and "session_expired now sm s"
  shows "\<not> counts (maxAge sm) (idleTimeout sm) now (login_of s)"
  using assms(3) managerD(5) [OF assms(1,2)] by (auto simp: session_expired_def session_wf_def login_of_def)

lemma fresh_counts:
  assumes "manager_ok sm clock" and "lookup_session sm c = Some s" and "\<not> session_expired now sm s" and "s_Admin s"
  shows "counts (maxAge sm) (idleTimeout sm) now (login_of s)"
  using assms(3,4) managerD(5) [OF assms(1,2)] managerD(2) [OF assms(1)]
  by (auto simp: session_expired_def session_wf_def login_of_def)

lemma agrees_drop:
  assumes "agrees sm clock h" and "\<And>s. lookup_session sm c = Some s \<Longrightarrow> \<not> counts (maxAge sm) (idleTimeout sm) clock (login_of s)"
  shows "agrees (sm\<lparr>sessions := AList.delete c (sessions sm)\<rparr>) clock h"
proof -
  have "\<not> counts (maxAge sm) (idleTimeout sm) clock (live_login h c)"
    using assms(2) agreesD [OF assms(1), of c] by (cases "lookup_session sm c") auto
  then show ?thesis by (intro agrees_change [OF assms(1)]) auto
qed

lemma clone_id: "s_csrf s = Some a \<Longrightarrow> cloneSession s sm = (s, sm)"
  by (simp add: cloneSession_def)

lemma Get_cases:
  assumes "manager_ok sm clock"
  obtains (missing) "Get now cookie sm = (None, sm)" "\<And>c. cookie = Some c \<Longrightarrow> lookup_session sm c = None"
  | (lapsed) c s where "cookie = Some c" "lookup_session sm c = Some s" "session_expired now sm s"
      "Get now cookie sm = (None, sm\<lparr>sessions := AList.delete c (sessions sm)\<rparr>)"
  | (found) c s where "cookie = Some c" "lookup_session sm c = Some s" "\<not> session_expired now sm s"
      "Get now cookie sm = (Some (s\<lparr>s_LastAccessed := now\<rparr>),
        sm\<lparr>sessions := AList.update c (s\<lparr>s_LastAccessed := now\<rparr>) (sessions sm)\<rparr>)"
proof (cases "\<exists>c s. cookie = Some c \<and> lookup_session sm c = Some s")
  case False
  then show thesis
    by (intro missing) (auto simp: Get_def lookup_session_def split: option.splits)
next
  case True
  then obtain c s where cs: "cookie = Some c" "lookup_session sm c = Some s" by blast
  obtain a where "s_csrf s = Some a" using manager_csrf [OF assms cs(2)] by blast
  then have "s_csrf (s\<lparr>s_LastAccessed := now\<rparr>) = Some a" by simp
  note clone = clone_id [OF this]
  show thesis
  proof (cases "session_expired now sm s")
    case True
    then show thesis using cs by (intro lapsed) (auto simp: Get_def lookup_session_def)
  next
    case False
    then show thesis using cs clone by (intro found) (auto simp: Get_def lookup_session_def Let_def)
  qed
qed

lemma Get_ok:
  assumes "manager_ok sm clock" and "agrees sm clock h" and "clock \<le> now" and "Get now cookie sm = (r, sm')"
  shows "manager_ok sm' now" and "agrees sm' now (case (cookie, r) of (Some c, Some sess) \<Rightarrow> Used c now # h | _ \<Rightarrow> h)"
proof -
  note later = manager_later [OF assms(1,3)] agrees_later [OF assms(2,3)]
  have "manager_ok sm' now \<and> agrees sm' now (case (cookie, r) of (Some c, Some sess) \<Rightarrow> Used c now # h | _ \<Rightarrow> h)"
    using assms(1)
  proof (cases rule: Get_cases [of sm clock now cookie])
    case missing
    then show ?thesis using assms(4) later by (auto split: option.split)
  next
    case (lapsed c s)
    then have r: "r = None" "sm' = sm\<lparr>sessions := AList.delete c (sessions sm)\<rparr>" using assms(4) by auto
    have "agrees sm' now h"
      unfolding r by (rule agrees_drop [OF later(2)]) (use lapsed expired_lapsed [OF assms(1)] in auto)
    then show ?thesis using manager_drop [OF later(1)] by (simp add: r split: option.split)
  next
    case (found c s)
    let ?s = "s\<lparr>s_LastAccessed := now\<rparr>"
    from found have r: "r = Some ?s" "sm' = sm\<lparr>sessions := AList.update c ?s (sessions sm)\<rparr>" using assms(4) by auto
    have "manager_ok sm' now" unfolding r by (rule manager_touch [OF later(1) found(2)]) simp_all
    moreover have "agrees sm' now (Used c now # h)"
      unfolding r
      by (rule agrees_change [OF later(2)]) (use agreesD(2) [OF later(2) found(2)] in \<open>auto simp: login_of_def\<close>)
    ultimately show ?thesis by (simp add: r(1) found(1))
  qed
  then show "manager_ok sm' now" "agrees sm' now (case (cookie, r) of (Some c, Some sess) \<Rightarrow> Used c now # h | _ \<Rightarrow> h)" by blast+
qed

lemma reuse_ok:
  assumes "manager_ok sm clock" and "agrees sm clock h" and "clock \<le> now" and "reusablePreAuthSession now cookie sm = (r, sm')"
  shows "manager_ok sm' now" and "agrees sm' now h"
proof -
  note later = manager_later [OF assms(1,3)] agrees_later [OF assms(2,3)]
  have same: "sm' = sm \<or> (\<exists>c s. lookup_session sm c = Some s \<and> \<not> s_Admin s \<and>
    (sm' = sm\<lparr>sessions := AList.delete c (sessions sm)\<rparr> \<or>
     sm' = sm\<lparr>sessions := AList.update c (s\<lparr>s_LastAccessed := now\<rparr>) (sessions sm)\<rparr>))"
  proof (cases "map_of (sessions sm) (the cookie)")
    case (Some s)
    then have looked: "lookup_session sm (the cookie) = Some s" by (simp add: lookup_session_def)
    then obtain a where "s_csrf s = Some a" using manager_csrf [OF assms(1)] by blast
    then have "cloneSession (s\<lparr>s_LastAccessed := now\<rparr>) m = (s\<lparr>s_LastAccessed := now\<rparr>, m)" for m by (simp add: clone_id)
    with Some looked show ?thesis using assms(4)
      by (auto simp: reusablePreAuthSession_def Let_def split: if_splits)
  qed (use assms(4) in \<open>auto simp: reusablePreAuthSession_def Let_def split: if_splits\<close>)
  have drop: "agrees (sm\<lparr>sessions := AList.delete c (sessions sm)\<rparr>) now h" if "lookup_session sm c = Some s" "\<not> s_Admin s" for c s
    by (rule agrees_drop [OF later(2)]) (use that in \<open>simp add: login_of_def\<close>)
  have touch: "agrees (sm\<lparr>sessions := AList.update c (s\<lparr>s_LastAccessed := now\<rparr>) (sessions sm)\<rparr>) now h"
    if "lookup_session sm c = Some s" "\<not> s_Admin s" for c s
    by (rule agrees_touch [OF later(2) that(1)]) (use that in \<open>simp add: login_of_def\<close>)
  show "manager_ok sm' now" using same later(1) by (auto intro: manager_drop manager_touch)
  show "agrees sm' now h" using same later(2) drop touch by auto
qed

lemma filtered_ok:
  assumes "manager_ok sm now" and "agrees sm now h"
    and "\<And>c s. lookup_session sm c = Some s \<Longrightarrow> Q s \<Longrightarrow> live_login h' c = live_login h c"
    and "\<And>c. (\<And>s. lookup_session sm c = Some s \<Longrightarrow> \<not> Q s) \<Longrightarrow> \<not> counts (maxAge sm) (idleTimeout sm) now (live_login h' c)"
  shows "agrees (sm\<lparr>sessions := filter (\<lambda>(k, v). Q v) (sessions sm)\<rparr>) now h'"
proof (rule agrees_change [OF assms(2)])
  fix c
  note looked = lookup_filter [OF managerD(4) [OF assms(1)], of Q c]
  show "lookup_session (sm\<lparr>sessions := filter (\<lambda>(k, v). Q v) (sessions sm)\<rparr>) c = lookup_session sm c \<and> live_login h' c = live_login h c \<or>
    (\<exists>s. lookup_session (sm\<lparr>sessions := filter (\<lambda>(k, v). Q v) (sessions sm)\<rparr>) c = Some s \<and> live_login h' c = login_of s) \<or>
    lookup_session (sm\<lparr>sessions := filter (\<lambda>(k, v). Q v) (sessions sm)\<rparr>) c = None \<and>
      \<not> counts (maxAge sm) (idleTimeout sm) now (live_login h' c)"
    unfolding looked using assms(3) [of c] assms(4) [of c] by (cases "lookup_session sm c") auto
qed simp_all

lemma flash_ok:
  assumes "manager_ok sm clock" and "agrees sm clock h"
  shows "manager_ok (SetFlash sid key val sm) clock" "agrees (SetFlash sid key val sm) clock h"
    and "manager_ok (snd (GetFlash sid key sm)) clock" "agrees (snd (GetFlash sid key sm)) clock h"
proof -
  have touch: "manager_ok (sm\<lparr>sessions := AList.update sid (s\<lparr>s_flash := f\<rparr>) (sessions sm)\<rparr>) clock \<and>
      agrees (sm\<lparr>sessions := AList.update sid (s\<lparr>s_flash := f\<rparr>) (sessions sm)\<rparr>) clock h"
    if "map_of (sessions sm) sid = Some s" for s f
    using manager_touch [OF assms(1), of sid s "s\<lparr>s_flash := f\<rparr>"] agrees_touch [OF assms(2), of sid s "s\<lparr>s_flash := f\<rparr>"] that
    by (simp add: lookup_session_def login_of_def)
  show "manager_ok (SetFlash sid key val sm) clock" "agrees (SetFlash sid key val sm) clock h"
    using assms touch by (auto simp: SetFlash_def split: option.split)
  show "manager_ok (snd (GetFlash sid key sm)) clock" "agrees (snd (GetFlash sid key sm)) clock h"
    using assms touch by (auto simp: GetFlash_def split: option.split)
qed

definition token_written :: "(gostring, gostring) result \<Rightarrow> nat \<Rightarrow> gostring list \<Rightarrow> gostring list" where
  "token_written rand a heap =
     (if heap ! a \<noteq> [] then heap else case rand of Err e \<Rightarrow> heap | Ok b \<Rightarrow> heap[a := hex_EncodeToString b])"

lemma CSRFToken_heap:
  "s_csrf sess = Some a \<Longrightarrow>
   snd (CSRFToken rand (Some sess) sm) = sm\<lparr>csrf_heap := token_written rand a (csrf_heap sm)\<rparr>"
  by (simp add: CSRFToken_def csrfState_def token_written_def split: sum.split)

lemma length_token_written [simp]: "length (token_written rand a heap) = length heap"
  by (simp add: token_written_def split: sum.split)

lemma agrees_heap: "agrees (sm\<lparr>csrf_heap := heap\<rparr>) clock h = agrees sm clock h"
  by (simp add: agrees_def cong: option.case_cong)

lemma session_step_ok: "session_step w w' \<Longrightarrow> sessions_ok w \<Longrightarrow> sessions_ok w'"
proof (induction rule: session_step.induct)
  case (login w now rand boot sess cookies sm)
  then show ?case using createAdmin_ok [of "run_sm w" "run_clock w" "run_history w" now rand boot False sess cookies sm]
    by (simp add: sessions_ok_def CreateAdmin_def)
next
  case (exclusive_login w now rand sess cookies sm)
  then show ?case using createAdmin_ok [of "run_sm w" "run_clock w" "run_history w" now rand False True sess cookies sm]
    by (simp add: sessions_ok_def CreateExclusiveAdmin_def)
next
  case (login_form w now rand sess cookies sm)
  then show ?case using CreatePreAuth_ok [of "run_sm w" "run_clock w" "run_history w" now rand sess cookies sm]
    by (simp add: sessions_ok_def)
next
  case (reuse_form w now cookie r sm)
  then show ?case using reuse_ok [of "run_sm w" "run_clock w" "run_history w" now cookie r sm]
    by (simp add: sessions_ok_def)
next
  case (got w now c sess sm)
  then show ?case using Get_ok [of "run_sm w" "run_clock w" "run_history w" now "Some c" "Some sess" sm]
    by (simp add: sessions_ok_def)
next
  case (not_got w now cookie sm)
  then show ?case using Get_ok [of "run_sm w" "run_clock w" "run_history w" now cookie None sm]
    by (simp add: sessions_ok_def split: option.splits)
next
  case (logout w now c cookies sm)
  then have sm: "sm = (run_sm w)\<lparr>sessions := AList.delete c (sessions (run_sm w))\<rparr>" by (simp add: DeleteByID_def)
  have ok: "manager_ok (run_sm w) now" "agrees (run_sm w) now (run_history w)"
    using logout manager_later agrees_later by (auto simp: sessions_ok_def)
  have "agrees sm now (LoggedOut c # run_history w)"
    unfolding sm by (rule agrees_change [OF ok(2)]) auto
  then show ?case using manager_drop [OF ok(1)] by (simp add: sessions_ok_def sm)
next
  case (logout_all w now cookies sm)
  then have sm: "sm = (run_sm w)\<lparr>sessions := filter (\<lambda>(k, v). \<not> s_Admin v) (sessions (run_sm w))\<rparr>"
    by (simp add: DeleteAllAdminSessions_def deleteAdminSessionsLocked_def)
  have ok: "manager_ok (run_sm w) now" "agrees (run_sm w) now (run_history w)"
    using logout_all manager_later agrees_later by (auto simp: sessions_ok_def)
  have "agrees sm now (AllLoggedOut # run_history w)"
    unfolding sm by (rule filtered_ok [OF ok]) (use agreesD(2) [OF ok(2)] in \<open>auto simp: login_of_def\<close>)
  then show ?case using manager_filter [OF ok(1)] by (simp add: sessions_ok_def sm)
next
  case (clean_up w now)
  have ok: "manager_ok (run_sm w) now" "agrees (run_sm w) now (run_history w)"
    using clean_up manager_later agrees_later by (auto simp: sessions_ok_def)
  have "agrees (cleanupExpiredSessions now (run_sm w)) now (run_history w)"
    unfolding cleanupExpiredSessions_def
  proof (rule filtered_ok [OF ok])
    fix c assume gone: "\<And>s. lookup_session (run_sm w) c = Some s \<Longrightarrow> \<not> \<not> session_expired now (run_sm w) s"
    show "\<not> counts (maxAge (run_sm w)) (idleTimeout (run_sm w)) now (live_login (run_history w) c)"
      using agreesD [OF ok(2), of c] gone expired_lapsed [OF ok(1), of c] by (cases "lookup_session (run_sm w) c") auto
  qed simp
  then show ?case using manager_filter [OF ok(1)] by (simp add: sessions_ok_def cleanupExpiredSessions_def)
next
  case (set_flash w sid key val)
  then show ?case using flash_ok(1,2) [of "run_sm w" "run_clock w" "run_history w"] by (simp add: sessions_ok_def)
next
  case (get_flash w sid key)
  then show ?case using flash_ok(3,4) [of "run_sm w" "run_clock w" "run_history w"] by (simp add: sessions_ok_def)
next
  case (token sess a w rand)
  then show ?case using manager_heap [of "run_sm w" "run_clock w" "token_written rand a (csrf_heap (run_sm w))"]
    by (simp add: sessions_ok_def agrees_heap CSRFToken_heap)
qed

lemma session_start_ok: "sessions_ok (session_start age idle sec)"
proof -
  have "manager_ok (NewSessionManagerWithIdleTimeout age idle sec) 1"
    by (rule managerI) (simp_all add: NewSessionManagerWithIdleTimeout_def DefaultAdminIdleTimeout_def lookup_session_def)
  then show ?thesis
    by (simp add: sessions_ok_def session_start_def agrees_def lookup_session_def NewSessionManagerWithIdleTimeout_def)
qed

lemma session_steps_ok: "session_step\<^sup>*\<^sup>* w w' \<Longrightarrow> sessions_ok w \<Longrightarrow> sessions_ok w'"
  by (induction rule: rtranclp_induct) (auto intro: session_step_ok)

lemma Get_admin_iff:
  assumes "sessions_ok w" and "run_clock w \<le> now"
  shows "(\<exists>sess. fst (Get now (Some c) (run_sm w)) = Some sess \<and> s_Admin sess) \<longleftrightarrow>
    counts (maxAge (run_sm w)) (idleTimeout (run_sm w)) now (live_login (run_history w) c)"
proof -
  have ok: "manager_ok (run_sm w) now" "agrees (run_sm w) now (run_history w)"
    using assms manager_later agrees_later by (auto simp: sessions_ok_def)
  note agreed = agreesD [OF ok(2), of c]
  show ?thesis using ok(1)
  proof (cases rule: Get_cases [of "run_sm w" now now "Some c"])
    case missing
    then show ?thesis using agreed(1) by auto
  next
    case (lapsed c' s)
    then show ?thesis using agreed(2) [of s] expired_lapsed [OF ok(1)] by auto
  next
    case (found c' s)
    then show ?thesis using agreed(2) [of s] fresh_counts [OF ok(1)] by (auto simp: login_of_def)
  qed
qed

section \<open>Settings and tokens over a run\<close>

definition keeps_tokens :: "gostring list \<Rightarrow> gostring list \<Rightarrow> bool" where
  "keeps_tokens heap heap' \<longleftrightarrow>
     length heap \<le> length heap' \<and> (\<forall>a < length heap. heap ! a \<noteq> [] \<longrightarrow> heap' ! a = heap ! a)"

lemma keeps_tokens_simps [simp]: "keeps_tokens heap heap" "keeps_tokens heap (heap @ [t])"
  "keeps_tokens heap (token_written rand a heap)"
  by (auto simp: keeps_tokens_def nth_append token_written_def split: sum.split) (metis nth_list_update_neq)

lemma keeps_tokens_trans: "keeps_tokens h1 h2 \<Longrightarrow> keeps_tokens h2 h3 \<Longrightarrow> keeps_tokens h1 h3"
  unfolding keeps_tokens_def by (metis order.strict_trans2 order.trans)

lemma clone_effect:
  "cloneSession s sm = (s', sm') \<Longrightarrow> maxAge sm' = maxAge sm \<and> idleTimeout sm' = idleTimeout sm \<and> keeps_tokens (csrf_heap sm) (csrf_heap sm')"
  by (auto simp: cloneSession_def new_csrf_def split: option.splits)

lemma session_step_effect:
  "session_step w w' \<Longrightarrow> maxAge (run_sm w') = maxAge (run_sm w) \<and> idleTimeout (run_sm w') = idleTimeout (run_sm w) \<and>
   keeps_tokens (csrf_heap (run_sm w)) (csrf_heap (run_sm w'))"
proof (induction rule: session_step.induct)
  case (login w now rand boot sess cookies sm)
  then show ?case unfolding CreateAdmin_def by (elim createAdmin_Ok) simp
next
  case (exclusive_login w now rand sess cookies sm)
  then show ?case unfolding CreateExclusiveAdmin_def by (elim createAdmin_Ok) simp
next
  case (login_form w now rand sess cookies sm)
  then show ?case by (elim CreatePreAuth_Ok) simp
next
  case (reuse_form w now cookie r sm)
  then show ?case
    by (auto simp: reusablePreAuthSession_def Let_def split: if_splits option.splits prod.splits dest!: clone_effect)
next
  case (got w now c sess sm)
  then show ?case by (auto simp: Get_def Let_def split: if_splits option.splits prod.splits dest!: clone_effect)
next
  case (not_got w now cookie sm)
  then show ?case by (auto simp: Get_def Let_def split: if_splits option.splits prod.splits dest!: clone_effect)
next
  case (token sess a w rand)
  then show ?case by (simp add: CSRFToken_heap)
qed (auto simp: DeleteByID_def DeleteAllAdminSessions_def deleteAdminSessionsLocked_def cleanupExpiredSessions_def
    SetFlash_def GetFlash_def split: option.split)

lemma session_steps_effect:
  "session_step\<^sup>*\<^sup>* w w' \<Longrightarrow> maxAge (run_sm w') = maxAge (run_sm w) \<and> idleTimeout (run_sm w') = idleTimeout (run_sm w) \<and>
   keeps_tokens (csrf_heap (run_sm w)) (csrf_heap (run_sm w'))"
proof (induction rule: rtranclp_induct)
  case (step w1 w2)
  then show ?case using session_step_effect [OF step(2)] keeps_tokens_trans by fastforce
qed simp

lemma hex_not_empty: "hex_EncodeToString b = [] \<longleftrightarrow> b = []"
  by (cases b) (simp_all add: hex_EncodeToString_def)

section \<open>Properties\<close>

text \<open>
  C6: The guard of the admin routes decides exactly as the history of the sessions says. In every run of
  the manager, with its clean-ups and evictions at any moment, a request to an admin route other
  than the login page is let through if and only if its cookie names a login that happened at most the
  maximal age ago, was last used at most the idle timeout ago, and since then was neither
  logged out, nor replaced by an exclusive login, nor ended with all the others. A request without
  the cookie never is.
\<close>

theorem admin_gate_exact:
  assumes "session_step\<^sup>*\<^sup>* (session_start age idle sec) w" and "0 < age" and "0 < idle"
    and "run_clock w \<le> now" and "isAdminSessionPath path" and "path \<noteq> ''/admin/login''"
  shows "fst (RequireAdminSession now path cookie (run_sm w)) =
    (case cookie of None \<Rightarrow> False | Some c \<Rightarrow> counts age idle now (live_login (run_history w) c))"
proof -
  have ok: "sessions_ok w" using session_steps_ok [OF assms(1) session_start_ok] .
  have times: "maxAge (run_sm w) = age" "idleTimeout (run_sm w) = idle"
    using session_steps_effect [OF assms(1)] assms(2,3)
    by (simp_all add: session_start_def NewSessionManagerWithIdleTimeout_def)
  have "fst (RequireAdminSession now path cookie (run_sm w)) \<longleftrightarrow>
      (\<exists>sess. fst (Get now cookie (run_sm w)) = Some sess \<and> s_Admin sess)"
    using assms(5,6)
    by (cases "Get now cookie (run_sm w)"; cases "fst (Get now cookie (run_sm w))")
      (auto simp: RequireAdminSession_def split: prod.splits)
  then show ?thesis
    using Get_admin_iff [OF ok assms(4)] times by (cases cookie) (simp_all add: Get_def)
qed

definition idled :: SessionRun where
  "idled = (let w = session_start 1000 100 True;
      (r, cookies, sm) = CreateAdmin (Ok ''k'') 5 False (run_sm w)
    in moved w 5 [LoggedIn ''6b'' 5] sm)"

theorem admin_gate_exact_witness:
  "fst (RequireAdminSession 90 ''/admin/keys'' (Some ''6b'') (run_sm idled)) = counts 1000 100 90 (Some (5, 5)) \<and>
   \<not> fst (RequireAdminSession 106 ''/admin/keys'' (Some ''6b'') (run_sm idled))"
proof -
  let ?w = "session_start 1000 100 True"
  obtain r cookies sm where made: "CreateAdmin (Ok ''k'') 5 False (run_sm ?w) = (r, cookies, sm)"
    by (cases "CreateAdmin (Ok ''k'') 5 False (run_sm ?w)") auto
  have "map_sum id s_ID (fst (CreateAdmin (Ok ''k'') 5 False (run_sm ?w))) = Ok ''6b''" by code_simp
  then obtain sess where r: "r = Ok sess" "s_ID sess = ''6b''" using made by (cases r) auto
  have "session_step ?w idled"
    using session_step.login [of ?w 5 "Ok ''k''" False sess cookies sm] made r by (simp add: idled_def session_start_def)
  then have run: "session_step\<^sup>*\<^sup>* ?w idled" by (rule r_into_rtranclp)
  have path: "isAdminSessionPath ''/admin/keys''" by code_simp
  have clock: "run_clock idled = 5" "live_login (run_history idled) ''6b'' = Some (5, 5)"
    using made by (simp_all add: idled_def session_start_def split: prod.split)
  show ?thesis
    using admin_gate_exact [OF run, of 90 "''/admin/keys''" "Some ''6b''"] admin_gate_exact [OF run, of 106 "''/admin/keys''" "Some ''6b''"]
      path clock by simp
qed


definition form_session :: SessionRun where
  "form_session = (let w = session_start 1000 100 True;
      (r, cookies, sm) = CreatePreAuth (Ok ''k'') 5 (run_sm w)
    in moved w 5 [GotForm ''6b''] sm)"


text \<open>A one-time value is read once.\<close>

lemma flash_read_once:
  assumes "lookup_session sm sid = Some s"
  shows "fst (GetFlash sid key (SetFlash sid key val sm)) = val"
    and "fst (GetFlash sid key (snd (GetFlash sid key (SetFlash sid key val sm)))) = []"
    and "PeekFlash sid key (SetFlash sid key val sm) = val"
  using assms by (simp_all add: lookup_session_def GetFlash_def SetFlash_def PeekFlash_def update_conv' delete_conv')

end
