(* ===== verification/AdminLogin.thy ===== *)
theory AdminLogin
  imports Sessions AdminStore
begin

text \<open>
  Signing in to the administration (\<open>internal/api/admin/handler.go\<close>), changing the password
  (\<open>internal/api/admin/pages.go\<close>), the gate of every admin form (\<open>internal/api/admin/feed_forms.go\<close>)
  and the first password (\<open>internal/auth/auth.go\<close>).

  A handler works on three things: the session manager, the table of failed attempts, and a store
  reached through an interface whose operations can fail. The model threads the three through one
  record and writes every failure branch; the interface is a record of operations, with the
  in-memory store as an instance. The cookies set on the response in progress are part of the state.
  \<open>bcrypt\<close>, the random source and the parsing of the submitted form are parameters; a request
  reads the clock once. Rendering, logging and the password comparison that only equalizes the
  response time are left out.

  The lemmas say when a login can succeed, how many wrong guesses the lockout leaves, and that a
  changed password ends every other session.
\<close>

section \<open>Password policy\<close>

definition MinAdminPasswordLength :: nat where
  "MinAdminPasswordLength = 12"

definition MaxAdminPasswordBytes :: nat where
  "MaxAdminPasswordBytes = 72"

datatype password_error = ErrAdminPasswordTooShort | ErrAdminPasswordTooLong

definition ValidateAdminPassword :: "gostring \<Rightarrow> password_error option" where
  "ValidateAdminPassword password =
     (if RuneCountInString password < MinAdminPasswordLength then Some ErrAdminPasswordTooShort
      else if length password > MaxAdminPasswordBytes then Some ErrAdminPasswordTooLong
      else None)"

section \<open>The handler and its surroundings\<close>

record loginAttempt =
  la_count :: nat
  la_lockedAt :: gotime
  la_lastFailedAt :: gotime
  la_lockoutAuditedAt :: gotime
  la_ref :: nat

text \<open>
  The operations of the store. An audit row is written for an entry; \<open>Some\<close> is the error. The time
  is the one of the request.
\<close>

datatype change_error = AuthConflict | AuditFailed gostring | ChangeFailed gostring

record 'st LoginOps =
  lo_GetAdminAuth :: "'st \<Rightarrow> (gostring, AdminAuth option) result"
  lo_InsertAdminAuditLog :: "gotime \<Rightarrow> AdminAuditEntry \<Rightarrow> 'st \<Rightarrow> gostring option \<times> 'st"
  lo_ChangeAdminPasswordWithAudit :: "gotime \<Rightarrow> gostring \<Rightarrow> gostring \<Rightarrow> AdminAuditEntry \<Rightarrow> 'st \<Rightarrow> change_error option \<times> 'st"
  lo_UpsertAdminAuthWithAudit :: "gotime \<Rightarrow> gostring \<Rightarrow> bool \<Rightarrow> AdminAuditEntry \<Rightarrow> 'st \<Rightarrow> gostring option \<times> 'st"

record Bcrypt =
  CheckPassword :: "gostring \<Rightarrow> gostring \<Rightarrow> bool"
  HashPassword :: "gostring \<Rightarrow> (gostring, gostring) result"

text \<open>The attempt records are compared by identity, so each carries the number of its allocation.\<close>

record 'st AdminHandler =
  h_store :: 'st
  h_sm :: SessionManager
  loginAttempts :: "(gostring \<times> loginAttempt) list"
  h_refs :: nat
  h_cookies :: "SetCookie list"

text \<open>
  A request: its clock reading, its client, its cookie, the status of a form that does not parse, the
  form values (\<open>rq_next\<close> is the target \<open>SafeAdminReturnTarget\<close> lets through), and the random bytes drawn
  for it.
\<close>

record AdminRequest =
  rq_now :: gotime
  rq_ip :: gostring
  rq_correlation :: gostring
  rq_cookie :: "gostring option"
  rq_form_error :: "nat option"
  rq_csrf :: gostring
  rq_username :: gostring
  rq_password :: gostring
  rq_next :: gostring
  rq_new_password :: gostring
  rq_confirm_password :: gostring
  rq_rand_session :: "(gostring, gostring) result"
  rq_rand_form :: "(gostring, gostring) result"
  rq_rand_token :: "(gostring, gostring) result"

text \<open>
  The answers. The form carries its message and its token. A redirect to the settings page with an
  error carries the key of the message in the catalogue of the web interface, and so does the one
  after a changed password. \<open>GateClosed\<close> is the answer of a gate that was not passed: a redirect to
  the login page or back to the form.
\<close>

datatype admin_response =
    SeeOther gostring
  | LoginForm gostring gostring
  | HttpError nat gostring
  | SettingsError gostring
  | GateClosed

definition loginMaxAttempts :: nat where
  "loginMaxAttempts = 5"

definition loginLockoutDuration :: duration where
  "loginLockoutDuration = 15 * 60 * second"

definition adminLoginAccountKey :: gostring where
  "adminLoginAccountKey = ''account:admin''"

section \<open>Failed attempts\<close>

definition isAttemptLocked :: "gostring \<Rightarrow> gotime \<Rightarrow> 'st AdminHandler \<Rightarrow> bool \<times> 'st AdminHandler" where
  "isAttemptLocked key now h =
     (case map_of (loginAttempts h) key of
        None \<Rightarrow> (False, h)
      | Some a \<Rightarrow>
          if la_count a < loginMaxAttempts \<or> IsZero (la_lockedAt a) then (False, h)
          else if now - la_lockedAt a < loginLockoutDuration then (True, h)
          else (False, h\<lparr>loginAttempts := AList.delete key (loginAttempts h)\<rparr>))"

definition isLockedOut :: "gostring \<Rightarrow> gotime \<Rightarrow> 'st AdminHandler \<Rightarrow> bool \<times> 'st AdminHandler" where
  "isLockedOut ip now h =
     (case isAttemptLocked ip now h of
        (True, h) \<Rightarrow> (True, h)
      | (False, h) \<Rightarrow> isAttemptLocked adminLoginAccountKey now h)"

definition recordFailedAttemptLocked :: "gostring \<Rightarrow> gotime \<Rightarrow> 'st AdminHandler \<Rightarrow> 'st AdminHandler" where
  "recordFailedAttemptLocked key now h =
     (let fresh = \<lparr>la_count = 0, la_lockedAt = 0, la_lastFailedAt = 0, la_lockoutAuditedAt = 0, la_ref = h_refs h\<rparr>;
          (a, h) = (case map_of (loginAttempts h) key of
             None \<Rightarrow> (fresh, h\<lparr>h_refs := h_refs h + 1\<rparr>)
           | Some a \<Rightarrow>
               if IsZero (la_lockedAt a) \<and> \<not> IsZero (la_lastFailedAt a) \<and> now - la_lastFailedAt a \<ge> loginLockoutDuration
               then (fresh\<lparr>la_ref := la_ref a\<rparr>, h) else (a, h));
          a = a\<lparr>la_count := la_count a + 1, la_lastFailedAt := now\<rparr>;
          a = (if la_count a \<ge> loginMaxAttempts \<and> IsZero (la_lockedAt a) then a\<lparr>la_lockedAt := now\<rparr> else a)
      in h\<lparr>loginAttempts := AList.update key a (loginAttempts h)\<rparr>)"

definition recordFailedAttemptFor :: "gostring \<Rightarrow> bool \<Rightarrow> gotime \<Rightarrow> 'st AdminHandler \<Rightarrow> 'st AdminHandler" where
  "recordFailedAttemptFor ip includeAccount now h =
     (let h = recordFailedAttemptLocked ip now h in
      if includeAccount then recordFailedAttemptLocked adminLoginAccountKey now h else h)"

definition recordFailedAttempt :: "gostring \<Rightarrow> gotime \<Rightarrow> 'st AdminHandler \<Rightarrow> 'st AdminHandler" where
  "recordFailedAttempt ip now h = recordFailedAttemptFor ip True now h"

record lockoutAuditMark =
  lm_key :: gostring
  lm_attempt :: nat
  lm_previous :: gotime
  lm_claimedAt :: gotime

fun claim_loop ::
    "gotime \<Rightarrow> gostring list \<Rightarrow> lockoutAuditMark list \<Rightarrow> 'st AdminHandler \<Rightarrow> lockoutAuditMark list \<times> 'st AdminHandler" where
  "claim_loop now [] marks h = (marks, h)"
| "claim_loop now (key # keys) marks h =
     (case map_of (loginAttempts h) key of
        None \<Rightarrow> claim_loop now keys marks h
      | Some a \<Rightarrow>
          (case isAttemptLocked key now h of
             (False, h) \<Rightarrow> claim_loop now keys marks h
           | (True, h) \<Rightarrow>
               if IsZero (la_lockoutAuditedAt a) \<or> la_lockoutAuditedAt a < la_lockedAt a
               then claim_loop now keys
                 (marks @ [\<lparr>lm_key = key, lm_attempt = la_ref a, lm_previous = la_lockoutAuditedAt a, lm_claimedAt = now\<rparr>])
                 (h\<lparr>loginAttempts := AList.update key (a\<lparr>la_lockoutAuditedAt := now\<rparr>) (loginAttempts h)\<rparr>)
               else claim_loop now keys marks h))"

definition claimLockoutAudit ::
    "gostring \<Rightarrow> gotime \<Rightarrow> 'st AdminHandler \<Rightarrow> (lockoutAuditMark list \<times> bool) \<times> 'st AdminHandler" where
  "claimLockoutAudit ip now h =
     (let (marks, h) = claim_loop now [ip, adminLoginAccountKey] [] h in ((marks, marks \<noteq> []), h))"

definition release_mark :: "lockoutAuditMark \<Rightarrow> 'st AdminHandler \<Rightarrow> 'st AdminHandler" where
  "release_mark mark h =
     (case map_of (loginAttempts h) (lm_key mark) of
        None \<Rightarrow> h
      | Some a \<Rightarrow>
          if la_ref a \<noteq> lm_attempt mark \<or> la_lockoutAuditedAt a \<noteq> lm_claimedAt mark then h
          else h\<lparr>loginAttempts := AList.update (lm_key mark) (a\<lparr>la_lockoutAuditedAt := lm_previous mark\<rparr>) (loginAttempts h)\<rparr>)"

definition releaseLockoutAudit :: "lockoutAuditMark list \<Rightarrow> 'st AdminHandler \<Rightarrow> 'st AdminHandler" where
  "releaseLockoutAudit marks h = fold release_mark marks h"

definition resetAttempts :: "gostring \<Rightarrow> 'st AdminHandler \<Rightarrow> 'st AdminHandler" where
  "resetAttempts ip h =
     h\<lparr>loginAttempts := AList.delete adminLoginAccountKey (AList.delete ip (loginAttempts h))\<rparr>"

definition attempt_stale :: "gotime \<Rightarrow> loginAttempt \<Rightarrow> bool" where
  "attempt_stale cutoff a \<longleftrightarrow>
     (if la_count a \<ge> loginMaxAttempts then \<not> IsZero (la_lockedAt a) \<and> la_lockedAt a < cutoff
      else IsZero (la_lastFailedAt a) \<or> la_lastFailedAt a < cutoff)"

definition cleanupExpiredLoginAttempts :: "gotime \<Rightarrow> 'st AdminHandler \<Rightarrow> 'st AdminHandler" where
  "cleanupExpiredLoginAttempts now h =
     h\<lparr>loginAttempts := filter (\<lambda>(key, a). \<not> attempt_stale (now - loginLockoutDuration) a) (loginAttempts h)\<rparr>"

section \<open>Audit rows\<close>

text \<open>\<open>json.Marshal\<close> of a map of strings: the members in the order of their keys.\<close>

definition json_details :: "(gostring \<times> gostring) list \<Rightarrow> gostring" where
  "json_details details =
     CHR 0x7B # Join (map (\<lambda>(k, v). json_member k (json_string v)) (sort_key fst details)) '','' @ [CHR 0x7D]"

definition adminAuditEntry :: "AdminRequest \<Rightarrow> gostring \<Rightarrow> (gostring \<times> gostring) list \<Rightarrow> AdminAuditEntry" where
  "adminAuditEntry r action details =
     \<lparr>ae_Action = action, ae_Details = json_details details, ae_IP = rq_ip r, ae_CorrelationID = rq_correlation r\<rparr>"

definition auditLog_row ::
    "'st LoginOps \<Rightarrow> AdminRequest \<Rightarrow> gostring \<Rightarrow> (gostring \<times> gostring) list \<Rightarrow> 'st AdminHandler \<Rightarrow> bool \<times> 'st AdminHandler" where
  "auditLog_row ops r action details h =
     (case lo_InsertAdminAuditLog ops (rq_now r) (adminAuditEntry r action details) (h_store h) of
        (Some e, st) \<Rightarrow> (False, h\<lparr>h_store := st\<rparr>)
      | (None, st) \<Rightarrow> (True, h\<lparr>h_store := st\<rparr>))"

section \<open>Sessions through the handler\<close>

definition Get_h :: "AdminRequest \<Rightarrow> 'st AdminHandler \<Rightarrow> Session option \<times> 'st AdminHandler" where
  "Get_h r h = (let (sess, sm) = Get (rq_now r) (rq_cookie r) (h_sm h) in (sess, h\<lparr>h_sm := sm\<rparr>))"

definition Delete_h :: "AdminRequest \<Rightarrow> 'st AdminHandler \<Rightarrow> 'st AdminHandler" where
  "Delete_h r h =
     (let (cookies, sm) = Delete_session (rq_cookie r) (h_sm h) in h\<lparr>h_sm := sm, h_cookies := h_cookies h @ cookies\<rparr>)"

definition adminCSRFToken :: "AdminRequest \<Rightarrow> Session \<Rightarrow> 'st AdminHandler \<Rightarrow> gostring option \<times> 'st AdminHandler" where
  "adminCSRFToken r sess h =
     (case CSRFToken (rq_rand_token r) (Some sess) (h_sm h) of
        (Err e, sm) \<Rightarrow> (None, h\<lparr>h_sm := sm\<rparr>)
      | (Ok token, sm) \<Rightarrow> (Some token, h\<lparr>h_sm := sm\<rparr>))"

definition internal_error :: admin_response where
  "internal_error = HttpError 500 ''internal server error''"

definition audit_error :: admin_response where
  "audit_error = HttpError 500 ''failed to record audit log''"

definition showLoginForm :: "AdminRequest \<Rightarrow> gostring \<Rightarrow> 'st AdminHandler \<Rightarrow> admin_response \<times> 'st AdminHandler" where
  "showLoginForm r errorMsg h =
     (case Get_h r h of
        (sess, h) \<Rightarrow>
          if sess \<noteq> None \<and> s_Admin (the sess) then (SeeOther ''/admin/'', h)
          else case CreateOrReusePreAuth (rq_rand_form r) (rq_now r) (rq_cookie r) (h_sm h) of
                 (Err e, cookies, sm) \<Rightarrow> (internal_error, h\<lparr>h_sm := sm, h_cookies := h_cookies h @ cookies\<rparr>)
               | (Ok sess, cookies, sm) \<Rightarrow>
                   (case adminCSRFToken r sess (h\<lparr>h_sm := sm, h_cookies := h_cookies h @ cookies\<rparr>) of
                      (None, h) \<Rightarrow> (internal_error, h)
                    | (Some token, h) \<Rightarrow> (LoginForm errorMsg token, h)))"

section \<open>Login\<close>

definition adminLoginSuccessRedirect :: "gostring \<Rightarrow> gostring" where
  "adminLoginSuccessRedirect nextPath = (if nextPath = [] then ''/admin/'' else nextPath)"

text \<open>The branch of a locked out principal: one audit row per lockout, then the form.\<close>

definition refuse_locked :: "'st LoginOps \<Rightarrow> AdminRequest \<Rightarrow> 'st AdminHandler \<Rightarrow> admin_response \<times> 'st AdminHandler" where
  "refuse_locked ops r h =
     (case claimLockoutAudit (rq_ip r) (rq_now r) h of
        ((marks, False), h) \<Rightarrow> showLoginForm r ''Too many failed login attempts. Please try again later.'' h
      | ((marks, True), h) \<Rightarrow>
          (case auditLog_row ops r ''login_lockout'' [(''reason'', ''too many failed attempts'')] h of
             (False, h) \<Rightarrow> (audit_error, releaseLockoutAudit marks h)
           | (True, h) \<Rightarrow> showLoginForm r ''Too many failed login attempts. Please try again later.'' h))"

text \<open>A wrong guess: it is counted before its audit row is written.\<close>

definition refuse_guess ::
    "'st LoginOps \<Rightarrow> AdminRequest \<Rightarrow> gostring \<Rightarrow> gostring \<Rightarrow> 'st AdminHandler \<Rightarrow> admin_response \<times> 'st AdminHandler" where
  "refuse_guess ops r reason message h =
     (case auditLog_row ops r ''login_failed'' [(''reason'', reason)] (recordFailedAttempt (rq_ip r) (rq_now r) h) of
        (False, h) \<Rightarrow> (audit_error, h)
      | (True, h) \<Rightarrow> showLoginForm r message h)"

text \<open>The session first, then the audit row; a row that cannot be written takes the session back.\<close>

definition commit_login :: "'st LoginOps \<Rightarrow> AdminRequest \<Rightarrow> AdminAuth \<Rightarrow> 'st AdminHandler \<Rightarrow> admin_response \<times> 'st AdminHandler" where
  "commit_login ops r cred h =
     (case CreateAdmin (rq_rand_session r) (rq_now r) (aa_PasswordIsBootstrap cred) (h_sm h) of
        (Err e, cookies, sm) \<Rightarrow> (internal_error, h\<lparr>h_sm := sm, h_cookies := h_cookies h @ cookies\<rparr>)
      | (Ok adminSession, cookies, sm) \<Rightarrow>
          (case auditLog_row ops r ''login_success'' [] (h\<lparr>h_sm := sm, h_cookies := h_cookies h @ cookies\<rparr>) of
             (False, h) \<Rightarrow>
               (let (cleared, sm) = DeleteByID (s_ID adminSession) (h_sm h) in
                (audit_error, h\<lparr>h_sm := sm, h_cookies := h_cookies h @ cleared\<rparr>))
           | (True, h) \<Rightarrow> (SeeOther (adminLoginSuccessRedirect (rq_next r)), resetAttempts (rq_ip r) h)))"

definition processLogin ::
    "'st LoginOps \<Rightarrow> Bcrypt \<Rightarrow> AdminRequest \<Rightarrow> 'st AdminHandler \<Rightarrow> admin_response \<times> 'st AdminHandler" where
  "processLogin ops bc r h =
     (if rq_form_error r \<noteq> None then (HttpError (the (rq_form_error r)) ''invalid form payload'', h)
      else case isLockedOut (rq_ip r) (rq_now r) h of
        (True, h) \<Rightarrow> refuse_locked ops r h
      | (False, h) \<Rightarrow>
          (case Get_h r h of
             (sess, h) \<Rightarrow>
               if sess = None \<or> \<not> ValidateCSRF (rq_csrf r) sess (h_sm h)
               then showLoginForm r ''Invalid request. Please try again.'' (recordFailedAttemptFor (rq_ip r) False (rq_now r) h)
               else let h = Delete_h r h in
                 if rq_username r \<noteq> ''admin''
                 then refuse_guess ops r ''invalid username'' ''Invalid username or password.'' h
                 else case lo_GetAdminAuth ops (h_store h) of
                        Err e \<Rightarrow> (internal_error, h)
                      | Ok None \<Rightarrow>
                          refuse_guess ops r ''admin account not configured'' ''Admin account has not been configured.'' h
                      | Ok (Some cred) \<Rightarrow>
                          if \<not> CheckPassword bc (aa_PasswordHash cred) (rq_password r)
                          then refuse_guess ops r ''invalid password'' ''Invalid username or password.'' h
                          else commit_login ops r cred h))"

definition HandleLogin ::
    "'st LoginOps \<Rightarrow> Bcrypt \<Rightarrow> gostring \<Rightarrow> AdminRequest \<Rightarrow> 'st AdminHandler \<Rightarrow> admin_response \<times> 'st AdminHandler" where
  "HandleLogin ops bc meth r h =
     (if meth = ''GET'' then showLoginForm r [] h
      else if meth = ''POST'' then processLogin ops bc r h
      else (HttpError 405 ''method not allowed'', h))"

definition recordInvalidAdminCSRF :: "'st LoginOps \<Rightarrow> AdminRequest \<Rightarrow> gostring \<Rightarrow> gostring \<Rightarrow> 'st AdminHandler \<Rightarrow> 'st AdminHandler" where
  "recordInvalidAdminCSRF ops r path targetAction h =
     snd (auditLog_row ops r ''admin_csrf_rejected'' [(''target_action'', targetAction), (''path'', path)] h)"

definition HandleLogout ::
    "'st LoginOps \<Rightarrow> gostring \<Rightarrow> gostring \<Rightarrow> AdminRequest \<Rightarrow> 'st AdminHandler \<Rightarrow> admin_response \<times> 'st AdminHandler" where
  "HandleLogout ops meth path r h =
     (if meth \<noteq> ''POST'' then (HttpError 405 ''method not allowed'', h)
      else if rq_form_error r \<noteq> None then (HttpError (the (rq_form_error r)) ''invalid form payload'', h)
      else case Get_h r h of
             (sess, h) \<Rightarrow>
               if sess = None \<or> \<not> ValidateCSRF (rq_csrf r) sess (h_sm h)
               then (SeeOther ''/admin/login'', recordInvalidAdminCSRF ops r path ''logout'' h)
               else case auditLog_row ops r ''logout'' [] h of
                      (False, h) \<Rightarrow> (audit_error, h)
                    | (True, h) \<Rightarrow> (SeeOther ''/admin/login'', Delete_h r h))"

section \<open>The gate of the admin forms\<close>

definition requireAdmin :: "AdminRequest \<Rightarrow> 'st AdminHandler \<Rightarrow> Session option \<times> 'st AdminHandler" where
  "requireAdmin r h =
     (case Get_h r h of
        (sess, h) \<Rightarrow> if sess = None \<or> \<not> s_Admin (the sess) then (None, Delete_h r h) else (sess, h))"

definition requireBootstrapPasswordRotated ::
    "'st LoginOps \<Rightarrow> gostring \<Rightarrow> AdminRequest \<Rightarrow> 'st AdminHandler \<Rightarrow> bool \<times> 'st AdminHandler" where
  "requireBootstrapPasswordRotated ops pathLabel r h =
     (case Get_h r h of
        (sess, h) \<Rightarrow>
          let authenticatedWithBootstrap = (sess \<noteq> None \<and> s_AuthenticatedWithBootstrap (the sess)) in
          case lo_GetAdminAuth ops (h_store h) of
            Err e \<Rightarrow> (False, h)
          | Ok cred \<Rightarrow>
              if \<not> authenticatedWithBootstrap \<and> (cred = None \<or> \<not> aa_PasswordIsBootstrap (the cred)) then (True, h)
              else (False, snd (auditLog_row ops r ''bootstrap_rotation_required'' [(''path'', pathLabel)] h)))"

record adminPostGate =
  csrfAction :: gostring
  bootstrapRedirectPath :: gostring

text \<open>The paths of the request, as it is and as it is logged, are arguments; the answers of a closed gate are redirects.\<close>

definition requireAdminPost ::
    "'st LoginOps \<Rightarrow> gostring \<Rightarrow> gostring \<Rightarrow> adminPostGate \<Rightarrow> AdminRequest \<Rightarrow> 'st AdminHandler \<Rightarrow> Session option \<times> 'st AdminHandler" where
  "requireAdminPost ops path pathLabel gate r h =
     (case requireAdmin r h of
        (None, h) \<Rightarrow> (None, h)
      | (Some sess, h) \<Rightarrow>
          if rq_form_error r \<noteq> None then (None, h)
          else if \<not> ValidateCSRF (rq_csrf r) (Some sess) (h_sm h)
          then (None, recordInvalidAdminCSRF ops r path (csrfAction gate) h)
          else if bootstrapRedirectPath gate \<noteq> []
          then (case requireBootstrapPasswordRotated ops pathLabel r h of
                  (False, h) \<Rightarrow> (None, h)
                | (True, h) \<Rightarrow> (Some sess, h))
          else (Some sess, h))"

section \<open>Changing the password\<close>

text \<open>After the change is committed: one fresh session, and none of the others.\<close>

definition rotate_sessions :: "AdminRequest \<Rightarrow> 'st AdminHandler \<Rightarrow> admin_response \<times> 'st AdminHandler" where
  "rotate_sessions r h =
     (case CreateExclusiveAdmin (rq_rand_session r) (rq_now r) (h_sm (resetAttempts (rq_ip r) h)) of
        (Err e, cookies, sm) \<Rightarrow>
          (let (cleared, sm) = DeleteAllAdminSessions sm in
           (internal_error, (resetAttempts (rq_ip r) h)\<lparr>h_sm := sm, h_cookies := h_cookies h @ cookies @ cleared\<rparr>))
      | (Ok replacement, cookies, sm) \<Rightarrow>
          (SeeOther ''/admin/settings?msg=admin.settings.flash.password_changed'', (resetAttempts (rq_ip r) h)\<lparr>h_sm := sm, h_cookies := h_cookies h @ cookies\<rparr>))"

definition adminPasswordPolicyMessage :: "password_error \<Rightarrow> gostring" where
  "adminPasswordPolicyMessage e =
     (case e of ErrAdminPasswordTooLong \<Rightarrow> ''admin.settings.error.password.too_long''
              | ErrAdminPasswordTooShort \<Rightarrow> ''admin.settings.error.password.too_short'')"

definition HandlePasswordChange ::
    "'st LoginOps \<Rightarrow> Bcrypt \<Rightarrow> gostring \<Rightarrow> gostring \<Rightarrow> AdminRequest \<Rightarrow> 'st AdminHandler \<Rightarrow> admin_response \<times> 'st AdminHandler" where
  "HandlePasswordChange ops bc path pathLabel r h =
     (case requireAdminPost ops path pathLabel \<lparr>csrfAction = ''password_change'', bootstrapRedirectPath = []\<rparr> r h of
        (None, h) \<Rightarrow> (GateClosed, h)
      | (Some sess, h) \<Rightarrow>
          (case isLockedOut (rq_ip r) (rq_now r) h of
             (True, h) \<Rightarrow>
               (case claimLockoutAudit (rq_ip r) (rq_now r) h of
                  ((marks, False), h) \<Rightarrow> (SettingsError ''admin.settings.error.password.too_many_attempts'', h)
                | ((marks, True), h) \<Rightarrow>
                    (case auditLog_row ops r ''login_lockout'' [(''reason'', ''too many failed attempts'')] h of
                       (False, h) \<Rightarrow> (SettingsError ''admin.settings.error.audit_log'', releaseLockoutAudit marks h)
                     | (True, h) \<Rightarrow> (SettingsError ''admin.settings.error.password.too_many_attempts'', h)))
           | (False, h) \<Rightarrow>
               if rq_new_password r \<noteq> rq_confirm_password r then (SettingsError ''admin.settings.error.password.mismatch'', h)
               else if ValidateAdminPassword (rq_new_password r) \<noteq> None
               then (SettingsError (adminPasswordPolicyMessage (the (ValidateAdminPassword (rq_new_password r)))), h)
               else case lo_GetAdminAuth ops (h_store h) of
                      Err e \<Rightarrow> (SettingsError ''admin.settings.error.password.verify_current'', h)
                    | Ok None \<Rightarrow> (SettingsError ''admin.settings.error.password.verify_current'', h)
                    | Ok (Some cred) \<Rightarrow>
                        if \<not> CheckPassword bc (aa_PasswordHash cred) (rq_password r)
                        then (case auditLog_row ops r ''password_change_failed'' [(''reason'', ''invalid current password'')]
                                     (recordFailedAttempt (rq_ip r) (rq_now r) h) of
                                (False, h) \<Rightarrow> (SettingsError ''admin.settings.error.audit_log'', h)
                              | (True, h) \<Rightarrow> (SettingsError ''admin.settings.error.password.current_incorrect'', h))
                        else if CheckPassword bc (aa_PasswordHash cred) (rq_new_password r)
                        then (case auditLog_row ops r ''password_change_failed''
                                     [(''reason'', ''new password reused current password'')] h of
                                (False, h) \<Rightarrow> (SettingsError ''admin.settings.error.audit_log'', h)
                              | (True, h) \<Rightarrow> (SettingsError ''admin.settings.error.password.reused'', h))
                        else case HashPassword bc (rq_new_password r) of
                               Err e \<Rightarrow> (SettingsError ''admin.settings.error.password.update'', h)
                             | Ok newHash \<Rightarrow>
                                 (case lo_ChangeAdminPasswordWithAudit ops (rq_now r) newHash (aa_PasswordHash cred)
                                         (adminAuditEntry r ''password_change'' []) (h_store h) of
                                    (Some AuthConflict, st) \<Rightarrow> (SettingsError ''admin.settings.error.password.current_incorrect'', h\<lparr>h_store := st\<rparr>)
                                  | (Some (AuditFailed e), st) \<Rightarrow> (SettingsError ''admin.settings.error.audit_log'', h\<lparr>h_store := st\<rparr>)
                                  | (Some (ChangeFailed e), st) \<Rightarrow> (SettingsError ''admin.settings.error.password.update'', h\<lparr>h_store := st\<rparr>)
                                  | (None, st) \<Rightarrow> rotate_sessions r (h\<lparr>h_store := st\<rparr>))))"

section \<open>The first password\<close>

datatype bootstrap_error = CheckExisting gostring | Policy password_error | Bootstrap gostring

definition BootstrapAdmin ::
    "'st LoginOps \<Rightarrow> Bcrypt \<Rightarrow> gotime \<Rightarrow> gostring \<Rightarrow> 'st \<Rightarrow> bootstrap_error option \<times> 'st" where
  "BootstrapAdmin ops bc now initialPassword st =
     (case lo_GetAdminAuth ops st of
        Err e \<Rightarrow> (Some (CheckExisting e), st)
      | Ok (Some existing) \<Rightarrow> (None, st)
      | Ok None \<Rightarrow>
          if initialPassword = [] then (None, st)
          else case ValidateAdminPassword initialPassword of
                 Some e \<Rightarrow> (Some (Policy e), st)
               | None \<Rightarrow>
                   (case HashPassword bc initialPassword of
                      Err e \<Rightarrow> (Some (Bootstrap e), st)
                    | Ok hash \<Rightarrow>
                        (case lo_UpsertAdminAuthWithAudit ops now hash True
                                \<lparr>ae_Action = ''admin_bootstrap'',
                                 ae_Details = json_details [(''actor'', ''system''), (''event'', ''admin_bootstrap''),
                                   (''note'', ''initial admin password set from environment variable'')],
                                 ae_IP = [], ae_CorrelationID = []\<rparr> st of
                           (Some e, st) \<Rightarrow> (Some (Bootstrap e), st)
                         | (None, st) \<Rightarrow> (None, st))))"

section \<open>The in-memory store behind the handler\<close>

definition dev_login_ops :: "DevEnv \<Rightarrow> Store LoginOps" where
  "dev_login_ops env =
     \<lparr>lo_GetAdminAuth = (\<lambda>st. Ok (GetAdminAuth st)),
      lo_InsertAdminAuditLog = (\<lambda>now e st. (None, snd (InsertAdminAuditLog env now (Some e) st))),
      lo_ChangeAdminPasswordWithAudit = (\<lambda>now new old e st.
        (case ChangeAdminPasswordWithAudit env now new old (Some e) st of
           (Ok u, st) \<Rightarrow> (None, st) | (Err err, st) \<Rightarrow> (Some AuthConflict, st))),
      lo_UpsertAdminAuthWithAudit = (\<lambda>now hash boot e st. (None, snd (UpsertAdminAuthWithAudit env now hash boot (Some e) st)))\<rparr>"

section \<open>Who is signed in\<close>

definition admin_sessions :: "SessionManager \<Rightarrow> gostring set" where
  "admin_sessions sm = {c. \<exists>s. lookup_session sm c = Some s \<and> s_Admin s}"

lemma admin_update_le:
  "(s_Admin s \<Longrightarrow> c \<in> admin_sessions sm) \<Longrightarrow> admin_sessions (sm\<lparr>sessions := AList.update c s (sessions sm)\<rparr>) \<subseteq> admin_sessions sm"
  by (auto simp: admin_sessions_def split: if_splits)

lemma admin_delete: "admin_sessions (sm\<lparr>sessions := AList.delete c (sessions sm)\<rparr>) = admin_sessions sm - {c}"
  by (auto simp: admin_sessions_def)

lemma admin_heap [simp]: "admin_sessions (sm\<lparr>csrf_heap := heap\<rparr>) = admin_sessions sm"
  by (simp add: admin_sessions_def)

lemma admin_clone: "admin_sessions (snd (cloneSession s sm)) = admin_sessions sm"
  by (simp add: cloneSession_def new_csrf_def split: option.split)

lemma admin_filter: "admin_sessions (deleteAdminSessionsLocked sm) = {}"
  by (auto simp: admin_sessions_def deleteAdminSessionsLocked_def lookup_session_def dest!: map_of_SomeD)

lemma admin_Get: "admin_sessions (snd (Get now cookie sm)) \<subseteq> admin_sessions sm"
proof (cases "\<exists>c s. cookie = Some c \<and> map_of (sessions sm) c = Some s \<and> \<not> session_expired now sm s")
  case True
  then obtain c s where cs: "cookie = Some c" "map_of (sessions sm) c = Some s" "\<not> session_expired now sm s" by blast
  let ?sm = "sm\<lparr>sessions := AList.update c (s\<lparr>s_LastAccessed := now\<rparr>) (sessions sm)\<rparr>"
  have "snd (Get now cookie sm) = snd (cloneSession (s\<lparr>s_LastAccessed := now\<rparr>) ?sm)"
    using cs by (simp add: Get_def Let_def split: prod.split)
  moreover have "admin_sessions ?sm \<subseteq> admin_sessions sm"
    using cs(2) by (intro admin_update_le) (auto simp: admin_sessions_def lookup_session_def)
  ultimately show ?thesis by (simp add: admin_clone)
next
  case False
  then show ?thesis by (auto simp: Get_def admin_delete split: option.split)
qed

lemma admin_reuse: "admin_sessions (snd (reusablePreAuthSession now cookie sm)) \<subseteq> admin_sessions sm"
proof -
  have touch: "admin_sessions (snd (cloneSession (s\<lparr>s_LastAccessed := now\<rparr>)
      (sm\<lparr>sessions := AList.update c (s\<lparr>s_LastAccessed := now\<rparr>) (sessions sm)\<rparr>))) \<subseteq> admin_sessions sm" if "\<not> s_Admin s" for c s
    using that by (simp only: admin_clone) (intro admin_update_le, simp)
  show ?thesis
    using touch by (auto simp: reusablePreAuthSession_def Let_def admin_delete case_prod_beta split: option.split)
qed

lemma admin_CreatePreAuth: "admin_sessions (snd (snd (CreatePreAuth rand now sm))) \<subseteq> admin_sessions sm"
proof (cases "CreatePreAuth rand now sm")
  case (fields r cookies sm')
  show ?thesis
  proof (cases r)
    case (Inr sess)
    with fields show ?thesis
      by (auto elim!: CreatePreAuth_Ok simp: admin_sessions_def lookup_session_def update_conv' split: if_splits)
  next
    case (Inl e)
    with fields show ?thesis by (auto simp: CreatePreAuth_def Let_def split: sum.splits prod.splits)
  qed
qed

lemma admin_CreateOrReuse: "admin_sessions (snd (snd (CreateOrReusePreAuth rand now cookie sm))) \<subseteq> admin_sessions sm"
  using admin_reuse [of now cookie sm] admin_CreatePreAuth [of rand now "snd (reusablePreAuthSession now cookie sm)"]
  by (auto simp: CreateOrReusePreAuth_def case_prod_beta split: option.split)

lemma admin_CSRFToken: "admin_sessions (snd (CSRFToken rand sess sm)) = admin_sessions sm"
  by (auto simp: CSRFToken_def csrfState_def new_csrf_def Let_def split: option.split sum.split)

lemma admin_Get_h: "admin_sessions (h_sm (snd (Get_h r h))) \<subseteq> admin_sessions (h_sm h)"
  using admin_Get [of "rq_now r" "rq_cookie r" "h_sm h"] by (simp add: Get_h_def case_prod_beta)

lemma admin_Delete_h: "admin_sessions (h_sm (Delete_h r h)) \<subseteq> admin_sessions (h_sm h)"
  by (auto simp: Delete_h_def Delete_session_def DeleteByID_def admin_delete split: option.split)

lemma admin_showLoginForm: "admin_sessions (h_sm (snd (showLoginForm r msg h))) \<subseteq> admin_sessions (h_sm h)"
proof -
  obtain sess h1 where got: "Get_h r h = (sess, h1)" by fastforce
  obtain f cookies sm where made: "CreateOrReusePreAuth (rq_rand_form r) (rq_now r) (rq_cookie r) (h_sm h1) = (f, cookies, sm)"
    by (metis prod_cases3)
  have "admin_sessions (h_sm h1) \<subseteq> admin_sessions (h_sm h)" using admin_Get_h [of r h] got by simp
  moreover have "admin_sessions sm \<subseteq> admin_sessions (h_sm h1)"
    using admin_CreateOrReuse [of "rq_rand_form r" "rq_now r" "rq_cookie r" "h_sm h1"] made by simp
  moreover have "admin_sessions (h_sm (snd (adminCSRFToken r s h2))) = admin_sessions (h_sm h2)" for s and h2 :: "'a AdminHandler"
    using admin_CSRFToken [of "rq_rand_token r" "Some s" "h_sm h2"]
    by (auto simp: adminCSRFToken_def case_prod_beta split: sum.split)
  ultimately show ?thesis
    using got made by (auto simp: showLoginForm_def case_prod_beta split: sum.split option.split)
qed

lemma attempts_sm [simp]:
  "h_sm (snd (isLockedOut ip now h)) = h_sm h" "h_sm (recordFailedAttemptFor ip acc now h) = h_sm h"
  "h_sm (recordFailedAttempt ip now h) = h_sm h" "h_sm (resetAttempts ip h) = h_sm h" "h_sm (snd (auditLog_row ops r a d h)) = h_sm h"
  "h_sm (snd (claimLockoutAudit ip now h)) = h_sm h" "h_sm (releaseLockoutAudit marks h) = h_sm h"
proof -
  have lock: "h_sm (snd (isAttemptLocked k now h)) = h_sm h" for k and h :: "'a AdminHandler"
    by (simp add: isAttemptLocked_def split: option.split)
  then show "h_sm (snd (isLockedOut ip now h)) = h_sm h"
    by (simp add: isLockedOut_def case_prod_beta split: bool.split)
  have "h_sm (recordFailedAttemptLocked k now h) = h_sm h" for k and h :: "'a AdminHandler"
    by (simp add: recordFailedAttemptLocked_def Let_def split: option.split)
  then show "h_sm (recordFailedAttemptFor ip acc now h) = h_sm h" "h_sm (recordFailedAttempt ip now h) = h_sm h"
    by (simp_all add: recordFailedAttemptFor_def recordFailedAttempt_def Let_def)
  show "h_sm (resetAttempts ip h) = h_sm h" by (simp add: resetAttempts_def)
  show "h_sm (snd (auditLog_row ops r a d h)) = h_sm h" by (simp add: auditLog_row_def case_prod_beta split: option.split)
  have "h_sm (snd (claim_loop now ks ms h)) = h_sm h" for ks ms and h :: "'a AdminHandler"
  proof (induction ks arbitrary: ms h)
    case (Cons key keys)
    obtain l h1 where "isAttemptLocked key now h = (l, h1)" by fastforce
    then show ?case using lock [of key h] Cons.IH by (cases l) (simp_all split: option.split)
  qed simp
  then show "h_sm (snd (claimLockoutAudit ip now h)) = h_sm h" by (simp add: claimLockoutAudit_def case_prod_beta del: claim_loop.simps)
  have "h_sm (release_mark m h) = h_sm h" for m and h :: "'a AdminHandler"
    by (simp add: release_mark_def split: option.split)
  then show "h_sm (releaseLockoutAudit marks h) = h_sm h"
    by (induction marks arbitrary: h) (simp_all add: releaseLockoutAudit_def)
qed

lemma admin_refuse:
  "admin_sessions (h_sm (snd (refuse_locked ops r h))) \<subseteq> admin_sessions (h_sm h)"
  "admin_sessions (h_sm (snd (refuse_guess ops r reason msg h))) \<subseteq> admin_sessions (h_sm h)"
proof -
  have row: "h_sm h' = h_sm h" if "auditLog_row ops r a d h = (ok, h')" for a d ok h' and h :: "'a AdminHandler"
    using attempts_sm(5) [of ops r a d h] that by simp
  have claim: "h_sm h' = h_sm h" if "claimLockoutAudit (rq_ip r) (rq_now r) h = (m, h')" for m h'
    using attempts_sm(6) [of "rq_ip r" "rq_now r" h] that by simp
  have form: "admin_sessions (h_sm (snd (showLoginForm r msg' h'))) \<subseteq> admin_sessions (h_sm h)" if "h_sm h' = h_sm h" for msg' h'
    using admin_showLoginForm [of r msg' h'] that by simp
  show "admin_sessions (h_sm (snd (refuse_guess ops r reason msg h))) \<subseteq> admin_sessions (h_sm h)"
  proof (cases "auditLog_row ops r ''login_failed'' [(''reason'', reason)] (recordFailedAttempt (rq_ip r) (rq_now r) h)")
    case fields: (Pair ok h1)
    then have "h_sm h1 = h_sm h" using row [OF fields] by simp
    then show ?thesis using form fields by (cases ok) (simp_all add: refuse_guess_def)
  qed
  show "admin_sessions (h_sm (snd (refuse_locked ops r h))) \<subseteq> admin_sessions (h_sm h)"
  proof (cases "claimLockoutAudit (rq_ip r) (rq_now r) h")
    case fields: (Pair m h1)
    obtain marks claimed where m: "m = (marks, claimed)" by fastforce
    obtain ok h2 where h2: "auditLog_row ops r ''login_lockout'' [(''reason'', ''too many failed attempts'')] h1 = (ok, h2)" by fastforce
    have "h_sm h1 = h_sm h" "h_sm h2 = h_sm h" using claim [OF fields] row [OF h2] by simp_all
    then show ?thesis
      using form fields m h2 by (cases claimed; cases ok) (simp_all add: refuse_locked_def)
  qed
qed

lemma admin_commit_login:
  assumes "commit_login ops r cred h = (resp, h')" and "c \<in> admin_sessions (h_sm h')" and "c \<notin> admin_sessions (h_sm h)"
  shows "resp = SeeOther (adminLoginSuccessRedirect (rq_next r)) \<and>
    fst (lo_InsertAdminAuditLog ops (rq_now r) (adminAuditEntry r ''login_success'' []) (h_store h)) = None \<and>
    h_store h' = snd (lo_InsertAdminAuditLog ops (rq_now r) (adminAuditEntry r ''login_success'' []) (h_store h)) \<and>
    (\<exists>b. rq_rand_session r = Ok b \<and> c = hex_EncodeToString b)"
proof -
  obtain f cookies sm where made: "CreateAdmin (rq_rand_session r) (rq_now r) (aa_PasswordIsBootstrap cred) (h_sm h) = (f, cookies, sm)"
    by (metis prod_cases3)
  show ?thesis
  proof (cases f)
    case (Inl e)
    then have "h_sm h' = h_sm h"
      using assms(1) made
      by (auto simp: commit_login_def CreateAdmin_def createAdmin_def Let_def split: sum.splits prod.splits)
    then show ?thesis using assms(2,3) by simp
  next
    case (Inr sess)
    then obtain sid where sess: "s_ID sess = sid"
        and sm: "sm = (h_sm h)\<lparr>csrf_heap := csrf_heap (h_sm h) @ [[]], sessions := AList.update sid sess (sessions (h_sm h))\<rparr>"
      using made by (auto simp: CreateAdmin_def elim!: createAdmin_Ok)
    have id: "\<exists>b. rq_rand_session r = Ok b \<and> sid = hex_EncodeToString b"
      using made Inr sess
      by (auto simp: CreateAdmin_def createAdmin_def generateSessionID_def new_csrf_def cloneSession_def Let_def split: sum.splits)
    have new: "c' = sid" if "c' \<in> admin_sessions sm" "c' \<notin> admin_sessions (h_sm h)" for c'
      using that by (auto simp: sm admin_sessions_def lookup_session_def update_conv' split: if_splits)
    obtain err st where row: "lo_InsertAdminAuditLog ops (rq_now r) (adminAuditEntry r ''login_success'' []) (h_store h) = (err, st)"
      by fastforce
    show ?thesis
    proof (cases err)
      case None
      then have "resp = SeeOther (adminLoginSuccessRedirect (rq_next r))" "h_sm h' = sm" "h_store h' = st"
        using assms(1) made Inr row by (auto simp: commit_login_def auditLog_row_def resetAttempts_def)
      then show ?thesis using new assms(2,3) id row None by auto
    next
      case (Some e)
      then have "h_sm h' = sm\<lparr>sessions := AList.delete sid (sessions sm)\<rparr>"
        using assms(1) made Inr row sess by (auto simp: commit_login_def auditLog_row_def DeleteByID_def)
      then show ?thesis using new assms(2,3) by (auto simp: admin_delete)
    qed
  qed
qed

lemma audit_entry_store: "h_store (Delete_h r h) = h_store h" "h_store (snd (Get_h r h)) = h_store h" "h_store (snd (isLockedOut ip now h)) = h_store h"
proof -
  show "h_store (Delete_h r h) = h_store h" by (simp add: Delete_h_def case_prod_beta)
  show "h_store (snd (Get_h r h)) = h_store h" by (simp add: Get_h_def case_prod_beta)
  have "h_store (snd (isAttemptLocked k now h)) = h_store h" for k and h :: "'a AdminHandler"
    by (simp add: isAttemptLocked_def split: option.split)
  then show "h_store (snd (isLockedOut ip now h)) = h_store h"
    by (simp add: isLockedOut_def case_prod_beta split: bool.split)
qed

text \<open>The states a login request passes: after the lockout test, after its session was read, after that session was deleted.\<close>

definition after_lock :: "AdminRequest \<Rightarrow> 'st AdminHandler \<Rightarrow> 'st AdminHandler" where
  "after_lock r h = snd (isLockedOut (rq_ip r) (rq_now r) h)"

definition after_get :: "AdminRequest \<Rightarrow> 'st AdminHandler \<Rightarrow> 'st AdminHandler" where
  "after_get r h = snd (Get_h r (after_lock r h))"

definition form_session_of :: "AdminRequest \<Rightarrow> 'st AdminHandler \<Rightarrow> Session option" where
  "form_session_of r h = fst (Get_h r (after_lock r h))"

definition form_accepted :: "AdminRequest \<Rightarrow> 'st AdminHandler \<Rightarrow> bool" where
  "form_accepted r h \<longleftrightarrow>
     rq_form_error r = None \<and> \<not> fst (isLockedOut (rq_ip r) (rq_now r) h) \<and>
     form_session_of r h \<noteq> None \<and> ValidateCSRF (rq_csrf r) (form_session_of r h) (h_sm (after_get r h))"

definition after_form :: "AdminRequest \<Rightarrow> 'st AdminHandler \<Rightarrow> 'st AdminHandler" where
  "after_form r h = Delete_h r (after_get r h)"

lemma after_store [simp]:
  "h_store (after_lock r h) = h_store h" "h_store (after_get r h) = h_store h" "h_store (after_form r h) = h_store h"
  by (simp_all add: after_lock_def after_get_def after_form_def audit_entry_store)

lemma admin_after: "admin_sessions (h_sm (after_get r h)) \<subseteq> admin_sessions (h_sm h)"
    "admin_sessions (h_sm (after_form r h)) \<subseteq> admin_sessions (h_sm h)"
proof -
  show got: "admin_sessions (h_sm (after_get r h)) \<subseteq> admin_sessions (h_sm h)"
    using admin_Get_h [of r "after_lock r h"] by (simp add: after_get_def after_lock_def)
  show "admin_sessions (h_sm (after_form r h)) \<subseteq> admin_sessions (h_sm h)"
    using admin_Delete_h [of r "after_get r h"] got by (auto simp: after_form_def)
qed

lemma processLogin_cases:
  obtains (malformed) s where "rq_form_error r = Some s" "processLogin ops bc r h = (HttpError s ''invalid form payload'', h)"
  | (locked) "rq_form_error r = None" "fst (isLockedOut (rq_ip r) (rq_now r) h)"
      "processLogin ops bc r h = refuse_locked ops r (after_lock r h)"
  | (forged) "rq_form_error r = None" "\<not> fst (isLockedOut (rq_ip r) (rq_now r) h)" "\<not> form_accepted r h"
      "processLogin ops bc r h =
        showLoginForm r ''Invalid request. Please try again.'' (recordFailedAttemptFor (rq_ip r) False (rq_now r) (after_get r h))"
  | (wrong) reason msg where "form_accepted r h"
      "rq_username r \<noteq> ''admin'' \<or> lo_GetAdminAuth ops (h_store h) = Ok None \<or>
       (\<exists>cred. lo_GetAdminAuth ops (h_store h) = Ok (Some cred) \<and> \<not> CheckPassword bc (aa_PasswordHash cred) (rq_password r))"
      "processLogin ops bc r h = refuse_guess ops r reason msg (after_form r h)"
  | (broken) e where "form_accepted r h" "rq_username r = ''admin''" "lo_GetAdminAuth ops (h_store h) = Err e"
      "processLogin ops bc r h = (internal_error, after_form r h)"
  | (right) cred where "form_accepted r h" "rq_username r = ''admin''" "lo_GetAdminAuth ops (h_store h) = Ok (Some cred)"
      "CheckPassword bc (aa_PasswordHash cred) (rq_password r)"
      "processLogin ops bc r h = commit_login ops r cred (after_form r h)"
proof (cases "rq_form_error r")
  case (Some s)
  then show thesis by (intro malformed) (simp_all add: processLogin_def)
next
  case form: None
  obtain l h1 where lock: "isLockedOut (rq_ip r) (rq_now r) h = (l, h1)" by fastforce
  obtain sess h2 where got: "Get_h r h1 = (sess, h2)" by fastforce
  note eqs = lock got after_lock_def after_get_def form_session_of_def form_accepted_def after_form_def
  have st: "h_store (Delete_h r h2) = h_store h" using after_store(3) [of r h] by (simp add: eqs)
  show thesis
  proof (cases l)
    case True
    then show thesis using form lock by (intro locked) (simp_all add: processLogin_def after_lock_def)
  next
    case unlocked: False
    show thesis
    proof (cases "form_accepted r h")
      case False
      then show thesis using form unlocked
        by (intro forged) (auto simp: processLogin_def eqs)
    next
      case ok: True
      then have accepted: "sess \<noteq> None" "ValidateCSRF (rq_csrf r) sess (h_sm h2)" by (auto simp: eqs)
      show thesis
      proof (cases "rq_username r = ''admin''")
        case False
        then show thesis using form unlocked ok accepted
          by (intro wrong [of "''invalid username''" "''Invalid username or password.''"]) (auto simp: processLogin_def eqs)
      next
        case user: True
        show thesis
        proof (cases "lo_GetAdminAuth ops (h_store h)")
          case (Inl e)
          then show thesis using form unlocked ok accepted user st
            by (intro broken [of e]) (auto simp: processLogin_def eqs)
        next
          case (Inr c)
          show thesis
          proof (cases c)
            case None
            then show thesis using Inr form unlocked ok accepted user st
              by (intro wrong [of "''admin account not configured''" "''Admin account has not been configured.''"])
                (auto simp: processLogin_def eqs)
          next
            case (Some cred)
            show thesis
            proof (cases "CheckPassword bc (aa_PasswordHash cred) (rq_password r)")
              case True
              then show thesis using Some Inr form unlocked ok accepted user st
                by (intro right [of cred]) (auto simp: processLogin_def eqs)
            next
              case False
              then show thesis using Some Inr form unlocked ok accepted user st
                by (intro wrong [of "''invalid password''" "''Invalid username or password.''"])
                  (auto simp: processLogin_def eqs)
            qed
          qed
        qed
      qed
    qed
  qed
qed

section \<open>What the lockout leaves to a guesser\<close>

text \<open>The account's attempt record: its count, when it was locked and when it last failed.\<close>

type_synonym attempt_view = "(nat \<times> gotime \<times> gotime) option"

definition view_of :: "loginAttempt \<Rightarrow> nat \<times> gotime \<times> gotime" where
  "view_of a = (la_count a, la_lockedAt a, la_lastFailedAt a)"

definition account_view :: "'st AdminHandler \<Rightarrow> attempt_view" where
  "account_view h = map_option view_of (map_of (loginAttempts h) adminLoginAccountKey)"

text \<open>The record may vanish once the lockout, or the last failure, lies back far enough.\<close>

fun faded :: "gotime \<Rightarrow> attempt_view \<Rightarrow> bool" where
  "faded now None = True"
| "faded now (Some (n, lockedAt, lastFailedAt)) =
     (if n \<ge> loginMaxAttempts then lockedAt \<noteq> 0 \<and> now - lockedAt \<ge> loginLockoutDuration
      else lastFailedAt = 0 \<or> now - lastFailedAt \<ge> loginLockoutDuration)"

definition worn :: "gotime \<Rightarrow> attempt_view \<Rightarrow> attempt_view \<Rightarrow> bool" where
  "worn now v v' \<longleftrightarrow> v' = v \<or> v' = None \<and> faded now v"

lemma worn_refl [simp]: "worn now v v" and worn_trans: "worn now v v' \<Longrightarrow> worn now v' v'' \<Longrightarrow> worn now v v''"
  by (auto simp: worn_def)

fun open_view :: "attempt_view \<Rightarrow> bool" where
  "open_view None = True"
| "open_view (Some (n, lockedAt, lastFailedAt)) = (n < loginMaxAttempts \<or> lockedAt = 0)"

fun fail_view :: "gotime \<Rightarrow> attempt_view \<Rightarrow> attempt_view" where
  "fail_view now None = Some (1, 0, now)"
| "fail_view now (Some (n, lockedAt, lastFailedAt)) =
     (if lockedAt = 0 \<and> lastFailedAt \<noteq> 0 \<and> now - lastFailedAt \<ge> loginLockoutDuration then Some (1, 0, now)
      else Some (n + 1, if n + 1 \<ge> loginMaxAttempts \<and> lockedAt = 0 then now else lockedAt, now))"

lemma lock_one:
  assumes "isAttemptLocked key now h = (l, h')"
  shows "worn now (account_view h) (account_view h')"
    and "key = adminLoginAccountKey \<Longrightarrow> \<not> l \<Longrightarrow> open_view (account_view h')"
  using assms
  by (auto simp: isAttemptLocked_def account_view_def view_of_def worn_def delete_conv' split: option.splits if_splits)

lemma lock_view:
  assumes "isLockedOut ip now h = (l, h')"
  shows "worn now (account_view h) (account_view h')" and "\<not> l \<Longrightarrow> open_view (account_view h')"
proof -
  obtain l1 h1 where one: "isAttemptLocked ip now h = (l1, h1)" by fastforce
  obtain l2 h2 where two: "isAttemptLocked adminLoginAccountKey now h1 = (l2, h2)" by fastforce
  have "(l, h') = (if l1 then (True, h1) else (l2, h2))"
    using assms one two by (simp add: isLockedOut_def split: bool.splits)
  then show "worn now (account_view h) (account_view h')" "\<not> l \<Longrightarrow> open_view (account_view h')"
    using lock_one [OF one] lock_one [OF two] worn_trans by (auto split: if_splits)
qed

lemma fail_one:
  "account_view (recordFailedAttemptLocked key now h) =
   (if key = adminLoginAccountKey then fail_view now (account_view h) else account_view h)"
  by (auto simp: recordFailedAttemptLocked_def account_view_def view_of_def update_conv' loginMaxAttempts_def Let_def
      split: option.split)

lemma fail_views:
  "ip \<noteq> adminLoginAccountKey \<Longrightarrow> account_view (recordFailedAttemptFor ip False now h) = account_view h"
  "ip \<noteq> adminLoginAccountKey \<Longrightarrow> account_view (recordFailedAttempt ip now h) = fail_view now (account_view h)"
  by (simp_all add: recordFailedAttempt_def recordFailedAttemptFor_def fail_one)

lemma claim_view: "claim_loop now keys marks h = (marks', h') \<Longrightarrow> worn now (account_view h) (account_view h')"
proof (induction keys arbitrary: marks h)
  case (Cons key keys)
  obtain l h1 where lock: "isAttemptLocked key now h = (l, h1)" by fastforce
  note worn1 = lock_one(1) [OF lock]
  have mark: "account_view (h1\<lparr>loginAttempts := AList.update key (a\<lparr>la_lockoutAuditedAt := now\<rparr>) (loginAttempts h1)\<rparr>) = account_view h1"
    if "map_of (loginAttempts h) key = Some a" l for a
    using that lock by (auto simp: isAttemptLocked_def account_view_def view_of_def update_conv' split: if_splits)
  show ?case
  proof (cases "map_of (loginAttempts h) key")
    case None
    then show ?thesis using Cons by simp
  next
    case (Some a)
    let ?h = "if l \<and> (la_lockoutAuditedAt a = 0 \<or> la_lockoutAuditedAt a < la_lockedAt a)
      then h1\<lparr>loginAttempts := AList.update key (a\<lparr>la_lockoutAuditedAt := now\<rparr>) (loginAttempts h1)\<rparr> else h1"
    have "\<exists>m. claim_loop now keys m ?h = (marks', h')"
      using Cons.prems Some lock by (cases l) (auto split: if_splits)
    then have "worn now (account_view ?h) (account_view h')" using Cons.IH by blast
    moreover have "account_view ?h = account_view h1" using mark [OF Some] by simp
    ultimately show ?thesis using worn1 worn_trans by auto
  qed
qed simp

lemma release_view: "account_view (releaseLockoutAudit marks h) = account_view h"
proof -
  have "account_view (release_mark m h) = account_view h" for m and h :: "'a AdminHandler"
    by (auto simp: release_mark_def account_view_def view_of_def update_conv' split: option.split)
  then show ?thesis by (induction marks arbitrary: h) (simp_all add: releaseLockoutAudit_def)
qed

lemma same_attempts [simp]:
  "loginAttempts (snd (Get_h r h)) = loginAttempts h" "loginAttempts (Delete_h r h) = loginAttempts h"
  "loginAttempts (snd (auditLog_row ops r a d h)) = loginAttempts h" "loginAttempts (snd (showLoginForm r msg h)) = loginAttempts h"
proof -
  show got: "loginAttempts (snd (Get_h r h)) = loginAttempts h" by (simp add: Get_h_def case_prod_beta)
  show "loginAttempts (Delete_h r h) = loginAttempts h" by (simp add: Delete_h_def case_prod_beta)
  show "loginAttempts (snd (auditLog_row ops r a d h)) = loginAttempts h"
    by (simp add: auditLog_row_def case_prod_beta split: option.split)
  have token: "loginAttempts (snd (adminCSRFToken r s h)) = loginAttempts h" for s and h :: "'a AdminHandler"
    by (simp add: adminCSRFToken_def case_prod_beta split: sum.split)
  obtain sess h1 where h1: "Get_h r h = (sess, h1)" by fastforce
  show "loginAttempts (snd (showLoginForm r msg h)) = loginAttempts h"
    using got h1 token by (auto simp: showLoginForm_def case_prod_beta split: sum.split option.split)
qed

lemma other_views [simp]:
  "account_view (snd (Get_h r h)) = account_view h" "account_view (Delete_h r h) = account_view h"
  "account_view (snd (auditLog_row ops r a d h)) = account_view h" "account_view (snd (showLoginForm r msg h)) = account_view h"
  by (simp_all add: account_view_def)

text \<open>No key occurs twice in the table.\<close>

abbreviation tidy :: "'st AdminHandler \<Rightarrow> bool" where
  "tidy h \<equiv> distinct (map fst (loginAttempts h))"

lemma tidy_lock: "tidy h \<Longrightarrow> tidy (snd (isAttemptLocked key now h))" "tidy h \<Longrightarrow> tidy (snd (isLockedOut ip now h))"
proof -
  show one: "tidy h \<Longrightarrow> tidy (snd (isAttemptLocked key now h))" for key and h :: "'a AdminHandler"
    by (simp add: isAttemptLocked_def distinct_delete split: option.split)
  show "tidy h \<Longrightarrow> tidy (snd (isLockedOut ip now h))"
    using one [of h ip] one [of "snd (isAttemptLocked ip now h)" adminLoginAccountKey]
    by (simp add: isLockedOut_def case_prod_beta split: bool.split)
qed

lemma tidy_fail: "tidy h \<Longrightarrow> tidy (recordFailedAttemptFor ip acc now h)" "tidy h \<Longrightarrow> tidy (recordFailedAttempt ip now h)"
proof -
  have "tidy h \<Longrightarrow> tidy (recordFailedAttemptLocked key now h)" for key and h :: "'a AdminHandler"
    by (simp add: recordFailedAttemptLocked_def Let_def distinct_update split: option.split)
  then show "tidy h \<Longrightarrow> tidy (recordFailedAttemptFor ip acc now h)" "tidy h \<Longrightarrow> tidy (recordFailedAttempt ip now h)"
    by (simp_all add: recordFailedAttemptFor_def recordFailedAttempt_def Let_def)
qed

lemma tidy_claim: "tidy h \<Longrightarrow> tidy (snd (claimLockoutAudit ip now h))" and tidy_release: "tidy h \<Longrightarrow> tidy (releaseLockoutAudit marks h)"
proof -
  have "tidy h \<Longrightarrow> tidy (snd (claim_loop now ks ms h))" for ks ms and h :: "'a AdminHandler"
  proof (induction ks arbitrary: ms h)
    case (Cons key keys)
    obtain l h1 where "isAttemptLocked key now h = (l, h1)" by fastforce
    moreover then have "tidy h1" using tidy_lock(1) [OF Cons.prems, of key now] by simp
    ultimately show ?case using Cons by (cases l) (simp_all add: distinct_update split: option.split)
  qed simp
  then show "tidy h \<Longrightarrow> tidy (snd (claimLockoutAudit ip now h))"
    by (simp add: claimLockoutAudit_def case_prod_beta del: claim_loop.simps)
  have "tidy h \<Longrightarrow> tidy (release_mark m h)" for m and h :: "'a AdminHandler"
    by (simp add: release_mark_def distinct_update split: option.split)
  then show "tidy h \<Longrightarrow> tidy (releaseLockoutAudit marks h)"
    by (induction marks arbitrary: h) (simp_all add: releaseLockoutAudit_def)
qed

text \<open>
  How the record of the account relates to the wrong guesses, newest first, while at most \<open>n\<close>
  admitted requests are under way and \<open>flying\<close> of them still are: an open record counts the last
  guesses, and at most \<open>n - 1\<close> further ones, of requests that were admitted before an earlier
  lockout, are younger than the lockout duration; a locked record was locked by one of the last
  \<open>n - flying\<close> guesses, and only those four before it and such \<open>n - 1\<close> further ones are younger
  than the lockout duration at that moment.
\<close>

fun matches :: "nat \<Rightarrow> gotime \<Rightarrow> nat \<Rightarrow> gotime list \<Rightarrow> attempt_view \<Rightarrow> bool" where
  "matches n clock flying ts None \<longleftrightarrow> (n - 1 < length ts \<longrightarrow> loginLockoutDuration \<le> clock - ts ! (n - 1))"
| "matches n clock flying ts (Some (c, lockedAt, lastFailedAt)) \<longleftrightarrow>
     1 \<le> c \<and> ts \<noteq> [] \<and> lastFailedAt = hd ts \<and>
     (if c < loginMaxAttempts
      then lockedAt = 0 \<and> (c + n - 1 < length ts \<longrightarrow> loginLockoutDuration \<le> clock - ts ! (c + n - 1))
      else \<exists>s < length ts. lockedAt = ts ! s \<and> s + flying < n \<and>
        (s + n + 4 < length ts \<longrightarrow> loginLockoutDuration \<le> lockedAt - ts ! (s + n + 4)))"

definition spread :: "nat \<Rightarrow> gotime list \<Rightarrow> bool" where
  "spread n ts \<longleftrightarrow> (\<forall>i. i + 2 * n + 3 < length ts \<longrightarrow> loginLockoutDuration \<le> ts ! i - ts ! (i + 2 * n + 3))"

definition guesses_ok :: "nat \<Rightarrow> gotime \<Rightarrow> nat \<Rightarrow> gotime list \<Rightarrow> attempt_view \<Rightarrow> bool" where
  "guesses_ok n clock flying ts v \<longleftrightarrow>
     0 < clock \<and> flying \<le> n \<and> (\<forall>t \<in> set ts. 0 < t \<and> t \<le> clock) \<and> sorted (rev ts) \<and>
     matches n clock flying ts v \<and> spread n ts"

lemma sorted_rev_nth: "sorted (rev ts) \<Longrightarrow> i \<le> j \<Longrightarrow> j < length ts \<Longrightarrow> ts ! j \<le> (ts ! i :: int)"
  using sorted_nth_mono [of "rev ts" "length ts - 1 - j" "length ts - 1 - i"] by (simp add: rev_nth)

lemma matches_later:
  assumes "matches n clock flying ts v" and "clock \<le> now" and "flying' \<le> flying"
  shows "matches n now flying' ts v"
proof (cases v)
  case (Some a)
  then obtain c l f where "v = Some (c, l, f)" by (cases a) auto
  with assms show ?thesis by (cases "c < loginMaxAttempts") (fastforce simp: not_less)+
qed (use assms in auto)

lemma guesses_worn:
  assumes "guesses_ok n clock flying ts v" and "clock \<le> now" and "worn now v v'" and "flying' \<le> flying"
  shows "guesses_ok n now flying' ts v'"
proof -
  have sorted: "sorted (rev ts)" and pos: "\<And>t. t \<in> set ts \<Longrightarrow> 0 < t" using assms(1) by (auto simp: guesses_ok_def)
  have later: "matches n now flying' ts v" using assms matches_later by (auto simp: guesses_ok_def)
  have "matches n now flying' ts v'"
  proof (cases "v' = v")
    case False
    then have none: "v' = None" "faded now v" and some: "v \<noteq> None" using assms(3) by (auto simp: worn_def)
    then obtain c l f where v: "v = Some (c, l, f)" by (cases v) auto
    have gap: "loginLockoutDuration \<le> now - ts ! (n - 1)"
      if "loginLockoutDuration \<le> now - ts ! s" "s \<le> n - 1" "n - 1 < length ts" for s
      using sorted_rev_nth [OF sorted that(2,3)] that(1) by simp
    show ?thesis
    proof (cases "c < loginMaxAttempts")
      case True
      then have ts: "ts \<noteq> []" "f = ts ! 0" using later v by (auto simp: hd_conv_nth)
      then have "f \<noteq> 0" using pos [of "hd ts"] by (simp add: hd_conv_nth)
      then show ?thesis using none(2) ts(2) True gap [of 0] by (simp add: v none(1))
    next
      case False
      then obtain s where "s < length ts" "l = ts ! s" "s + flying' < n" using later v by auto
      then show ?thesis using none(2) False gap [of s] by (simp add: v none(1))
    qed
  qed (use later in simp)
  then show ?thesis using assms(1,2,4) by (force simp: guesses_ok_def)
qed

text \<open>One more guess of a request under way.\<close>

lemma matches_fail:
  assumes "matches n now (Suc flying) ts v" and "Suc flying \<le> n" and "sorted (rev ts)"
    and pos: "\<And>t. t \<in> set ts \<Longrightarrow> 0 < t" and "0 < now"
  shows "matches n now flying (now # ts) (fail_view now v)"
proof (cases v)
  case None
  then show ?thesis using assms(1,2) by (cases n) (auto simp: loginMaxAttempts_def)
next
  case (Some a)
  obtain c l f where v: "v = Some (c, l, f)" using Some by (cases a) auto
  then have c: "1 \<le> c" "ts \<noteq> []" "f = ts ! 0" using assms(1) by (auto simp: hd_conv_nth)
  have f: "f \<noteq> 0" using c(2,3) pos [of "hd ts"] by (simp add: hd_conv_nth)
  show ?thesis
  proof (cases "c < loginMaxAttempts")
    case False
    then obtain s where s: "s < length ts" "l = ts ! s" "s + Suc flying < n"
        "s + n + 4 < length ts \<longrightarrow> loginLockoutDuration \<le> l - ts ! (s + n + 4)"
      using assms(1) v by auto
    have "l \<noteq> 0" using s(1,2) pos [OF nth_mem, of s] by simp
    then show ?thesis using False s by (auto simp: v add.commute [of "s + n" 4] intro!: exI [of _ "Suc s"])
  next
    case open': True
    then have l: "l = 0" "c + n - 1 < length ts \<longrightarrow> loginLockoutDuration \<le> now - ts ! (c + n - 1)"
      using assms(1) v by auto
    show ?thesis
    proof (cases "now - f \<ge> loginLockoutDuration")
      case True
      have "loginLockoutDuration \<le> now - ts ! (n - 1)" if "n - 1 < length ts"
        using sorted_rev_nth [OF assms(3) _ that, of 0] True c(3) by simp
      then show ?thesis using True f l(1) assms(2) by (cases n) (auto simp: v loginMaxAttempts_def)
    next
      case False
      show ?thesis
      proof (cases "Suc c < loginMaxAttempts")
        case True
        then show ?thesis using False f l assms(2) c(1) by (cases n) (auto simp: v)
      next
        case last: False
        then have "c = 4" using open' by (simp add: loginMaxAttempts_def)
        then show ?thesis using False f l assms(2) last
          by (cases n) (auto simp: v loginMaxAttempts_def add.commute intro!: exI [of _ 0])
      qed
    qed
  qed
qed

lemma spread_fail:
  assumes "matches n now (Suc flying) ts v" and "sorted (rev ts)" and "\<And>t. t \<in> set ts \<Longrightarrow> t \<le> now"
    and "Suc flying \<le> n" and "spread n ts"
  shows "spread n (now # ts)"
  unfolding spread_def
proof (intro allI impI)
  fix i assume long: "i + 2 * n + 3 < length (now # ts)"
  have gap: "loginLockoutDuration \<le> now - ts ! (2 * n + 2)"
    if "t \<le> now" "loginLockoutDuration \<le> t - ts ! j" "j \<le> 2 * n + 2" "2 * n + 2 < length ts" for t j
    using sorted_rev_nth [OF assms(2) that(3,4)] that(1,2) by simp
  show "loginLockoutDuration \<le> (now # ts) ! i - (now # ts) ! (i + 2 * n + 3)"
  proof (cases i)
    case 0
    then have far: "2 * n + 2 < length ts" using long by simp
    have "loginLockoutDuration \<le> now - ts ! (2 * n + 2)"
    proof (cases v)
      case None
      then show ?thesis using assms(1) far gap [of now "n - 1"] by simp
    next
      case (Some a)
      obtain c l f where v: "v = Some (c, l, f)" using Some by (cases a) auto
      show ?thesis
      proof (cases "c < loginMaxAttempts")
        case True
        then show ?thesis using assms(1,4) far gap [of now "c + n - 1"] by (simp add: v loginMaxAttempts_def)
      next
        case False
        then obtain s where "s < length ts" "l = ts ! s" "s + Suc flying < n"
            "s + n + 4 < length ts \<longrightarrow> loginLockoutDuration \<le> l - ts ! (s + n + 4)"
          using assms(1) v by auto
        then show ?thesis using assms(3) [of l] far gap [of l "s + n + 4"] by simp
      qed
    qed
    then show ?thesis using 0 by (simp add: numeral_3_eq_3)
  next
    case (Suc j)
    then have "j + 2 * n + 3 < length ts" using long by simp
    then have "loginLockoutDuration \<le> ts ! j - ts ! (j + 2 * n + 3)" using assms(5) by (simp only: spread_def)
    then show ?thesis using Suc by (simp add: add.commute)
  qed
qed

lemma guesses_fail:
  assumes "guesses_ok n now (Suc flying) ts v"
  shows "guesses_ok n now flying (now # ts) (fail_view now v)"
proof -
  have ok: "matches n now (Suc flying) ts v" "Suc flying \<le> n" "sorted (rev ts)" "spread n ts" "0 < now"
      "\<And>t. t \<in> set ts \<Longrightarrow> 0 < t" "\<And>t. t \<in> set ts \<Longrightarrow> t \<le> now"
    using assms by (auto simp: guesses_ok_def)
  from matches_fail [OF ok(1,2,3,6,5)] spread_fail [OF ok(1,3,7,2,4)] ok show ?thesis
    by (auto simp: guesses_ok_def sorted_append simp del: matches.simps)
qed

section \<open>Requests side by side\<close>

text \<open>
  The handler takes \<open>loginMu\<close> for every access to the table of attempts and reads the clock inside, so
  concurrent requests interleave between these critical sections, not inside them. A run is a sequence
  of such sections: the lockout test that admits or refuses a request, the claim and the release of the
  audit row of a lockout, the count of a forged form or of a wrong guess, the reset after a sign-in or a
  password change, the clean-up; an admitted request may also end without touching the table. The
  parameter \<open>n\<close> bounds the admitted requests that are under way at one time. A run is described by the
  handler, the clock, the number of admitted requests under way, and the times of the wrong guesses
  counted since the last sign-in, newest first. A request comes from an address, which is no account key.
\<close>

inductive login_run :: "nat \<Rightarrow> 'st AdminHandler \<Rightarrow> gotime \<Rightarrow> nat \<Rightarrow> gotime list \<Rightarrow> bool" for n where
  start: "0 < clock \<Longrightarrow> loginAttempts h = [] \<Longrightarrow> login_run n h clock 0 []"
| admitted: "login_run n h clock flying ts \<Longrightarrow> clock \<le> now \<Longrightarrow> isLockedOut ip now h = (False, h') \<Longrightarrow>
    flying < n \<Longrightarrow> login_run n h' now (Suc flying) ts"
| refused: "login_run n h clock flying ts \<Longrightarrow> clock \<le> now \<Longrightarrow> isLockedOut ip now h = (True, h') \<Longrightarrow>
    login_run n h' now flying ts"
| claimed: "login_run n h clock flying ts \<Longrightarrow> clock \<le> now \<Longrightarrow> claimLockoutAudit ip now h = (claim, h') \<Longrightarrow>
    login_run n h' now flying ts"
| released: "login_run n h clock flying ts \<Longrightarrow> login_run n (releaseLockoutAudit marks h) clock flying ts"
| forged: "login_run n h clock (Suc flying) ts \<Longrightarrow> clock \<le> now \<Longrightarrow> ip \<noteq> adminLoginAccountKey \<Longrightarrow>
    login_run n (recordFailedAttemptFor ip False now h) now flying ts"
| wrong: "login_run n h clock (Suc flying) ts \<Longrightarrow> clock \<le> now \<Longrightarrow> ip \<noteq> adminLoginAccountKey \<Longrightarrow>
    login_run n (recordFailedAttempt ip now h) now flying (now # ts)"
| signed_in: "login_run n h clock (Suc flying) ts \<Longrightarrow> login_run n (resetAttempts ip h) clock flying []"
| dropped: "login_run n h clock (Suc flying) ts \<Longrightarrow> login_run n h clock flying ts"
| clean_up: "login_run n h clock flying ts \<Longrightarrow> clock \<le> now \<Longrightarrow>
    login_run n (cleanupExpiredLoginAttempts now h) now flying ts"
| elsewhere: "login_run n h clock flying ts \<Longrightarrow> clock \<le> now \<Longrightarrow> loginAttempts h' = loginAttempts h \<Longrightarrow>
    login_run n h' now flying ts"

lemma cleanup_view: "distinct (map fst (loginAttempts h)) \<Longrightarrow> worn now (account_view h) (account_view (cleanupExpiredLoginAttempts now h))"
  by (auto simp: worn_def account_view_def cleanupExpiredLoginAttempts_def map_of_filter_val view_of_def attempt_stale_def
      split: option.split if_splits)

lemma guesses_admitted: "guesses_ok n clock flying ts v \<Longrightarrow> open_view v \<Longrightarrow> flying < n \<Longrightarrow> guesses_ok n clock (Suc flying) ts v"
proof -
  assume ok: "guesses_ok n clock flying ts v" "open_view v" "flying < n"
  have "matches n clock (Suc flying) ts v"
  proof (cases v)
    case (Some a)
    obtain c l f where v: "v = Some (c, l, f)" using Some by (cases a) auto
    have "c < loginMaxAttempts"
    proof (rule ccontr)
      assume "\<not> ?thesis"
      then obtain s where "s < length ts" "l = ts ! s" "l = 0" using ok v by (auto simp: guesses_ok_def)
      then show False using ok(1) nth_mem [of s ts] by (auto simp: guesses_ok_def)
    qed
    then show ?thesis using ok(1) by (simp add: v guesses_ok_def)
  qed (use ok in \<open>simp add: guesses_ok_def\<close>)
  then show ?thesis using ok by (simp add: guesses_ok_def del: matches.simps)
qed

lemma login_run_ok: "login_run n h clock flying ts \<Longrightarrow> guesses_ok n clock flying ts (account_view h) \<and> tidy h"
proof (induction rule: login_run.induct)
  case (start clock h)
  then show ?case by (simp add: guesses_ok_def account_view_def spread_def)
next
  case (admitted h clock flying ts now ip h')
  note lock = lock_view [OF admitted(3)]
  have "guesses_ok n now flying ts (account_view h')"
    using guesses_worn [OF _ admitted(2) lock(1) order_refl] admitted.IH by blast
  then show ?case
    using guesses_admitted [OF _ _ admitted(4)] lock(2) tidy_lock(2) [of h ip now] admitted.IH admitted(3) by simp
next
  case (refused h clock flying ts now ip h')
  then show ?case
    using guesses_worn [OF _ refused(2) lock_view(1) [OF refused(3)] order_refl] tidy_lock(2) [of h ip now] by simp
next
  case (claimed h clock flying ts now ip claim h')
  then obtain marks where "claim_loop now [ip, adminLoginAccountKey] [] h = (marks, h')"
    by (auto simp: claimLockoutAudit_def case_prod_beta simp del: claim_loop.simps intro: that [OF prod_eqI])
  from claim_view [OF this] show ?case
    using guesses_worn [OF _ claimed(2) _ order_refl, of n flying ts "account_view h" "account_view h'"]
      tidy_claim [of h ip now] claimed.IH claimed(3) by simp
next
  case (released h clock flying ts marks)
  then show ?case by (simp add: release_view tidy_release)
next
  case (forged h clock flying ts now ip)
  then show ?case
    using guesses_worn [OF _ forged(2) worn_refl, of n "Suc flying" ts "account_view h" flying]
    by (simp add: fail_views tidy_fail)
next
  case (wrong h clock flying ts now ip)
  then show ?case
    using guesses_fail [OF guesses_worn [OF _ wrong(2) worn_refl order_refl], of n flying ts "account_view h"]
    by (simp add: fail_views tidy_fail)
next
  case (signed_in h clock flying ts ip)
  then show ?case
    by (simp add: guesses_ok_def spread_def resetAttempts_def account_view_def delete_conv' distinct_delete)
next
  case (dropped h clock flying ts)
  then show ?case using guesses_worn [OF _ order_refl worn_refl, of n clock "Suc flying" ts "account_view h" flying] by simp
next
  case (clean_up h clock flying ts now)
  then have "guesses_ok n now flying ts (account_view (cleanupExpiredLoginAttempts now h))"
    using guesses_worn [OF _ clean_up(2) cleanup_view [of h now] order_refl] by blast
  moreover have "tidy (cleanupExpiredLoginAttempts now h)"
    using clean_up by (simp add: cleanupExpiredLoginAttempts_def distinct_map_filter)
  ultimately show ?case by blast
next
  case (elsewhere h clock flying ts now h')
  then show ?case using guesses_worn [OF _ elsewhere(2) worn_refl order_refl] by (simp add: account_view_def)
qed

section \<open>A login request is such a run\<close>

definition wrong_guess :: "'st LoginOps \<Rightarrow> Bcrypt \<Rightarrow> AdminRequest \<Rightarrow> 'st AdminHandler \<Rightarrow> bool" where
  "wrong_guess ops bc r h \<longleftrightarrow>
     form_accepted r h \<and>
     (rq_username r \<noteq> ''admin'' \<or> lo_GetAdminAuth ops (h_store h) = Ok None \<or>
      (\<exists>cred. lo_GetAdminAuth ops (h_store h) = Ok (Some cred) \<and> \<not> CheckPassword bc (aa_PasswordHash cred) (rq_password r)))"

definition signed_in :: "'st LoginOps \<Rightarrow> Bcrypt \<Rightarrow> AdminRequest \<Rightarrow> 'st AdminHandler \<Rightarrow> bool" where
  "signed_in ops bc r h \<longleftrightarrow>
     form_accepted r h \<and> \<not> wrong_guess ops bc r h \<and> (\<exists>t. fst (processLogin ops bc r h) = SeeOther t)"

lemma commit_login_run:
  assumes "login_run n h clock (Suc flying) ts" and "clock \<le> rq_now r" and "commit_login ops r cred h = (resp, h')"
  shows "login_run n h' (rq_now r) flying (if \<exists>t. resp = SeeOther t then [] else ts)"
proof -
  have "(\<exists>t. resp = SeeOther t) \<and> (\<exists>h1. h' = resetAttempts (rq_ip r) h1 \<and> loginAttempts h1 = loginAttempts h) \<or>
    (\<nexists>t. resp = SeeOther t) \<and> loginAttempts h' = loginAttempts h"
    using assms(3)
    by (auto simp: commit_login_def auditLog_row_def internal_error_def audit_error_def
        split: sum.splits prod.splits option.splits bool.splits)
  then show ?thesis
  proof (elim disjE conjE exE)
    fix t h1 assume *: "resp = SeeOther t" "h' = resetAttempts (rq_ip r) h1" "loginAttempts h1 = loginAttempts h"
    show ?thesis using login_run.signed_in [OF login_run.elsewhere [OF assms(1,2) *(3)]] * by simp
  next
    assume *: "\<nexists>t. resp = SeeOther t" "loginAttempts h' = loginAttempts h"
    show ?thesis using login_run.dropped [OF login_run.elsewhere [OF assms(1,2) *(2)]] * by simp
  qed
qed

lemma refuse_locked_run:
  assumes "login_run n h clock flying ts" and "clock \<le> rq_now r"
  shows "login_run n (snd (refuse_locked ops r h)) (rq_now r) flying ts"
proof -
  obtain marks some h1 where claim: "claimLockoutAudit (rq_ip r) (rq_now r) h = ((marks, some), h1)" by (metis prod.exhaust)
  obtain ok h2 where row: "auditLog_row ops r ''login_lockout'' [(''reason'', ''too many failed attempts'')] h1 = (ok, h2)" by fastforce
  note run = login_run.claimed [OF assms claim]
  have "loginAttempts h2 = loginAttempts h1"
    using same_attempts(3) [of ops r "''login_lockout''" "[(''reason'', ''too many failed attempts'')]" h1] row by simp
  then have run2: "login_run n h2 (rq_now r) flying ts" using login_run.elsewhere [OF run order_refl] by simp
  show ?thesis
    using claim row login_run.elsewhere [OF run order_refl] login_run.elsewhere [OF run2 order_refl] login_run.released [OF run2]
    by (cases some; cases ok) (simp_all add: refuse_locked_def)
qed

lemma refuse_guess_run:
  assumes "login_run n h clock (Suc flying) ts" and "clock \<le> rq_now r" and "rq_ip r \<noteq> adminLoginAccountKey"
  shows "login_run n (snd (refuse_guess ops r reason msg h)) (rq_now r) flying (rq_now r # ts)"
proof -
  let ?h = "recordFailedAttempt (rq_ip r) (rq_now r) h"
  obtain ok h1 where row: "auditLog_row ops r ''login_failed'' [(''reason'', reason)] ?h = (ok, h1)" by fastforce
  have "loginAttempts h1 = loginAttempts ?h"
    using same_attempts(3) [of ops r "''login_failed''" "[(''reason'', reason)]" ?h] row by simp
  then have "loginAttempts (snd (refuse_guess ops r reason msg h)) = loginAttempts ?h"
    using row by (cases ok) (simp_all add: refuse_guess_def)
  then show ?thesis using login_run.elsewhere [OF login_run.wrong [OF assms] order_refl] by blast
qed

text \<open>
  A whole login request, with its sections one after the other, takes part in a run: it counts one
  guess if it was a wrong one, and clears the guesses if it signed in.
\<close>

lemma processLogin_run:
  assumes "login_run n h clock flying ts" and "flying < n" and "clock \<le> rq_now r" and "rq_ip r \<noteq> adminLoginAccountKey"
  shows "login_run n (snd (processLogin ops bc r h)) (rq_now r) flying
    (if wrong_guess ops bc r h then rq_now r # ts else if signed_in ops bc r h then [] else ts)"
proof -
  obtain l h1 where lock: "isLockedOut (rq_ip r) (rq_now r) h = (l, h1)" by fastforce
  have h1: "after_lock r h = h1" using lock by (simp add: after_lock_def)
  have admitted: "login_run n h2 (rq_now r) (Suc flying) ts" if "\<not> l" "loginAttempts h2 = loginAttempts h1" for h2 :: "'a AdminHandler"
    using login_run.elsewhere [OF login_run.admitted [OF assms(1,3) lock [unfolded eq_False [THEN iffD2, OF that(1)]] assms(2)] order_refl that(2)] .
  have form: "loginAttempts (after_get r h) = loginAttempts h1" "loginAttempts (after_form r h) = loginAttempts h1"
    by (simp_all add: after_get_def after_form_def h1)
  show ?thesis
  proof (cases rule: processLogin_cases [of r ops bc h])
    case (malformed s)
    then show ?thesis using login_run.elsewhere [OF assms(1,3)] by (auto simp: wrong_guess_def signed_in_def form_accepted_def)
  next
    case locked
    then have "login_run n h1 (rq_now r) flying ts" using login_run.refused [OF assms(1,3)] lock by simp
    then show ?thesis using locked refuse_locked_run [of n h1 "rq_now r" flying ts r ops] h1
      by (simp add: wrong_guess_def signed_in_def form_accepted_def)
  next
    case forged
    then have "login_run n (after_get r h) (rq_now r) (Suc flying) ts" using admitted form(1) lock by simp
    from login_run.elsewhere [OF login_run.forged [OF this order_refl assms(4)] order_refl]
    show ?thesis using forged by (simp add: wrong_guess_def signed_in_def)
  next
    case (wrong reason msg)
    then have "login_run n (after_form r h) (rq_now r) (Suc flying) ts"
      using admitted form(2) lock by (simp add: form_accepted_def)
    from refuse_guess_run [OF this order_refl assms(4)] wrong show ?thesis by (auto simp: wrong_guess_def)
  next
    case (broken e)
    then have "login_run n (after_form r h) (rq_now r) (Suc flying) ts"
      using admitted form(2) lock by (simp add: form_accepted_def)
    from login_run.dropped [OF this] broken show ?thesis by (auto simp: wrong_guess_def signed_in_def internal_error_def)
  next
    case (right cred)
    then have run: "login_run n (after_form r h) (rq_now r) (Suc flying) ts"
      using admitted form(2) lock by (simp add: form_accepted_def)
    obtain resp h' where commit: "commit_login ops r cred (after_form r h) = (resp, h')" by fastforce
    have "\<not> wrong_guess ops bc r h" using right by (auto simp: wrong_guess_def)
    then show ?thesis using commit_login_run [OF run order_refl commit] right(1,5) commit by (simp add: signed_in_def)
  qed
qed

section \<open>After a password change\<close>

definition change_policy_ok :: "AdminRequest \<Rightarrow> bool" where
  "change_policy_ok r \<longleftrightarrow>
     rq_new_password r = rq_confirm_password r \<and> 12 \<le> RuneCountInString (rq_new_password r) \<and> length (rq_new_password r) \<le> 72"

lemma admin_rotate:
  assumes "rotate_sessions r h = (resp, h')" and "c \<in> admin_sessions (h_sm h')"
  shows "\<exists>b. rq_rand_session r = Ok b \<and> c = hex_EncodeToString b"
proof -
  obtain f cookies sm where made: "CreateExclusiveAdmin (rq_rand_session r) (rq_now r) (h_sm h) = (f, cookies, sm)"
    by (metis prod_cases3)
  show ?thesis
  proof (cases f)
    case (Inl e)
    then have "h_sm h' = deleteAdminSessionsLocked sm"
      using assms(1) made by (auto simp: rotate_sessions_def DeleteAllAdminSessions_def resetAttempts_def)
    then show ?thesis using assms(2) by (simp add: admin_filter)
  next
    case (Inr sess)
    then have "h_sm h' = sm" using assms(1) made by (auto simp: rotate_sessions_def resetAttempts_def)
    moreover obtain b where b: "rq_rand_session r = Ok b"
        and sm: "sm = (deleteAdminSessionsLocked ((h_sm h)\<lparr>csrf_heap := csrf_heap (h_sm h) @ [[]]\<rparr>))
          \<lparr>sessions := AList.update (hex_EncodeToString b) sess (sessions (deleteAdminSessionsLocked ((h_sm h)\<lparr>csrf_heap := csrf_heap (h_sm h) @ [[]]\<rparr>)))\<rparr>"
      using made Inr
      by (auto simp: CreateExclusiveAdmin_def createAdmin_def generateSessionID_def new_csrf_def cloneSession_def Let_def
          split: sum.splits)
    moreover have "d = hex_EncodeToString b" if "d \<in> admin_sessions sm" for d
    proof (rule ccontr)
      assume "d \<noteq> hex_EncodeToString b"
      with that have "d \<in> admin_sessions (deleteAdminSessionsLocked ((h_sm h)\<lparr>csrf_heap := csrf_heap (h_sm h) @ [[]]\<rparr>))"
        unfolding sm by (simp add: admin_sessions_def)
      then show False by (simp add: admin_filter)
    qed
    ultimately show ?thesis using assms(2) by auto
  qed
qed

text \<open>The answers from which the change is known to have been committed.\<close>

definition committed :: "admin_response \<Rightarrow> bool" where
  "committed resp \<longleftrightarrow> (\<exists>t. resp = SeeOther t) \<or> (\<exists>n m. resp = HttpError n m)"

lemma committed_simps [simp]: "\<not> committed (SettingsError m)" "\<not> committed GateClosed"
  by (simp_all add: committed_def)

lemma password_change_committed:
  assumes "HandlePasswordChange ops bc path label r h = (resp, h')" and "committed resp"
  shows "\<exists>h0 cred hash. lo_GetAdminAuth ops (h_store h0) = Ok (Some cred) \<and>
    CheckPassword bc (aa_PasswordHash cred) (rq_password r) \<and> \<not> CheckPassword bc (aa_PasswordHash cred) (rq_new_password r) \<and>
    change_policy_ok r \<and> HashPassword bc (rq_new_password r) = Ok hash \<and>
    fst (lo_ChangeAdminPasswordWithAudit ops (rq_now r) hash (aa_PasswordHash cred) (adminAuditEntry r ''password_change'' []) (h_store h0)) = None \<and>
    rotate_sessions r (h0\<lparr>h_store := snd (lo_ChangeAdminPasswordWithAudit ops (rq_now r) hash (aa_PasswordHash cred)
      (adminAuditEntry r ''password_change'' []) (h_store h0))\<rparr>) = (resp, h')"
proof -
  obtain s h1 where gate: "requireAdminPost ops path label \<lparr>csrfAction = ''password_change'', bootstrapRedirectPath = []\<rparr> r h = (s, h1)"
    by fastforce
  obtain l h2 where lock: "isLockedOut (rq_ip r) (rq_now r) h1 = (l, h2)" by fastforce
  note step = assms(1) [unfolded HandlePasswordChange_def gate prod.case]
  from step assms(2) obtain sess where s: "s = Some sess" by (cases s) auto
  obtain marks claimed h3 where claim: "claimLockoutAudit (rq_ip r) (rq_now r) h2 = ((marks, claimed), h3)" by (metis prod.exhaust)
  have "\<not> l"
    using step assms(2) s lock claim
    by (cases claimed) (auto split: bool.splits prod.splits)
  note step = step [unfolded s option.case lock prod.case, simplified this bool.case]
  have policy: "change_policy_ok r" and auth: "\<exists>cred. lo_GetAdminAuth ops (h_store h2) = Ok (Some cred)"
    using step assms(2)
    by (auto simp: change_policy_ok_def ValidateAdminPassword_def MinAdminPasswordLength_def MaxAdminPasswordBytes_def
        split: if_splits sum.splits option.splits)
  then obtain cred where cred: "lo_GetAdminAuth ops (h_store h2) = Ok (Some cred)" by blast
  have checked: "CheckPassword bc (aa_PasswordHash cred) (rq_password r)" "\<not> CheckPassword bc (aa_PasswordHash cred) (rq_new_password r)"
    using step assms(2) cred by (auto split: if_splits bool.splits prod.splits)
  have "\<exists>hash. HashPassword bc (rq_new_password r) = Ok hash"
    using step assms(2) cred checked by (auto split: if_splits sum.splits)
  then obtain hash where hash: "HashPassword bc (rq_new_password r) = Ok hash" by blast
  obtain e st where change: "lo_ChangeAdminPasswordWithAudit ops (rq_now r) hash (aa_PasswordHash cred)
      (adminAuditEntry r ''password_change'' []) (h_store h2) = (e, st)" by fastforce
  have "e = None" "rotate_sessions r (h2\<lparr>h_store := st\<rparr>) = (resp, h')"
    using step assms(2) cred checked hash change
    by (cases e; auto split: if_splits change_error.splits)+
  then show ?thesis using policy cred checked hash change by (intro exI [of _ h2] exI [of _ cred] exI [of _ hash]) simp
qed

section \<open>Properties\<close>

text \<open>
  C18: Signing in takes the credentials, and leaves a trace. If handling a login request leaves an admin
  session under a cookie that had none, then neither the client nor the account was locked out, the form
  carried the CSRF token of the session of its own cookie, the name was that of the administrator,
  the password matched the stored hash, the success is in the audit log of the store, and the
  cookie is the fresh random one. A login whose audit row could not be written leaves no session.
\<close>

theorem login_needs_credentials:
  assumes "processLogin ops bc r h = (resp, h')"
    and "c \<in> admin_sessions (h_sm h')" and "c \<notin> admin_sessions (h_sm h)"
  shows "\<not> fst (isLockedOut (rq_ip r) (rq_now r) h) \<and>
    (\<exists>sess. fst (Get (rq_now r) (rq_cookie r) (h_sm h)) = Some sess \<and>
      ValidateCSRF (rq_csrf r) (Some sess) (snd (Get (rq_now r) (rq_cookie r) (h_sm h)))) \<and>
    rq_username r = ''admin'' \<and>
    (\<exists>cred. lo_GetAdminAuth ops (h_store h) = Ok (Some cred) \<and> CheckPassword bc (aa_PasswordHash cred) (rq_password r)) \<and>
    lo_InsertAdminAuditLog ops (rq_now r) (adminAuditEntry r ''login_success'' []) (h_store h) = (None, h_store h') \<and>
    (\<exists>b. rq_rand_session r = Ok b \<and> c = hex_EncodeToString b)"
proof (cases rule: processLogin_cases [of r ops bc h])
  case (right cred)
  have "c \<notin> admin_sessions (h_sm (after_form r h))" using admin_after(2) [of r h] assms(3) by blast
  note commit = admin_commit_login [OF right(5) [unfolded assms(1), symmetric] assms(2) this]
  have "h_sm (after_lock r h) = h_sm h" by (simp add: after_lock_def)
  then have "form_session_of r h = fst (Get (rq_now r) (rq_cookie r) (h_sm h))" "h_sm (after_get r h) = snd (Get (rq_now r) (rq_cookie r) (h_sm h))"
    by (simp_all add: form_session_of_def after_get_def Get_h_def case_prod_beta)
  then have "\<exists>sess. fst (Get (rq_now r) (rq_cookie r) (h_sm h)) = Some sess \<and>
      ValidateCSRF (rq_csrf r) (Some sess) (snd (Get (rq_now r) (rq_cookie r) (h_sm h)))"
    using right(1) by (auto simp: form_accepted_def)
  then show ?thesis using right commit by (auto simp: form_accepted_def prod_eq_iff)
next
  case locked
  then have "h' = snd (refuse_locked ops r (after_lock r h))" using assms(1) by (metis snd_conv)
  then show ?thesis using admin_refuse(1) [of ops r "after_lock r h"] assms(2,3) by (auto simp: after_lock_def)
next
  case forged
  then have "h' = snd (showLoginForm r ''Invalid request. Please try again.''
      (recordFailedAttemptFor (rq_ip r) False (rq_now r) (after_get r h)))" using assms(1) by (metis snd_conv)
  then show ?thesis
    using admin_showLoginForm [of r "''Invalid request. Please try again.''" "recordFailedAttemptFor (rq_ip r) False (rq_now r) (after_get r h)"]
      admin_after(1) [of r h] assms(2,3) by auto
next
  case (wrong reason msg)
  then have "h' = snd (refuse_guess ops r reason msg (after_form r h))" using assms(1) by (metis snd_conv)
  then show ?thesis using admin_refuse(2) [of ops r reason msg "after_form r h"] admin_after(2) [of r h] assms(2,3) by auto
qed (use assms admin_after(2) [of r h] in auto)


text \<open>
  C19: A committed password change ends every other session. If the change was committed, the old
  password had been given, the new one differs from it and meets the policy, and afterwards the
  guard of the admin routes lets nobody through, at any time, but the holder of the fresh random
  cookie; if no fresh session could be made it lets nobody through at all.
\<close>

theorem password_change_ends_sessions:
  assumes "HandlePasswordChange ops bc path label r h = (resp, h')"
    and "(\<exists>t. resp = SeeOther t) \<or> (\<exists>n m. resp = HttpError n m)"
  shows "(\<exists>st cred. lo_GetAdminAuth ops st = Ok (Some cred) \<and> CheckPassword bc (aa_PasswordHash cred) (rq_password r) \<and>
      \<not> CheckPassword bc (aa_PasswordHash cred) (rq_new_password r)) \<and>
    12 \<le> RuneCountInString (rq_new_password r) \<and> length (rq_new_password r) \<le> 72 \<and>
    (\<forall>now p c. isAdminSessionPath p \<longrightarrow> p \<noteq> ''/admin/login'' \<longrightarrow> fst (RequireAdminSession now p (Some c) (h_sm h')) \<longrightarrow>
      (\<exists>b. rq_rand_session r = Ok b \<and> c = hex_EncodeToString b))"
proof -
  obtain h0 cred hash where facts: "lo_GetAdminAuth ops (h_store h0) = Ok (Some cred)"
      "CheckPassword bc (aa_PasswordHash cred) (rq_password r)" "\<not> CheckPassword bc (aa_PasswordHash cred) (rq_new_password r)"
      "change_policy_ok r"
    and rotated: "rotate_sessions r (h0\<lparr>h_store := snd (lo_ChangeAdminPasswordWithAudit ops (rq_now r) hash (aa_PasswordHash cred)
      (adminAuditEntry r ''password_change'' []) (h_store h0))\<rparr>) = (resp, h')"
    using password_change_committed [OF assms(1)] assms(2) by (auto simp: committed_def)
  have "c \<in> admin_sessions (h_sm h')"
    if "isAdminSessionPath p" "p \<noteq> ''/admin/login''" "fst (RequireAdminSession now p (Some c) (h_sm h'))" for now p c
    using that
    by (auto simp: RequireAdminSession_def Get_def admin_sessions_def lookup_session_def Let_def cloneSession_def
        split: prod.splits option.splits if_splits)
  then show ?thesis using facts admin_rotate [OF rotated] by (auto simp: change_policy_ok_def)
qed

text \<open>A store with the password of the administrator, and a request that presents the form it was given.\<close>

definition plain_bcrypt :: Bcrypt where
  "plain_bcrypt = \<lparr>CheckPassword = (\<lambda>hash pw. hash = pw), HashPassword = Ok\<rparr>"

definition ready_handler :: "Store AdminHandler" where
  "ready_handler =
     \<lparr>h_store = snd (UpsertAdminAuth 1 ''correct horse'' False NewStore),
      h_sm = NewSessionManagerWithIdleTimeout 0 0 True, loginAttempts = [], h_refs = 0, h_cookies = []\<rparr>"

definition plain_request :: AdminRequest where
  "plain_request =
     \<lparr>rq_now = 10, rq_ip = ''192.0.2.1'', rq_correlation = [], rq_cookie = Some ''66'', rq_form_error = None, rq_csrf = ''74'',
      rq_username = ''admin'', rq_password = ''correct horse'', rq_next = [], rq_new_password = ''battery staple'',
      rq_confirm_password = ''battery staple'', rq_rand_session = Ok ''s'', rq_rand_form = Ok ''f'', rq_rand_token = Ok ''t''\<rparr>"

definition form_shown :: "Store AdminHandler" where
  "form_shown = snd (showLoginForm plain_request [] ready_handler)"

definition logged_in :: "Store AdminHandler" where
  "logged_in = snd (processLogin (dev_login_ops example_devenv) plain_bcrypt plain_request form_shown)"

theorem login_needs_credentials_witness:
  "''73'' \<in> admin_sessions (h_sm logged_in) \<and> CheckPassword plain_bcrypt ''correct horse'' ''correct horse'' \<and>
   lo_InsertAdminAuditLog (dev_login_ops example_devenv) 10 (adminAuditEntry plain_request ''login_success'' []) (h_store form_shown)
     = (None, h_store logged_in)"
proof -
  have in': "map_option s_Admin (map_of (sessions (h_sm logged_in)) ''73'') = Some True" by code_simp
  have out: "map_of (sessions (h_sm form_shown)) ''73'' = None" by code_simp
  have new: "''73'' \<in> admin_sessions (h_sm logged_in)" "''73'' \<notin> admin_sessions (h_sm form_shown)"
    using in' out by (auto simp: admin_sessions_def lookup_session_def)
  obtain resp where "processLogin (dev_login_ops example_devenv) plain_bcrypt plain_request form_shown = (resp, logged_in)"
    unfolding logged_in_def by (metis prod.collapse)
  from login_needs_credentials [OF this new] new show ?thesis by (simp add: plain_request_def plain_bcrypt_def)
qed

text \<open>Five wrong guesses at once and a sixth when the lockout is over.\<close>

definition quiet_ops :: "unit LoginOps" where
  "quiet_ops =
     \<lparr>lo_GetAdminAuth = (\<lambda>st. Ok None), lo_InsertAdminAuditLog = (\<lambda>now e st. (None, st)),
      lo_ChangeAdminPasswordWithAudit = (\<lambda>now new old e st. (Some AuthConflict, st)),
      lo_UpsertAdminAuthWithAudit = (\<lambda>now hash boot e st. (None, st))\<rparr>"

definition quiet_handler :: "unit AdminHandler" where
  "quiet_handler = snd (showLoginForm plain_request []
     \<lparr>h_store = (), h_sm = NewSessionManagerWithIdleTimeout 0 0 True, loginAttempts = [], h_refs = 0, h_cookies = []\<rparr>)"

definition guess_at :: "gotime \<Rightarrow> unit AdminHandler \<Rightarrow> unit AdminHandler" where
  "guess_at t h = snd (processLogin quiet_ops plain_bcrypt (plain_request\<lparr>rq_now := t, rq_username := ''root''\<rparr>) h)"

definition guess_reaches :: "gotime \<Rightarrow> unit AdminHandler \<Rightarrow> bool" where
  "guess_reaches t h = form_accepted (plain_request\<lparr>rq_now := t, rq_username := ''root''\<rparr>) h"

lemma guess_step:
  assumes "login_run 1 h clock 0 ts" and "clock \<le> t" and "guess_reaches t h"
  shows "login_run 1 (guess_at t h) t 0 (t # ts)"
proof -
  let ?r = "plain_request\<lparr>rq_now := t, rq_username := ''root''\<rparr>"
  have "wrong_guess quiet_ops plain_bcrypt ?r h" using assms(3) by (simp add: wrong_guess_def guess_reaches_def)
  with processLogin_run [OF assms(1), of ?r quiet_ops plain_bcrypt] assms(2) show ?thesis
    by (simp add: guess_at_def plain_request_def adminLoginAccountKey_def)
qed

lemma guess_accepted:
  "guess_reaches 10 quiet_handler"
  "guess_reaches 10 (guess_at 10 quiet_handler)"
  "guess_reaches 10 (guess_at 10 (guess_at 10 quiet_handler))"
  "guess_reaches 10 (guess_at 10 (guess_at 10 (guess_at 10 quiet_handler)))"
  "guess_reaches 10 (guess_at 10 (guess_at 10 (guess_at 10 (guess_at 10 quiet_handler))))"
  "guess_reaches 900000000010 (guess_at 10 (guess_at 10 (guess_at 10 (guess_at 10 (guess_at 10 quiet_handler)))))"
  by code_simp+


text \<open>
  The test and the count are separate critical sections: \<open>n\<close> requests that were all admitted before
  the first of them was counted make \<open>n\<close> guesses at one instant, whatever \<open>n\<close> is.
\<close>

lemma admitted_together: "k \<le> n \<Longrightarrow> loginAttempts h = [] \<Longrightarrow> 0 < t \<Longrightarrow> login_run n h t k []"
proof (induction k)
  case (Suc k)
  then have "isLockedOut ip t h = (False, h)" for ip by (simp add: isLockedOut_def isAttemptLocked_def)
  with login_run.admitted [OF Suc.IH [OF _ Suc.prems(2,3)] order_refl] Suc.prems(1) show ?case by simp
qed (simp add: login_run.start)

lemma counted_together:
  "login_run n (h :: 'st AdminHandler) t (m + flying) ts \<Longrightarrow> ip \<noteq> adminLoginAccountKey \<Longrightarrow>
   \<exists>h' :: 'st AdminHandler. login_run n h' t flying (replicate m t @ ts)"
proof (induction m arbitrary: h ts)
  case (Suc m)
  from login_run.wrong [of n h t "m + flying" ts, OF _ order_refl Suc.prems(2)] Suc.prems(1)
  have "login_run n (recordFailedAttempt ip t h) t (m + flying) (t # ts)" by simp
  from Suc.IH [OF this Suc.prems(2)] show ?case by (simp add: replicate_app_Cons_same)
qed auto

lemma parallel_guesses:
  assumes "loginAttempts (h :: 'st AdminHandler) = []" and "0 < t" and "ip \<noteq> adminLoginAccountKey"
  shows "\<exists>h' :: 'st AdminHandler. login_run n h' t 0 (replicate n t)"
  using counted_together [of n h t n 0 "[]" ip] admitted_together [OF order_refl assms(1,2)] assms(3) by simp

text \<open>A change of the password by the administrator who logged in above.\<close>

definition settings_shown :: "Store AdminHandler" where
  "settings_shown =
     (case Get_h (plain_request\<lparr>rq_cookie := Some ''73''\<rparr>) logged_in of
        (Some sess, h) \<Rightarrow> snd (adminCSRFToken plain_request sess h) | (None, h) \<Rightarrow> h)"

definition change_request :: AdminRequest where
  "change_request = plain_request\<lparr>rq_cookie := Some ''73'', rq_rand_session := Ok ''n''\<rparr>"

definition password_changed :: "admin_response \<times> Store AdminHandler" where
  "password_changed =
     HandlePasswordChange (dev_login_ops example_devenv) plain_bcrypt ''/admin/settings/password'' ''/admin/settings'' change_request settings_shown"

theorem password_change_ends_sessions_witness:
  "''73'' \<in> admin_sessions (h_sm settings_shown) \<and>
   \<not> fst (RequireAdminSession 11 ''/admin/keys'' (Some ''73'') (h_sm (snd password_changed)))"
proof -
  have in': "map_option s_Admin (map_of (sessions (h_sm settings_shown)) ''73'') = Some True" by code_simp
  have done': "fst password_changed = SeeOther ''/admin/settings?msg=admin.settings.flash.password_changed''" by code_simp
  have path: "isAdminSessionPath ''/admin/keys''" by code_simp
  have "HandlePasswordChange (dev_login_ops example_devenv) plain_bcrypt ''/admin/settings/password'' ''/admin/settings''
      change_request settings_shown = (SeeOther ''/admin/settings?msg=admin.settings.flash.password_changed'', snd password_changed)"
    using done' by (simp add: password_changed_def prod_eq_iff)
  from password_change_ends_sessions [OF this] path
  have "fst (RequireAdminSession 11 ''/admin/keys'' (Some ''73'') (h_sm (snd password_changed))) \<Longrightarrow> ''73'' = hex_EncodeToString ''n''"
    by (auto simp: change_request_def)
  moreover have "''73'' \<noteq> hex_EncodeToString ''n''" by code_simp
  ultimately show ?thesis using in' by (auto simp: admin_sessions_def lookup_session_def)
qed

end
