(* ===== verification/CheckApi.thy ===== *)
theory CheckApi
  imports WholeStore FeedManager
begin

text \<open>
  The check of a package inventory by the server, \<open>POST /api/v1/check\<close>
  (\<open>internal/api/v1/handler.go\<close>), with the cache of its responses (\<open>check_response_cache.go\<close>).

  The handler reads the request, normalizes and validates the packages, looks up the idempotency key in
  the scan log, collects the findings of all packages, decides whether they block, records the
  scan and answers. The store is reached through an interface whose operations can fail; the model takes
  it as a record and writes every failure branch, and the in-memory store is an instance. A request
  carries what the HTTP layer delivers: the decoded body or the error of decoding it, the headers the
  handler reads, and the readings of the clock. SHA-256, the encoding of a result and the redaction of
  log values are parameters. The four lookups of a check run concurrently and only read; what they
  return does not depend on their order.

  The lemmas say what an answer contains, that a key is used for one request only, and that the cache
  stays within its bound.
\<close>

section \<open>Requests and results\<close>

definition MaxPackagesPerCheck :: nat where
  "MaxPackagesPerCheck = 5000"

definition MaxScanPackageNameCodePoints :: nat where
  "MaxScanPackageNameCodePoints = 512"

definition MaxScanPackageVersionCodePoints :: nat where
  "MaxScanPackageVersionCodePoints = 256"

definition maxIdempotencyKeyLength :: nat where
  "maxIdempotencyKeyLength = 128"

abbreviation ScanModeAuto :: gostring where "ScanModeAuto \<equiv> ''auto''"
abbreviation ScanModeRemote :: gostring where "ScanModeRemote \<equiv> ''remote''"
abbreviation ScanModeLocal :: gostring where "ScanModeLocal \<equiv> ''local''"
abbreviation ScanFeedStatusHealthy :: gostring where "ScanFeedStatusHealthy \<equiv> ''healthy''"
abbreviation ScanFeedStatusDegraded :: gostring where "ScanFeedStatusDegraded \<equiv> ''degraded''"
abbreviation ScanFeedStatusError :: gostring where "ScanFeedStatusError \<equiv> ''error''"

record ScanResult =
  rs_ScanID :: gostring
  rs_Mode :: gostring
  rs_ScannedAt :: gotime
  rs_DurationMs :: int
  rs_PackagesScanned :: nat
  rs_FindingsCount :: nat
  rs_FindingsBlocking :: bool
  rs_BlockThreshold :: Severity
  rs_FeedStatus :: gostring
  rs_ScanError :: gostring
  rs_DBAgeDays :: "int option"
  rs_DBStale :: bool
  rs_Summary :: ScanSummary
  rs_Findings :: "Finding list"
  rs_ParseErrors :: "gostring list"
  rs_FindingsTruncated :: bool
  rs_FeedVersions :: "(gostring \<times> gostring) list"
  rs_ManualAdvisoriesCount :: nat

record checkPackage =
  wp_Name :: gostring
  wp_Version :: gostring
  wp_Ecosystem :: gostring

record checkRequest =
  wr_Packages :: "checkPackage list"
  wr_Repo :: "gostring option"

record ScanRequest =
  sq_Packages :: "Package list"
  sq_Repo :: "gostring option"

text \<open>
  A request: what the HTTP layer makes of it, the identifier \<open>generateID\<close> would draw, the clock at its
  start and at every later reading, and whether its own context is still alive when a lookup times out.
\<close>

record CheckHTTP =
  cq_Method :: gostring
  cq_ContentTypeError :: "gostring option"
  cq_Body :: "(gostring, checkRequest) result"
  cq_IdempotencyHeader :: gostring
  cq_UserAgent :: gostring
  cq_ClientIP :: gostring
  cq_CorrelationID :: gostring
  cq_APIKeyIdentity :: "(int \<times> gostring) option"
  cq_NewID :: gostring
  cq_Start :: gotime
  cq_Now :: gotime
  cq_Alive :: bool

record CheckEnv =
  ce_sha256Hex :: "gostring \<Rightarrow> gostring"
  ce_encodeResult :: "ScanResult \<Rightarrow> (gostring, gostring) result"
  ce_formatTime :: "gotime \<Rightarrow> gostring"
  ce_boundedDiagnostic :: "gostring \<Rightarrow> nat \<Rightarrow> gostring"

datatype check_error = DeadlineExceeded | LookupFailed gostring

record 'st CheckOps =
  co_FindVulnerabilitiesBatch :: "db_PackageQuery list \<Rightarrow> 'st \<Rightarrow> (check_error, Finding list) result"
  co_FindMaliciousBatch :: "db_PackageQuery list \<Rightarrow> 'st \<Rightarrow> (check_error, Finding list) result"
  co_FindReputationFindingsBatch :: "db_PackageQuery list \<Rightarrow> gostring \<Rightarrow> 'st \<Rightarrow> (check_error, Finding list) result"
  co_FindLifecycleFindingsBatch :: "db_PackageQuery list \<Rightarrow> gotime \<Rightarrow> 'st \<Rightarrow> (check_error, Finding list) result"
  co_ListFeedSyncStatuses :: "'st \<Rightarrow> (check_error, FeedSyncStatus list) result"
  co_GetScanLogByIdempotencyKey :: "gostring \<Rightarrow> 'st \<Rightarrow> (check_error, ScanLogEntry option) result"
  co_InsertScanLog :: "ScanLogEntry \<Rightarrow> 'st \<Rightarrow> check_error option \<times> 'st"

section \<open>The response cache\<close>

record cachedCheckResponse =
  cr_statusCode :: nat
  cr_durationMs :: int
  cr_body :: gostring

record checkResponseCacheEntry =
  ce_response :: cachedCheckResponse
  ce_expires :: gotime
  ce_stored :: gotime

record checkResponseCache =
  cc_ttl :: duration
  cc_maxEntries :: int
  cc_entries :: "(gostring \<times> checkResponseCacheEntry) list"

definition newCheckResponseCache :: "duration \<Rightarrow> int \<Rightarrow> checkResponseCache option" where
  "newCheckResponseCache ttl maxEntries =
     (if ttl \<le> 0 \<or> maxEntries \<le> 0 then None
      else Some \<lparr>cc_ttl = ttl, cc_maxEntries = maxEntries, cc_entries = []\<rparr>)"

definition cache_Get :: "gotime \<Rightarrow> gostring \<Rightarrow> checkResponseCache \<Rightarrow> cachedCheckResponse option \<times> checkResponseCache" where
  "cache_Get now key c =
     (if key = [] then (None, c)
      else case map_of (cc_entries c) key of
             None \<Rightarrow> (None, c)
           | Some entry \<Rightarrow>
               if \<not> ce_expires entry > now then (None, c\<lparr>cc_entries := AList.delete key (cc_entries c)\<rparr>)
               else (Some (ce_response entry), c))"

definition deleteExpiredLocked :: "gotime \<Rightarrow> checkResponseCache \<Rightarrow> checkResponseCache" where
  "deleteExpiredLocked now c = c\<lparr>cc_entries := filter (\<lambda>(k, e). ce_expires e > now) (cc_entries c)\<rparr>"

text \<open>The loop over the map, in the order of the list; no key is empty.\<close>

fun oldest_loop :: "gostring \<Rightarrow> gotime \<Rightarrow> (gostring \<times> checkResponseCacheEntry) list \<Rightarrow> gostring" where
  "oldest_loop oldestKey oldestTime [] = oldestKey"
| "oldest_loop oldestKey oldestTime ((key, entry) # entries) =
     (if oldestKey = [] \<or> ce_stored entry < oldestTime then oldest_loop key (ce_stored entry) entries
      else oldest_loop oldestKey oldestTime entries)"

definition deleteOldestLocked :: "checkResponseCache \<Rightarrow> checkResponseCache" where
  "deleteOldestLocked c =
     (let oldestKey = oldest_loop [] 0 (cc_entries c) in
      if oldestKey \<noteq> [] then c\<lparr>cc_entries := AList.delete oldestKey (cc_entries c)\<rparr> else c)"

definition cache_Set :: "gotime \<Rightarrow> gostring \<Rightarrow> cachedCheckResponse \<Rightarrow> checkResponseCache \<Rightarrow> checkResponseCache" where
  "cache_Set now key response c =
     (if key = [] \<or> cr_statusCode response < 200 \<or> cr_statusCode response \<ge> 300 \<or> cr_body response = [] then c
      else let c = deleteExpiredLocked now c;
               c = (if map_of (cc_entries c) key = None \<and> int (length (cc_entries c)) \<ge> cc_maxEntries c
                    then deleteOldestLocked c else c)
        in c\<lparr>cc_entries := AList.update key
               \<lparr>ce_response = response, ce_expires = now + cc_ttl c, ce_stored = now\<rparr> (cc_entries c)\<rparr>)"

definition checkResponseCacheKey :: "gostring \<Rightarrow> gostring \<Rightarrow> gostring" where
  "checkResponseCacheKey storedIdempotencyKey requestDigest =
     (if storedIdempotencyKey = [] \<or> requestDigest = [] then []
      else storedIdempotencyKey @ [CHR 0x00] @ requestDigest)"

section \<open>The handler\<close>

text \<open>
  The calls of the reputation scheduler, which works in the background, are kept as a list. \<open>ch_runtime\<close>
  is the threshold of the runtime settings, if there are any.
\<close>

record 'st CheckHandler =
  ch_store :: 'st
  ch_blockThreshold :: Severity
  ch_runtime :: "gostring option"
  ch_reversingLabsEnabled :: bool
  ch_scheduler :: bool
  ch_identityMode :: gostring
  ch_cache :: "checkResponseCache option"
  ch_scheduled :: "(Package list \<times> Finding list) list"

abbreviation ScanLogIdentityModeFull :: gostring where "ScanLogIdentityModeFull \<equiv> ''full''"
abbreviation ScanLogIdentityModeNone :: gostring where "ScanLogIdentityModeNone \<equiv> ''none''"

definition defaultBlockThreshold :: Severity where
  "defaultBlockThreshold = SeverityCritical"

definition parseBlockThreshold :: "gostring \<Rightarrow> Severity" where
  "parseBlockThreshold raw = (case ParseBlockThreshold raw of Some threshold \<Rightarrow> threshold | None \<Rightarrow> defaultBlockThreshold)"

definition validBlockThreshold :: "Severity \<Rightarrow> bool" where
  "validBlockThreshold threshold \<longleftrightarrow> ParseBlockThreshold threshold \<noteq> None"

definition effectiveBlockThreshold :: "'st CheckHandler \<Rightarrow> Severity" where
  "effectiveBlockThreshold h =
     (case ch_runtime h of
        None \<Rightarrow> ch_blockThreshold h
      | Some raw \<Rightarrow>
          let t = parseBlockThreshold raw in if validBlockThreshold t then t else ch_blockThreshold h)"

definition NewHandlerWithBlockThreshold :: "gostring \<Rightarrow> Severity \<Rightarrow> 'st \<Rightarrow> 'st CheckHandler" where
  "NewHandlerWithBlockThreshold identityMode threshold st =
     \<lparr>ch_store = st,
      ch_blockThreshold = (if \<not> validBlockThreshold threshold then defaultBlockThreshold else threshold),
      ch_runtime = None, ch_reversingLabsEnabled = False, ch_scheduler = False, ch_identityMode = identityMode,
      ch_cache = newCheckResponseCache (10 * 60 * second) 256, ch_scheduled = []\<rparr>"

datatype check_response =
    CheckError nat gostring
  | CheckAnswer nat int gostring

definition checkStoreErrorResponse :: "CheckHTTP \<Rightarrow> check_error \<Rightarrow> check_response" where
  "checkStoreErrorResponse r err =
     (if err = DeadlineExceeded \<and> cq_Alive r then CheckError 503 ''check service temporarily unavailable''
      else CheckError 500 ''internal error while checking packages'')"

section \<open>Reading the request\<close>

definition checkPackagesToDomain :: "checkPackage list \<Rightarrow> Package list" where
  "checkPackagesToDomain packages =
     map (\<lambda>pkg. zero_package\<lparr>pk_Name := wp_Name pkg, pk_Version := wp_Version pkg, pk_Ecosystem := wp_Ecosystem pkg\<rparr>) packages"

definition check_identity :: "Package \<Rightarrow> Package" where
  "check_identity pkg =
     (let ecosystem = ToLower (TrimSpace (pk_Ecosystem pkg)) in
      pkg\<lparr>pk_Name := NormalizeName ecosystem (TrimSpace (pk_Name pkg)), pk_Version := TrimSpace (pk_Version pkg),
          pk_Ecosystem := ecosystem\<rparr>)"

fun validate_loop :: "nat \<Rightarrow> Package list \<Rightarrow> (gostring, Package list) result" where
  "validate_loop position [] = Ok []"
| "validate_loop position (pkg # packages) =
     (let field = (\<lambda>name. ''packages['' @ Itoa (int position) @ '']'' @ name) in
      if RuneCountInString (pk_Name pkg) > MaxScanPackageNameCodePoints
      then Err (field ''.name exceeds '' @ Itoa (int MaxScanPackageNameCodePoints) @ '' Unicode code points'')
      else if RuneCountInString (pk_Version pkg) > MaxScanPackageVersionCodePoints
      then Err (field ''.version exceeds '' @ Itoa (int MaxScanPackageVersionCodePoints) @ '' Unicode code points'')
      else let pkg = check_identity pkg in
        if pk_Name pkg = [] then Err (field ''.name is required'')
        else if pk_Version pkg = [] then Err (field ''.version is required'')
        else if length (Fields (pk_Version pkg)) \<noteq> 1 then Err (field ''.version is invalid'')
        else if \<not> ScanInput (pk_Ecosystem pkg) then Err (field ''.ecosystem is invalid'')
        else case validate_loop (position + 1) packages of Err e \<Rightarrow> Err e | Ok packages \<Rightarrow> Ok (pkg # packages))"

definition validateCheckPackages :: "Package list \<Rightarrow> (gostring, Package list) result" where
  "validateCheckPackages packages = validate_loop 1 packages"

definition checkPackageKey :: "Package \<Rightarrow> gostring \<times> gostring \<times> gostring" where
  "checkPackageKey pkg = (pk_Ecosystem pkg, pk_Name pkg, pk_Version pkg)"

fun dedup_loop :: "(gostring \<times> gostring \<times> gostring) list \<Rightarrow> Package list \<Rightarrow> Package list" where
  "dedup_loop seen [] = []"
| "dedup_loop seen (pkg # packages) =
     (if checkPackageKey pkg \<in> set seen then dedup_loop seen packages
      else pkg # dedup_loop (checkPackageKey pkg # seen) packages)"

definition deduplicateCheckPackages :: "Package list \<Rightarrow> Package list" where
  "deduplicateCheckPackages packages = (if length packages < 2 then packages else dedup_loop [] packages)"

definition idempotency_byte :: "char \<Rightarrow> bool" where
  "idempotency_byte c \<longleftrightarrow>
     byte CHR ''a'' \<le> byte c \<and> byte c \<le> byte CHR ''z'' \<or> byte CHR ''A'' \<le> byte c \<and> byte c \<le> byte CHR ''Z'' \<or>
     isDigit c \<or> c \<in> {CHR ''_'', CHR ''-'', CHR ''.'', CHR '':''}"

definition checkIdempotencyKey :: "CheckHTTP \<Rightarrow> (gostring, gostring) result" where
  "checkIdempotencyKey r =
     (let key = TrimSpace (cq_IdempotencyHeader r) in
      if key = [] then Ok []
      else if length key > maxIdempotencyKeyLength
      then Err (''idempotency key exceeds '' @ Itoa (int maxIdempotencyKeyLength) @ '' characters'')
      else if \<not> list_all idempotency_byte key then Err ''idempotency key contains unsupported characters''
      else Ok key)"

definition scanLogIdempotencyKey :: "CheckEnv \<Rightarrow> gostring \<Rightarrow> gostring" where
  "scanLogIdempotencyKey env raw =
     (let raw = TrimSpace raw in
      if raw = [] then []
      else ''sha256:'' @ ce_sha256Hex env (''packmon scan-log idempotency key v1'' @ [CHR 0x00] @ raw))"

text \<open>The JSON of the request; only the three coordinates of a package are set at this point, and the other members are omitted when empty.\<close>

definition request_json :: "ScanRequest \<Rightarrow> gostring" where
  "request_json req =
     ''{'' @ json_member ''packages''
       (''['' @ Join (map (\<lambda>p. ''{'' @ Join [json_member ''name'' (json_string (pk_Name p)),
          json_member ''version'' (json_string (pk_Version p)), json_member ''ecosystem'' (json_string (pk_Ecosystem p))] '','' @ ''}'')
          (sq_Packages req)) '','' @ '']'') @
     (case sq_Repo req of None \<Rightarrow> [] | Some name \<Rightarrow> '','' @ json_member ''repo'' (''{'' @ json_member ''name'' (json_string name) @ ''}''))
     @ ''}''"

definition checkRequestDigest :: "CheckEnv \<Rightarrow> ScanRequest \<Rightarrow> gostring" where
  "checkRequestDigest env req = ''sha256:'' @ ce_sha256Hex env (request_json req)"

definition scanIDForIdempotencyKey :: "CheckEnv \<Rightarrow> gostring \<Rightarrow> gostring \<Rightarrow> gostring" where
  "scanIDForIdempotencyKey env key requestDigest = take 16 (ce_sha256Hex env (key @ [CHR 0x00] @ requestDigest))"

record checkRequestParts =
  pt_request :: ScanRequest
  pt_idempotencyKey :: gostring
  pt_requestDigest :: gostring

definition parseCheckRequest :: "CheckEnv \<Rightarrow> CheckHTTP \<Rightarrow> (check_response, checkRequestParts) result" where
  "parseCheckRequest env r =
     (case cq_ContentTypeError r of
        Some e \<Rightarrow> Err (CheckError 415 e)
      | None \<Rightarrow>
          (case cq_Body r of
             Err e \<Rightarrow> Err (CheckError 400 (''invalid request body: '' @ e))
           | Ok wireReq \<Rightarrow>
               let packages = checkPackagesToDomain (wr_Packages wireReq) in
               if packages = [] then Err (CheckError 400 ''packages array is required and must not be empty'')
               else if length packages > MaxPackagesPerCheck
               then Err (CheckError 400 (''too many packages: '' @ Itoa (int (length packages)) @ '' (max '' @
                      Itoa (int MaxPackagesPerCheck) @ '')''))
               else case validateCheckPackages packages of
                      Err e \<Rightarrow> Err (CheckError 400 e)
                    | Ok packages \<Rightarrow>
                        let req = \<lparr>sq_Packages = deduplicateCheckPackages packages, sq_Repo = wr_Repo wireReq\<rparr> in
                        (case checkIdempotencyKey r of
                           Err e \<Rightarrow> Err (CheckError 400 e)
                         | Ok key \<Rightarrow>
                             Ok \<lparr>pt_request = req, pt_idempotencyKey = key, pt_requestDigest = checkRequestDigest env req\<rparr>)))"

section \<open>Idempotency\<close>

record checkIdempotencyResolution =
  ir_scanID :: gostring
  ir_replay :: bool
  ir_storedKey :: gostring

definition scanLogIdempotencyLookupKeys :: "gostring \<Rightarrow> gostring \<Rightarrow> gostring list" where
  "scanLogIdempotencyLookupKeys storedKey rawKey =
     (let storedKey = TrimSpace storedKey; rawKey = TrimSpace rawKey in
      if storedKey = [] then []
      else if rawKey = [] \<or> rawKey = storedKey then [storedKey] else [storedKey, rawKey])"

fun existing_loop :: "'st CheckOps \<Rightarrow> gostring list \<Rightarrow> 'st \<Rightarrow> (check_error, ScanLogEntry option) result" where
  "existing_loop ops [] st = Ok None"
| "existing_loop ops (key # keys) st =
     (case co_GetScanLogByIdempotencyKey ops key st of
        Err e \<Rightarrow> Err e
      | Ok (Some entry) \<Rightarrow> Ok (Some entry)
      | Ok None \<Rightarrow> existing_loop ops keys st)"

definition existingIdempotentScan :: "'st CheckOps \<Rightarrow> gostring \<Rightarrow> gostring \<Rightarrow> 'st \<Rightarrow> (check_error, ScanLogEntry option) result" where
  "existingIdempotentScan ops storedKey rawKey st = existing_loop ops (scanLogIdempotencyLookupKeys storedKey rawKey) st"

definition idempotency_conflict :: check_response where
  "idempotency_conflict = CheckError 409 ''idempotency key was already used for a different check request''"

definition resolveCheckIdempotency ::
    "CheckEnv \<Rightarrow> 'st CheckOps \<Rightarrow> CheckHTTP \<Rightarrow> gostring \<Rightarrow> gostring \<Rightarrow> 'st \<Rightarrow> (check_response, checkIdempotencyResolution) result" where
  "resolveCheckIdempotency env ops r idempotencyKey requestDigest st =
     (if idempotencyKey = [] then Ok \<lparr>ir_scanID = cq_NewID r, ir_replay = False, ir_storedKey = []\<rparr>
      else let storedKey = scanLogIdempotencyKey env idempotencyKey;
               scanID = scanIDForIdempotencyKey env storedKey requestDigest
        in case existingIdempotentScan ops storedKey idempotencyKey st of
             Err e \<Rightarrow> Err (checkStoreErrorResponse r e)
           | Ok None \<Rightarrow> Ok \<lparr>ir_scanID = scanID, ir_replay = False, ir_storedKey = storedKey\<rparr>
           | Ok (Some existing) \<Rightarrow>
               if sl_RequestDigest existing \<noteq> [] \<and> sl_RequestDigest existing \<noteq> requestDigest then Err idempotency_conflict
               else Ok \<lparr>ir_scanID = (if sl_ScanID existing \<noteq> [] then sl_ScanID existing else scanID), ir_replay = True,
                        ir_storedKey = storedKey\<rparr>)"

section \<open>Collecting the findings\<close>

definition ReputationReadSources :: "gostring list" where
  "ReputationReadSources = [''reversinglabs'']"

definition reputationReadSources :: "'st CheckHandler \<Rightarrow> gostring list" where
  "reputationReadSources h = (if \<not> ch_reversingLabsEnabled h then [] else ReputationReadSources)"

record findingCollection =
  fc_findings :: "Finding list"
  fc_degraded :: bool
  fc_optionalLookupFailures :: "gostring list"

definition check_queries :: "Package list \<Rightarrow> db_PackageQuery list" where
  "check_queries packages =
     map (\<lambda>pkg. \<lparr>dq_Ecosystem = pk_Ecosystem pkg, dq_Name = pk_Name pkg, dq_Version = pk_Version pkg\<rparr>) packages"

fun reputation_loop ::
    "'st CheckOps \<Rightarrow> db_PackageQuery list \<Rightarrow> gostring list \<Rightarrow> 'st \<Rightarrow> (check_error, Finding list) result" where
  "reputation_loop ops queries [] st = Ok []"
| "reputation_loop ops queries (source # sources) st =
     (case co_FindReputationFindingsBatch ops queries source st of
        Err e \<Rightarrow> Err e
      | Ok findings \<Rightarrow>
          (case reputation_loop ops queries sources st of Err e \<Rightarrow> Err e | Ok rest \<Rightarrow> Ok (findings @ rest)))"

definition optional_findings :: "(check_error, Finding list) result \<Rightarrow> Finding list" where
  "optional_findings lookup = (case lookup of Err e \<Rightarrow> [] | Ok findings \<Rightarrow> findings)"

definition lookup_failed :: "(check_error, Finding list) result \<Rightarrow> bool" where
  "lookup_failed lookup = (case lookup of Err e \<Rightarrow> True | Ok findings \<Rightarrow> False)"

text \<open>The required lookups abort the check, the optional ones only degrade it.\<close>

definition collectFindingsForCheck ::
    "'st CheckOps \<Rightarrow> gotime \<Rightarrow> Package list \<Rightarrow> bool \<Rightarrow> 'st CheckHandler \<Rightarrow> (check_error, findingCollection) result \<times> 'st CheckHandler" where
  "collectFindingsForCheck ops now packages scheduleReversingLabs h =
     (let packages = deduplicateCheckPackages packages; queries = check_queries packages; st = ch_store h;
          reputation = reputation_loop ops queries (reputationReadSources h) st;
          lifecycle = co_FindLifecycleFindingsBatch ops queries now st
      in case co_FindVulnerabilitiesBatch ops queries st of
           Err e \<Rightarrow> (Err e, h)
         | Ok vulns \<Rightarrow>
             (case co_FindMaliciousBatch ops queries st of
                Err e \<Rightarrow> (Err e, h)
              | Ok mal \<Rightarrow>
                  let all = vulns @ mal @ optional_findings reputation @ optional_findings lifecycle in
                  (Ok \<lparr>fc_findings = all, fc_degraded = lookup_failed reputation \<or> lookup_failed lifecycle,
                       fc_optionalLookupFailures = (if lookup_failed reputation then [''reputation''] else []) @
                         (if lookup_failed lifecycle then [''lifecycle''] else [])\<rparr>,
                   if scheduleReversingLabs \<and> ch_reversingLabsEnabled h \<and> ch_scheduler h
                   then h\<lparr>ch_scheduled := ch_scheduled h @ [(packages, all)]\<rparr> else h)))"

definition feedVersionsFromStatuses :: "CheckEnv \<Rightarrow> FeedSyncStatus list \<Rightarrow> (gostring \<times> gostring) list" where
  "feedVersionsFromStatuses env statuses =
     fold (\<lambda>s m. case fs_LastSyncAt s of None \<Rightarrow> m | Some t \<Rightarrow> AList.update (fs_FeedName s) (ce_formatTime env t) m) statuses []"

definition feedState :: "CheckEnv \<Rightarrow> 'st CheckOps \<Rightarrow> gotime \<Rightarrow> 'st \<Rightarrow> gostring \<times> (gostring \<times> gostring) list" where
  "feedState env ops now st =
     (case co_ListFeedSyncStatuses ops st of
        Err e \<Rightarrow> (ScanFeedStatusDegraded, [])
      | Ok statuses \<Rightarrow>
          (OverallFeedStatus now statuses \<lparr>ho_Now = 0, ho_StaleAfter = 0\<rparr>, feedVersionsFromStatuses env statuses))"

definition buildCheckResult ::
    "CheckEnv \<Rightarrow> 'st CheckOps \<Rightarrow> CheckHTTP \<Rightarrow> gostring \<Rightarrow> Package list \<Rightarrow> bool \<Rightarrow> 'st CheckHandler
     \<Rightarrow> (check_response, ScanResult \<times> gostring) result \<times> 'st CheckHandler" where
  "buildCheckResult env ops r scanID packages scheduleReversingLabs h =
     (case collectFindingsForCheck ops (cq_Now r) packages scheduleReversingLabs h of
        (Err e, h) \<Rightarrow> (Err (checkStoreErrorResponse r e), h)
      | (Ok collection, h) \<Rightarrow>
          (let findings = fc_findings collection;
               blockThreshold = effectiveBlockThreshold h;
               (feedStatus, feedVersions) = feedState env ops (cq_Now r) (ch_store h);
               result = \<lparr>rs_ScanID = scanID, rs_Mode = ScanModeRemote, rs_ScannedAt = cq_Start r,
                 rs_DurationMs = (cq_Now r - cq_Start r) div 1000000, rs_PackagesScanned = length packages,
                 rs_FindingsCount = length findings, rs_FindingsBlocking = FindingsBlock findings blockThreshold,
                 rs_BlockThreshold = blockThreshold,
                 rs_FeedStatus = (if fc_degraded collection then ScanFeedStatusDegraded else feedStatus), rs_ScanError = [],
                 rs_DBAgeDays = None, rs_DBStale = False, rs_Summary = BuildScanSummary findings, rs_Findings = findings,
                 rs_ParseErrors = [], rs_FindingsTruncated = False, rs_FeedVersions = feedVersions,
                 rs_ManualAdvisoriesCount = CountManualAdvisoryFindings findings\<rparr>
           in case ce_encodeResult env result of
                Err e \<Rightarrow> (Err (CheckError 500 ''internal error while encoding scan result''), h)
              | Ok body \<Rightarrow> (Ok (result, body), h)))"

section \<open>Recording the scan\<close>

definition validSemVerNumber :: "gostring \<Rightarrow> bool" where
  "validSemVerNumber value \<longleftrightarrow> value \<noteq> [] \<and> list_all isDigit value \<and> (length value = 1 \<or> hd value \<noteq> CHR ''0'')"

definition identifier_byte :: "char \<Rightarrow> bool" where
  "identifier_byte c \<longleftrightarrow>
     byte CHR ''a'' \<le> byte c \<and> byte c \<le> byte CHR ''z'' \<or> byte CHR ''A'' \<le> byte c \<and> byte c \<le> byte CHR ''Z'' \<or>
     isDigit c \<or> c = CHR ''-''"

definition validSemVerIdentifierList :: "gostring \<Rightarrow> bool" where
  "validSemVerIdentifierList value \<longleftrightarrow>
     value \<noteq> [] \<and> list_all (\<lambda>part. part \<noteq> [] \<and> list_all identifier_byte part) (Split value CHR ''.'')"

definition validScanLogClientVersion :: "gostring \<Rightarrow> bool" where
  "validScanLogClientVersion version =
     (if version = [] \<or> length version > 64 then False
      else let (core, build, hasBuild) = Cut version CHR ''+''; (numbers, pre, hasPre) = Cut core CHR ''-'' in
        if hasBuild \<and> \<not> validSemVerIdentifierList build then False
        else if hasPre \<and> \<not> validSemVerIdentifierList pre then False
        else length (Split numbers CHR ''.'') = 3 \<and> list_all validSemVerNumber (Split numbers CHR ''.''))"

fun client_loop :: "gostring list \<Rightarrow> gostring" where
  "client_loop [] = []"
| "client_loop (word # words) =
     (case find (HasPrefix word) [''packmon-cli/'', ''packmon/''] of
        None \<Rightarrow> client_loop words
      | Some client \<Rightarrow>
          let version = TrimSpace (TrimPrefix word client) in if validScanLogClientVersion version then version else [])"

definition scanLogClientVersion :: "gostring \<Rightarrow> gostring" where
  "scanLogClientVersion userAgent = client_loop (Fields userAgent)"

definition forward_slashes :: "gostring \<Rightarrow> gostring" where
  "forward_slashes value = map (\<lambda>c. if c = CHR 0x5C then CHR ''/'' else c) value"

definition looksLikeScanLogPath :: "gostring \<Rightarrow> bool" where
  "looksLikeScanLogPath value =
     (if CHR 0x5C \<in> set value then True
      else let normalized = forward_slashes value in
        HasPrefix normalized ''/'' \<or> HasPrefix normalized ''~/'' \<or> HasPrefix normalized ''./'' \<or> HasPrefix normalized ''../'' \<or>
        count_list normalized CHR ''/'' \<ge> 2)"

definition scanLogPathTail :: "gostring \<Rightarrow> gostring" where
  "scanLogPathTail value =
     (let normalized = forward_slashes (TrimRight value [CHR ''/'', CHR 0x5C]) in
      case LastIndex normalized ''/'' of None \<Rightarrow> normalized | Some idx \<Rightarrow> drop (idx + 1) normalized)"

definition scanLogRepoName :: "CheckEnv \<Rightarrow> gostring \<Rightarrow> gostring" where
  "scanLogRepoName env raw =
     (let value = TrimSpace raw; value = (if looksLikeScanLogPath value then scanLogPathTail value else value) in
      ce_boundedDiagnostic env value 256)"

definition logScan ::
    "CheckEnv \<Rightarrow> 'st CheckOps \<Rightarrow> CheckHTTP \<Rightarrow> ScanRequest \<Rightarrow> ScanResult \<Rightarrow> gostring \<Rightarrow> gostring \<Rightarrow> gostring \<Rightarrow> 'st CheckHandler
     \<Rightarrow> check_error option \<times> 'st CheckHandler" where
  "logScan env ops r req result idempotencyKey requestDigest resultDigest h =
     (let mode = (if ch_identityMode h = [] then ScanLogIdentityModeFull else ch_identityMode h);
          entry = \<lparr>sl_ScanID = rs_ScanID result,
            sl_RepoName = (case sq_Repo req of Some name \<Rightarrow> if mode \<noteq> ScanLogIdentityModeNone then scanLogRepoName env name else []
                           | None \<Rightarrow> []),
            sl_ScannedAt = rs_ScannedAt result, sl_PackagesCount = int (rs_PackagesScanned result),
            sl_FindingsCount = int (rs_FindingsCount result), sl_DurationMs = rs_DurationMs result,
            sl_ClientIP = (if mode = ScanLogIdentityModeFull then cq_ClientIP r else []),
            sl_ClientVersion = (if cq_APIKeyIdentity r \<noteq> None \<and> mode \<noteq> ScanLogIdentityModeNone
                                then scanLogClientVersion (cq_UserAgent r) else []),
            sl_APIKeyID = (case cq_APIKeyIdentity r of
              Some (i, name) \<Rightarrow> if mode = ScanLogIdentityModeFull then i else 0 | None \<Rightarrow> 0),
            sl_APIKeyName = (case cq_APIKeyIdentity r of
              Some (i, name) \<Rightarrow> if mode = ScanLogIdentityModeFull then name else [] | None \<Rightarrow> []),
            sl_CorrelationID = cq_CorrelationID r, sl_IdempotencyKey = idempotencyKey, sl_RequestDigest = requestDigest,
            sl_ResultDigest = resultDigest, sl_FindingsBlocking = rs_FindingsBlocking result,
            sl_BlockThreshold = rs_BlockThreshold result, sl_FeedStatus = rs_FeedStatus result,
            sl_FeedVersions = rs_FeedVersions result, sl_FindingIDs = map f_AdvisoryID (rs_Findings result),
            sl_FindingSeverities = map f_Severity (rs_Findings result),
            sl_ManualAdvisoriesCount = int (rs_ManualAdvisoriesCount result)\<rparr>
      in case co_InsertScanLog ops entry (ch_store h) of (err, st) \<Rightarrow> (err, h\<lparr>ch_store := st\<rparr>))"

definition verifyCheckIdempotencyAfterLog ::
    "'st CheckOps \<Rightarrow> CheckHTTP \<Rightarrow> gostring \<Rightarrow> gostring \<Rightarrow> gostring \<Rightarrow> 'st \<Rightarrow> check_response option" where
  "verifyCheckIdempotencyAfterLog ops r storedIdempotencyKey rawIdempotencyKey requestDigest st =
     (if storedIdempotencyKey = [] then None
      else case existingIdempotentScan ops storedIdempotencyKey rawIdempotencyKey st of
             Err e \<Rightarrow> Some (checkStoreErrorResponse r e)
           | Ok None \<Rightarrow> None
           | Ok (Some existing) \<Rightarrow>
               if sl_RequestDigest existing \<noteq> [] \<and> sl_RequestDigest existing \<noteq> requestDigest then Some idempotency_conflict else None)"

definition persistCheckScanLog ::
    "CheckEnv \<Rightarrow> 'st CheckOps \<Rightarrow> CheckHTTP \<Rightarrow> checkRequestParts \<Rightarrow> checkIdempotencyResolution \<Rightarrow> ScanResult \<Rightarrow> gostring \<Rightarrow> 'st CheckHandler
     \<Rightarrow> check_response option \<times> 'st CheckHandler" where
  "persistCheckScanLog env ops r parts idempotency result resultBody h =
     (if ir_replay idempotency then (None, h)
      else case logScan env ops r (pt_request parts) result (ir_storedKey idempotency) (pt_requestDigest parts)
                  (''sha256:'' @ ce_sha256Hex env resultBody) h of
             (Some e, h) \<Rightarrow>
               (if pt_idempotencyKey parts \<noteq> [] then Some (CheckError 500 ''internal error while recording idempotency state'') else None, h)
           | (None, h) \<Rightarrow>
               (verifyCheckIdempotencyAfterLog ops r (ir_storedKey idempotency) (pt_idempotencyKey parts) (pt_requestDigest parts)
                  (ch_store h), h))"

section \<open>The whole handler\<close>

definition handler_cachedCheckResponse ::
    "gotime \<Rightarrow> gostring \<Rightarrow> gostring \<Rightarrow> 'st CheckHandler \<Rightarrow> cachedCheckResponse option \<times> 'st CheckHandler" where
  "handler_cachedCheckResponse now storedKey requestDigest h =
     (case ch_cache h of
        None \<Rightarrow> (None, h)
      | Some c \<Rightarrow>
          (case cache_Get now (checkResponseCacheKey storedKey requestDigest) c of
             (response, c) \<Rightarrow> (response, h\<lparr>ch_cache := Some c\<rparr>)))"

definition cacheCheckResponse ::
    "gotime \<Rightarrow> gostring \<Rightarrow> gostring \<Rightarrow> nat \<Rightarrow> int \<Rightarrow> gostring \<Rightarrow> 'st CheckHandler \<Rightarrow> 'st CheckHandler" where
  "cacheCheckResponse now storedKey requestDigest statusCode durationMs body h =
     h\<lparr>ch_cache := map_option (cache_Set now (checkResponseCacheKey storedKey requestDigest)
         \<lparr>cr_statusCode = statusCode, cr_durationMs = durationMs, cr_body = body\<rparr>) (ch_cache h)\<rparr>"

definition HandleCheck ::
    "CheckEnv \<Rightarrow> 'st CheckOps \<Rightarrow> CheckHTTP \<Rightarrow> 'st CheckHandler \<Rightarrow> check_response \<times> 'st CheckHandler" where
  "HandleCheck env ops r h =
     (if cq_Method r \<noteq> ''POST'' then (CheckError 405 ''method not allowed'', h)
      else case parseCheckRequest env r of
        Err response \<Rightarrow> (response, h)
      | Ok parts \<Rightarrow>
          (case resolveCheckIdempotency env ops r (pt_idempotencyKey parts) (pt_requestDigest parts) (ch_store h) of
             Err response \<Rightarrow> (response, h)
           | Ok idempotency \<Rightarrow>
               (case (if ir_replay idempotency
                      then handler_cachedCheckResponse (cq_Now r) (ir_storedKey idempotency) (pt_requestDigest parts) h
                      else (None, h)) of
                  (Some cached, h) \<Rightarrow> (CheckAnswer (cr_statusCode cached) (cr_durationMs cached) (cr_body cached), h)
                | (None, h) \<Rightarrow>
                    (case buildCheckResult env ops r (ir_scanID idempotency) (sq_Packages (pt_request parts))
                            (\<not> ir_replay idempotency) h of
                       (Err response, h) \<Rightarrow> (response, h)
                     | (Ok (result, resultBody), h) \<Rightarrow>
                         (case persistCheckScanLog env ops r parts idempotency result resultBody h of
                            (Some response, h) \<Rightarrow> (response, h)
                          | (None, h) \<Rightarrow>
                              (CheckAnswer 200 (rs_DurationMs result) resultBody,
                               cacheCheckResponse (cq_Now r) (ir_storedKey idempotency) (pt_requestDigest parts) 200
                                 (rs_DurationMs result) resultBody h))))))"

section \<open>The in-memory store behind the handler\<close>

definition dev_check_ops :: "Store CheckOps" where
  "dev_check_ops =
     \<lparr>co_FindVulnerabilitiesBatch = (\<lambda>queries st. Ok (FindVulnerabilitiesBatch queries st)),
      co_FindMaliciousBatch = (\<lambda>queries st. Ok (FindMaliciousBatch queries st)),
      co_FindReputationFindingsBatch = (\<lambda>queries source st. Ok []),
      co_FindLifecycleFindingsBatch = (\<lambda>queries now st. Ok []),
      co_ListFeedSyncStatuses = (\<lambda>st. Ok (ListFeedSyncStatuses st)),
      co_GetScanLogByIdempotencyKey = (\<lambda>key st. Ok (GetScanLogByIdempotencyKey key st)),
      co_InsertScanLog = (\<lambda>entry st. (None, snd (InsertScanLog entry st)))\<rparr>"

lemma dev_check_ops [simp]:
  "co_FindVulnerabilitiesBatch dev_check_ops queries st = Ok (FindVulnerabilitiesBatch queries st)"
  "co_FindMaliciousBatch dev_check_ops queries st = Ok (FindMaliciousBatch queries st)"
  "co_FindReputationFindingsBatch dev_check_ops queries source st = Ok []"
  "co_FindLifecycleFindingsBatch dev_check_ops queries now st = Ok []"
  "co_ListFeedSyncStatuses dev_check_ops st = Ok (ListFeedSyncStatuses st)"
  "co_GetScanLogByIdempotencyKey dev_check_ops key st = Ok (GetScanLogByIdempotencyKey key st)"
  "co_InsertScanLog dev_check_ops entry st = (None, snd (InsertScanLog entry st))"
  by (simp_all add: dev_check_ops_def)

section \<open>Packages of a request\<close>

lemma validate_loop_Ok: "validate_loop n packages = Ok valid \<Longrightarrow> valid = map check_identity packages"
  by (induction n packages arbitrary: valid rule: validate_loop.induct) (auto simp: Let_def split: if_splits sum.splits)

lemma dedup_loop_keys: "checkPackageKey ` set (dedup_loop seen packages) \<union> set seen = checkPackageKey ` set packages \<union> set seen"
  by (induction seen packages rule: dedup_loop.induct) auto

lemma dedup_loop_distinct:
  "distinct (map checkPackageKey (dedup_loop seen packages)) \<and> checkPackageKey ` set (dedup_loop seen packages) \<inter> set seen = {}"
  by (induction seen packages rule: dedup_loop.induct) auto

lemma deduplicate_keys: "checkPackageKey ` set (deduplicateCheckPackages packages) = checkPackageKey ` set packages"
  using dedup_loop_keys [of "[]" packages] by (simp add: deduplicateCheckPackages_def)

lemma deduplicate_distinct: "distinct (map checkPackageKey (deduplicateCheckPackages packages))"
proof (cases "length packages < 2")
  case True
  then show ?thesis by (cases packages) (auto simp: deduplicateCheckPackages_def)
next
  case False
  then show ?thesis using dedup_loop_distinct [of "[]" packages] by (simp add: deduplicateCheckPackages_def)
qed

lemma deduplicate_length: "length (deduplicateCheckPackages packages) = card (checkPackageKey ` set packages)"
  using distinct_card [OF deduplicate_distinct [of packages]] by (simp add: deduplicate_keys)

text \<open>What the store knows about one package.\<close>

definition known_findings :: "Store \<Rightarrow> gostring \<times> gostring \<times> gostring \<Rightarrow> Finding set" where
  "known_findings st k =
     (case k of (ecosystem, name, version) \<Rightarrow>
        set (FindVulnerabilities ecosystem name version st) \<union> set (FindMalicious ecosystem name version st))"

lemma batch_findings:
  "set (FindVulnerabilitiesBatch (check_queries packages) st @ FindMaliciousBatch (check_queries packages) st) =
     (\<Union>k \<in> checkPackageKey ` set packages. known_findings st k)"
  by (auto simp: FindVulnerabilitiesBatch_def FindMaliciousBatch_def check_queries_def known_findings_def checkPackageKey_def)

lemma reputation_loop_dev: "reputation_loop dev_check_ops queries sources st = Ok []"
  by (induction sources) simp_all

section \<open>One request\<close>

definition check_step_of :: "CheckEnv \<Rightarrow> CheckHTTP \<Rightarrow> Store \<Rightarrow> checkRequestParts \<Rightarrow> checkIdempotencyResolution \<Rightarrow> bool" where
  "check_step_of env r st parts idempotency \<longleftrightarrow>
     cq_Method r = ''POST'' \<and> parseCheckRequest env r = Ok parts \<and>
     resolveCheckIdempotency env dev_check_ops r (pt_idempotencyKey parts) (pt_requestDigest parts) st = Ok idempotency"

lemma parseCheckRequest_Ok:
  assumes "parseCheckRequest env r = Ok parts"
  obtains wire where "cq_Body r = Ok wire"
    "sq_Packages (pt_request parts) = deduplicateCheckPackages (map check_identity (checkPackagesToDomain (wr_Packages wire)))"
    "sq_Repo (pt_request parts) = wr_Repo wire" "checkIdempotencyKey r = Ok (pt_idempotencyKey parts)"
    "pt_requestDigest parts = checkRequestDigest env (pt_request parts)"
  using assms
  by (auto simp: parseCheckRequest_def validateCheckPackages_def Let_def dest!: validate_loop_Ok split: option.splits sum.splits if_splits)

lemma checkIdempotencyKey_trimmed: "checkIdempotencyKey r = Ok key \<Longrightarrow> key = TrimSpace (cq_IdempotencyHeader r)"
  by (auto simp: checkIdempotencyKey_def Let_def split: if_splits)

lemma effectiveBlockThreshold_frame [simp]:
  "effectiveBlockThreshold (h\<lparr>ch_scheduled := calls\<rparr>) = effectiveBlockThreshold h"
  by (simp add: effectiveBlockThreshold_def Let_def split: option.split)

lemma collect_dev:
  "collectFindingsForCheck dev_check_ops now packages schedule h = (res, h') \<Longrightarrow>
   ch_store h' = ch_store h \<and> ch_cache h' = ch_cache h \<and> effectiveBlockThreshold h' = effectiveBlockThreshold h \<and>
   (\<exists>c. res = Ok c \<and> \<not> fc_degraded c \<and>
      fc_findings c = FindVulnerabilitiesBatch (check_queries (deduplicateCheckPackages packages)) (ch_store h) @
        FindMaliciousBatch (check_queries (deduplicateCheckPackages packages)) (ch_store h))"
  by (auto simp: collectFindingsForCheck_def Let_def reputation_loop_dev optional_findings_def lookup_failed_def
      split: if_splits)

lemma buildCheckResult_dev:
  assumes "buildCheckResult env dev_check_ops r scanID packages schedule h = (res, h')"
  shows "ch_store h' = ch_store h \<and> ch_cache h' = ch_cache h \<and>
    (\<forall>result body. res = Ok (result, body) \<longrightarrow>
      ce_encodeResult env result = Ok body \<and> rs_ScanID result = scanID \<and> rs_PackagesScanned result = length packages \<and>
      set (rs_Findings result) = (\<Union>k \<in> checkPackageKey ` set packages. known_findings (ch_store h) k) \<and>
      rs_FindingsCount result = length (rs_Findings result) \<and>
      rs_BlockThreshold result = effectiveBlockThreshold h \<and>
      rs_FindingsBlocking result = FindingsBlock (rs_Findings result) (effectiveBlockThreshold h))"
proof -
  obtain c h1 where c: "collectFindingsForCheck dev_check_ops (cq_Now r) packages schedule h = (Ok c, h1)"
    using collect_dev by (metis surj_pair)
  note facts = collect_dev [OF c]
  have "set (fc_findings c) = (\<Union>k \<in> checkPackageKey ` set packages. known_findings (ch_store h) k)"
    using facts batch_findings [of "deduplicateCheckPackages packages" "ch_store h"] by (auto simp: deduplicate_keys)
  then show ?thesis using assms facts unfolding buildCheckResult_def c by (auto simp: Let_def split: prod.splits sum.splits)
qed

text \<open>The row a fresh request leaves: under its stored key, with its digest.\<close>

definition logged :: "checkRequestParts \<Rightarrow> checkIdempotencyResolution \<Rightarrow> ScanResult \<Rightarrow> ScanLogEntry \<Rightarrow> bool" where
  "logged parts idempotency result e \<longleftrightarrow>
     sl_IdempotencyKey e = ir_storedKey idempotency \<and> sl_RequestDigest e = pt_requestDigest parts \<and>
     sl_ScanID e = rs_ScanID result \<and> sl_FindingIDs e = map f_AdvisoryID (rs_Findings result) \<and>
     sl_FindingsBlocking e = rs_FindingsBlocking result \<and> sl_PackagesCount e = int (rs_PackagesScanned result)"

lemma persistCheckScanLog_dev:
  assumes "persistCheckScanLog env dev_check_ops r parts idempotency result body h = (resp, h')" and "\<not> ir_replay idempotency"
  shows "\<exists>e. logged parts idempotency result e \<and> ch_store h' = snd (InsertScanLog e (ch_store h)) \<and> ch_cache h' = ch_cache h"
  using assms unfolding persistCheckScanLog_def logScan_def Let_def
  by (auto simp: logged_def split: option.splits intro!: exI)

lemma cacheCheckResponse_store [simp]: "ch_store (cacheCheckResponse now key digest code dur body h) = ch_store h"
  by (simp add: cacheCheckResponse_def)

lemma cachedCheckResponse_store: "handler_cachedCheckResponse now key digest h = (resp, h') \<Longrightarrow> ch_store h' = ch_store h"
  by (auto simp: handler_cachedCheckResponse_def split: option.splits prod.splits)

definition answered :: "check_response \<Rightarrow> bool" where
  "answered resp = (case resp of CheckAnswer code dur body \<Rightarrow> True | CheckError code msg \<Rightarrow> False)"

lemma answered_simps [simp]: "answered (CheckAnswer code dur body)" "\<not> answered (CheckError code' msg)"
  by (simp_all add: answered_def)

lemma errors_not_answered:
  "\<not> answered (checkStoreErrorResponse r e)" "\<not> answered idempotency_conflict"
  "parseCheckRequest env r = Err resp \<Longrightarrow> \<not> answered resp"
  "resolveCheckIdempotency env ops r k digest st = Err resp \<Longrightarrow> \<not> answered resp"
  "buildCheckResult env ops r i packages schedule h = (Err resp, h') \<Longrightarrow> \<not> answered resp"
  "verifyCheckIdempotencyAfterLog ops r k k' digest st = Some resp \<Longrightarrow> \<not> answered resp"
  "persistCheckScanLog env ops r parts idempotency result body h = (Some resp, h') \<Longrightarrow> \<not> answered resp"
proof -
  show err: "\<not> answered (checkStoreErrorResponse r e)" for e by (simp add: checkStoreErrorResponse_def)
  show conflict: "\<not> answered idempotency_conflict" by (simp add: idempotency_conflict_def)
  show "\<not> answered resp" if "parseCheckRequest env r = Err resp"
    using that by (auto simp: parseCheckRequest_def Let_def split: option.splits sum.splits if_splits)
  show "\<not> answered resp" if "resolveCheckIdempotency env ops r k digest st = Err resp"
    using that err conflict by (auto simp: resolveCheckIdempotency_def Let_def split: option.splits sum.splits if_splits)
  show "\<not> answered resp" if "buildCheckResult env ops r i packages schedule h = (Err resp, h')"
    using that err by (auto simp: buildCheckResult_def Let_def split: prod.splits sum.splits)
  show verify: "\<not> answered resp" if "verifyCheckIdempotencyAfterLog ops r k k' digest st = Some resp" for k k' digest st
    using that err conflict by (auto simp: verifyCheckIdempotencyAfterLog_def split: option.splits sum.splits if_splits)
  show "\<not> answered resp" if "persistCheckScanLog env ops r parts idempotency result body h = (Some resp, h')"
    using that verify by (auto simp: persistCheckScanLog_def split: prod.splits option.splits if_splits)
qed

definition checked :: "CheckEnv \<Rightarrow> 'a CheckHandler \<Rightarrow> Store \<Rightarrow> Package list \<Rightarrow> ScanResult \<Rightarrow> gostring \<Rightarrow> bool" where
  "checked env h st packages result body \<longleftrightarrow>
     ce_encodeResult env result = Ok body \<and> rs_PackagesScanned result = length packages \<and>
     set (rs_Findings result) = (\<Union>k \<in> checkPackageKey ` set packages. known_findings st k) \<and>
     rs_FindingsCount result = length (rs_Findings result) \<and>
     rs_BlockThreshold result = effectiveBlockThreshold h \<and>
     rs_FindingsBlocking result = FindingsBlock (rs_Findings result) (effectiveBlockThreshold h)"

text \<open>What a request does to the store: nothing, or it offers one row to the scan log.\<close>

lemma HandleCheck_cases:
  assumes "HandleCheck env dev_check_ops r h = (resp, h')"
  obtains (refused) "\<not> answered resp" "ch_store h' = ch_store h"
    | (replayed) parts idempotency where "check_step_of env r (ch_store h) parts idempotency" "ir_replay idempotency"
        "ch_store h' = ch_store h"
    | (fresh) parts idempotency result body e where "check_step_of env r (ch_store h) parts idempotency" "\<not> ir_replay idempotency"
        "checked env h (ch_store h) (sq_Packages (pt_request parts)) result body" "rs_ScanID result = ir_scanID idempotency"
        "logged parts idempotency result e" "ch_store h' = snd (InsertScanLog e (ch_store h))"
        "resp = CheckAnswer 200 (rs_DurationMs result) body \<or> \<not> answered resp"
proof (cases "\<exists>parts idempotency. check_step_of env r (ch_store h) parts idempotency")
  case False
  then have "\<not> answered resp \<and> ch_store h' = ch_store h" using assms unfolding HandleCheck_def check_step_of_def
    by (auto dest: errors_not_answered(3,4) split: if_splits sum.splits)
  then show thesis using refused by blast
next
  case True
  then obtain parts idempotency where step: "check_step_of env r (ch_store h) parts idempotency" by blast
  note facts = step [unfolded check_step_of_def]
  show thesis
  proof (cases "ir_replay idempotency")
    case True
    obtain c h1 where c: "handler_cachedCheckResponse (cq_Now r) (ir_storedKey idempotency) (pt_requestDigest parts) h = (c, h1)"
      by fastforce
    note h1 = cachedCheckResponse_store [OF c]
    obtain res h2 where build: "buildCheckResult env dev_check_ops r (ir_scanID idempotency) (sq_Packages (pt_request parts)) False h1 =
      (res, h2)" by fastforce
    from buildCheckResult_dev [OF build] have h2: "ch_store h2 = ch_store h" using h1 by simp
    have "ch_store h' = ch_store h"
      using assms facts c h1 h2 build True
      by (auto simp: HandleCheck_def persistCheckScanLog_def split: option.splits sum.splits)
    then show thesis using replayed step True by blast
  next
    case False
    obtain res h2 where build: "buildCheckResult env dev_check_ops r (ir_scanID idempotency) (sq_Packages (pt_request parts)) True h =
      (res, h2)" by fastforce
    note built = buildCheckResult_dev [OF build]
    show thesis
    proof (cases res)
      case (Inl e)
      then have "resp = e" "ch_store h' = ch_store h" using assms facts build built False by (auto simp: HandleCheck_def)
      moreover have "\<not> answered e" using errors_not_answered(5) build Inl by blast
      ultimately show thesis using refused by blast
    next
      case (Inr rb)
      obtain result body where rb: "rb = (result, body)" by fastforce
      obtain p h3 where persist: "persistCheckScanLog env dev_check_ops r parts idempotency result body h2 = (p, h3)" by fastforce
      obtain e where e: "logged parts idempotency result e" "ch_store h3 = snd (InsertScanLog e (ch_store h2))"
        using persistCheckScanLog_dev [OF persist False] by blast
      have "ch_store h' = ch_store h3" "resp = CheckAnswer 200 (rs_DurationMs result) body \<or> p = Some resp"
        using assms facts build Inr rb persist False by (auto simp: HandleCheck_def split: option.splits)
      moreover have "checked env h (ch_store h) (sq_Packages (pt_request parts)) result body" "rs_ScanID result = ir_scanID idempotency"
        using built Inr rb by (auto simp: checked_def)
      moreover have "p = Some resp \<Longrightarrow> \<not> answered resp" using errors_not_answered(7) persist by blast
      ultimately show thesis using fresh [OF step False _ _ e(1)] e(2) built by auto
    qed
  qed
qed

text \<open>The first request of a store is answered, if it is well formed and its result can be encoded.\<close>

lemma resolve_first:
  assumes "scanLogs st = []"
  obtains idempotency where "resolveCheckIdempotency env dev_check_ops r k digest st = Ok idempotency" "\<not> ir_replay idempotency"
proof -
  have "existingIdempotentScan dev_check_ops stored k st = Ok None" for stored
    using assms by (simp add: existingIdempotentScan_def scanLogIdempotencyLookupKeys_def GetScanLogByIdempotencyKey_def Let_def)
  then have "\<exists>i. resolveCheckIdempotency env dev_check_ops r k digest st = Ok i \<and> \<not> ir_replay i"
    by (simp add: resolveCheckIdempotency_def Let_def)
  then show thesis using that by (elim exE conjE)
qed

lemma verify_first:
  assumes "scanLogs st = [e]" and "sl_RequestDigest e = digest"
  shows "verifyCheckIdempotencyAfterLog dev_check_ops r stored k digest st = None"
proof -
  have get: "GetScanLogByIdempotencyKey key st \<in> {None, Some e}" for key
    using assms(1) by (simp add: GetScanLogByIdempotencyKey_def)
  have "existing_loop dev_check_ops keys st \<in> {Ok None, Ok (Some e)}" for keys
  proof (induction keys)
    case (Cons key keys)
    then show ?case using get [of key] by auto
  qed simp
  then have "existingIdempotentScan dev_check_ops stored k st \<in> {Ok None, Ok (Some e)}" by (simp add: existingIdempotentScan_def)
  then show ?thesis using assms(2) by (auto simp: verifyCheckIdempotencyAfterLog_def)
qed

lemma first_check_answered:
  assumes "cq_Method r = ''POST''" and "parseCheckRequest env r = Ok parts" and "scanLogs (ch_store h) = []"
    and "\<And>result. \<exists>body. ce_encodeResult env result = Ok body"
  shows "answered (fst (HandleCheck env dev_check_ops r h))"
proof -
  obtain idempotency where resolve: "resolveCheckIdempotency env dev_check_ops r (pt_idempotencyKey parts) (pt_requestDigest parts)
      (ch_store h) = Ok idempotency" and fresh: "\<not> ir_replay idempotency"
    using assms(3) by (rule resolve_first)
  obtain c h1 where c: "collectFindingsForCheck dev_check_ops (cq_Now r) (sq_Packages (pt_request parts)) True h = (Ok c, h1)"
    using collect_dev by (metis surj_pair)
  obtain res h2 where build: "buildCheckResult env dev_check_ops r (ir_scanID idempotency) (sq_Packages (pt_request parts)) True h =
      (res, h2)" by fastforce
  from buildCheckResult_dev [OF build] have h2: "ch_store h2 = ch_store h" by simp
  obtain status versions where state: "feedState env dev_check_ops (cq_Now r) (ch_store h1) = (status, versions)" by fastforce
  have "\<exists>result. buildCheckResult env dev_check_ops r (ir_scanID idempotency) (sq_Packages (pt_request parts)) True h =
      (case ce_encodeResult env result of
         Err e \<Rightarrow> (Err (CheckError 500 ''internal error while encoding scan result''), h1)
       | Ok body \<Rightarrow> (Ok (result, body), h1))"
    unfolding buildCheckResult_def c by (simp only: prod.case sum.case Let_def state) (rule exI, rule refl)
  then obtain result where "(case ce_encodeResult env result of
         Err e \<Rightarrow> (Err (CheckError 500 ''internal error while encoding scan result''), h1)
       | Ok body \<Rightarrow> (Ok (result, body), h1)) = (res, h2)" using build by metis
  moreover obtain body where "ce_encodeResult env result = Ok body" using assms(4) by blast
  ultimately have res: "res = Ok (result, body)" by simp
  obtain p h3 where persist: "persistCheckScanLog env dev_check_ops r parts idempotency result body h2 = (p, h3)" by fastforce
  from persistCheckScanLog_dev [OF persist fresh] obtain e where
    e: "logged parts idempotency result e" "ch_store h3 = snd (InsertScanLog e (ch_store h2))" by blast
  have "scanLogs (ch_store h3) = [e]" using e(2) h2 assms(3) by (simp add: InsertScanLog_def)
  moreover have "sl_RequestDigest e = pt_requestDigest parts" using e(1) by (simp add: logged_def)
  ultimately have "verifyCheckIdempotencyAfterLog dev_check_ops r (ir_storedKey idempotency) (pt_idempotencyKey parts)
      (pt_requestDigest parts) (ch_store h3) = None" by (rule verify_first)
  then have "p = None" using persist fresh by (auto simp: persistCheckScanLog_def logScan_def Let_def split: prod.splits option.splits)
  then show ?thesis using assms(1,2) resolve fresh build res persist by (simp add: HandleCheck_def)
qed

section \<open>What an answer contains\<close>

definition wire_key :: "checkPackage \<Rightarrow> gostring \<times> gostring \<times> gostring" where
  "wire_key p =
     (let ecosystem = ToLower (TrimSpace (wp_Ecosystem p)) in
      (ecosystem, NormalizeName ecosystem (TrimSpace (wp_Name p)), TrimSpace (wp_Version p)))"

lemma wire_keys: "checkPackageKey ` set (map check_identity (checkPackagesToDomain packages)) = wire_key ` set packages"
  by (simp add: checkPackagesToDomain_def check_identity_def checkPackageKey_def wire_key_def Let_def image_image)

lemma keyless_insert: "sl_IdempotencyKey e = [] \<Longrightarrow> snd (InsertScanLog e st) = st\<lparr>scanLogs := scanLogs st @ [e]\<rparr>"
  by (simp add: InsertScanLog_def)

lemma resolve_keyless:
  "resolveCheckIdempotency env ops r [] digest st = Ok idempotency \<Longrightarrow> \<not> ir_replay idempotency \<and> ir_storedKey idempotency = []"
  by (auto simp: resolveCheckIdempotency_def)

lemma keyless_answer:
  assumes "HandleCheck env dev_check_ops r h = (CheckAnswer code dur body, h')" and "TrimSpace (cq_IdempotencyHeader r) = []"
  shows "code = 200 \<and> (\<exists>wire result e. cq_Body r = Ok wire \<and> ce_encodeResult env result = Ok body \<and>
    set (rs_Findings result) = (\<Union>p \<in> set (wr_Packages wire). known_findings (ch_store h) (wire_key p)) \<and>
    rs_PackagesScanned result = card (wire_key ` set (wr_Packages wire)) \<and>
    rs_FindingsBlocking result = FindingsBlock (rs_Findings result) (effectiveBlockThreshold h) \<and>
    ch_store h' = (ch_store h)\<lparr>scanLogs := scanLogs (ch_store h) @ [e]\<rparr> \<and>
    sl_FindingIDs e = map f_AdvisoryID (rs_Findings result) \<and> sl_FindingsBlocking e = rs_FindingsBlocking result)"
proof -
  have keyless: "pt_idempotencyKey parts = []" if "check_step_of env r (ch_store h) parts idempotency" for parts idempotency
    using that assms(2) unfolding check_step_of_def by (auto elim!: parseCheckRequest_Ok dest: checkIdempotencyKey_trimmed)
  show ?thesis
    using assms(1)
  proof (cases rule: HandleCheck_cases)
    case refused
    then show ?thesis by simp
  next
    case (replayed parts idempotency)
    then show ?thesis using keyless resolve_keyless unfolding check_step_of_def by metis
  next
    case (fresh parts idempotency result body' e)
    have stored: "ir_storedKey idempotency = []"
      using fresh(1) keyless [OF fresh(1)] resolve_keyless unfolding check_step_of_def by metis
    obtain wire where wire: "cq_Body r = Ok wire"
      "sq_Packages (pt_request parts) = deduplicateCheckPackages (map check_identity (checkPackagesToDomain (wr_Packages wire)))"
      using fresh(1) unfolding check_step_of_def by (auto elim!: parseCheckRequest_Ok)
    have keys: "checkPackageKey ` set (sq_Packages (pt_request parts)) = wire_key ` set (wr_Packages wire)"
      unfolding wire(2) deduplicate_keys wire_keys ..
    have count: "length (sq_Packages (pt_request parts)) = card (wire_key ` set (wr_Packages wire))"
      unfolding wire(2) deduplicate_length wire_keys ..
    have "ch_store h' = (ch_store h)\<lparr>scanLogs := scanLogs (ch_store h) @ [e]\<rparr>"
      using fresh(5,6) stored keyless_insert by (simp add: logged_def)
    moreover have "sl_FindingIDs e = map f_AdvisoryID (rs_Findings result) \<and> sl_FindingsBlocking e = rs_FindingsBlocking result"
      using fresh(5) by (simp add: logged_def)
    moreover have "code = 200" "body = body'" using fresh(7) by auto
    ultimately show ?thesis using fresh(3) wire(1) keys count unfolding checked_def by (auto simp: image_image)
  qed
qed

text \<open>
  C9: The answer to a check is exact. A request without an idempotency key that is answered is
  answered with the encoding of a result that holds, for every package of the request under its
  normalized identity, every vulnerability and every malicious finding the store knows for it, and
  nothing else; it counts each distinct package once and blocks exactly if a finding blocks under the
  threshold in force; and one row, which says the same, is appended to the scan log while the rest of
  the store stays as it is.
\<close>

theorem check_answer_exact:
  assumes "HandleCheck env dev_check_ops r h = (CheckAnswer code dur body, h')" and "TrimSpace (cq_IdempotencyHeader r) = []"
  shows "code = 200 \<and> (\<exists>wire result e. cq_Body r = Ok wire \<and> ce_encodeResult env result = Ok body \<and>
    set (rs_Findings result) = (\<Union>p \<in> set (wr_Packages wire). known_findings (ch_store h) (wire_key p)) \<and>
    rs_PackagesScanned result = card (wire_key ` set (wr_Packages wire)) \<and>
    rs_FindingsBlocking result = FindingsBlock (rs_Findings result) (effectiveBlockThreshold h) \<and>
    ch_store h' = (ch_store h)\<lparr>scanLogs := scanLogs (ch_store h) @ [e]\<rparr> \<and>
    sl_FindingIDs e = map f_AdvisoryID (rs_Findings result) \<and> sl_FindingsBlocking e = rs_FindingsBlocking result)"
  using keyless_answer [OF assms] .

definition plain_env :: CheckEnv where
  "plain_env = \<lparr>ce_sha256Hex = (\<lambda>s. replicate (length s) CHR ''0''),
     ce_encodeResult = (\<lambda>result. Ok (rs_ScanID result @ concat (map f_AdvisoryID (rs_Findings result)))),
     ce_formatTime = (\<lambda>t. Itoa t), ce_boundedDiagnostic = (\<lambda>s n. take n s)\<rparr>"

definition check_of :: "gostring \<Rightarrow> checkPackage list \<Rightarrow> CheckHTTP" where
  "check_of key packages =
     \<lparr>cq_Method = ''POST'', cq_ContentTypeError = None, cq_Body = Ok \<lparr>wr_Packages = packages, wr_Repo = None\<rparr>,
      cq_IdempotencyHeader = key, cq_UserAgent = ''packmon-cli/1.2.3'', cq_ClientIP = ''192.0.2.1'', cq_CorrelationID = ''c'',
      cq_APIKeyIdentity = None, cq_NewID = ''scan-1'', cq_Start = 10 * second, cq_Now = 11 * second, cq_Alive = True\<rparr>"

definition evil_request :: CheckHTTP where
  "evil_request = check_of [] [\<lparr>wp_Name = ''Evil_Pkg'', wp_Version = ''1'', wp_Ecosystem = ''pypi''\<rparr>]"

definition evil_store :: Store where
  "evil_store = snd (UpsertMaliciousFinding (Some (example_finding\<lparr>mf_Versions := []\<rparr>)) NewStore)"

definition dev_handler :: "Store \<Rightarrow> Store CheckHandler" where
  "dev_handler st = NewHandlerWithBlockThreshold ''minimal'' ''HIGH'' st"

lemma plain_env_encodes: "\<exists>body. ce_encodeResult plain_env result = Ok body"
  by (simp add: plain_env_def)

lemma dev_handler_store [simp]: "ch_store (dev_handler st) = st"
  by (simp add: dev_handler_def NewHandlerWithBlockThreshold_def)

theorem check_answer_exact_witness:
  "\<exists>code dur body h' result. HandleCheck plain_env dev_check_ops evil_request (dev_handler evil_store) = (CheckAnswer code dur body, h') \<and>
     ce_encodeResult plain_env result = Ok body \<and> rs_Findings result \<noteq> []"
proof -
  let ?run = "HandleCheck plain_env dev_check_ops evil_request (dev_handler evil_store)"
  have "(case parseCheckRequest plain_env evil_request of Ok p \<Rightarrow> True | Err e \<Rightarrow> False)" by code_simp
  then obtain parts where "parseCheckRequest plain_env evil_request = Ok parts" by (auto split: sum.splits)
  moreover have "cq_Method evil_request = ''POST''" by (simp add: evil_request_def check_of_def)
  moreover have "scanLogs (ch_store (dev_handler evil_store)) = []" by code_simp
  ultimately have "answered (fst ?run)" using first_check_answered plain_env_encodes by blast
  then obtain code dur body where "fst ?run = CheckAnswer code dur body" by (cases "fst ?run") auto
  then have run: "?run = (CheckAnswer code dur body, snd ?run)" by (simp add: prod_eq_iff)
  have "TrimSpace (cq_IdempotencyHeader evil_request) = []" by (simp add: evil_request_def check_of_def)
  from check_answer_exact [OF run this] obtain wire result where
    result: "cq_Body evil_request = Ok wire" "ce_encodeResult plain_env result = Ok body"
      "set (rs_Findings result) = (\<Union>p \<in> set (wr_Packages wire). known_findings (ch_store (dev_handler evil_store)) (wire_key p))"
    by (elim conjE exE)
  have "wr_Packages wire = [\<lparr>wp_Name = ''Evil_Pkg'', wp_Version = ''1'', wp_Ecosystem = ''pypi''\<rparr>]"
    using result(1) by (auto simp: evil_request_def check_of_def)
  moreover have "map f_AdvisoryID (FindMalicious ''pypi'' ''evil-pkg'' ''1'' evil_store) = [''MAL-1'']" by code_simp
  moreover have "wire_key \<lparr>wp_Name = ''Evil_Pkg'', wp_Version = ''1'', wp_Ecosystem = ''pypi''\<rparr> = (''pypi'', ''evil-pkg'', ''1'')" by code_simp
  ultimately have "rs_Findings result \<noteq> []" using result(3) by (auto simp: known_findings_def)
  with run result(2) show ?thesis by (intro exI conjI)
qed

section \<open>One request per key\<close>

text \<open>
  The life of a server: requests, changes of the threshold, and the other operations of the store in
  any order. Rows of the scan log come from requests only, and none are pruned.
\<close>

inductive check_step :: "CheckEnv \<Rightarrow> DevEnv \<Rightarrow> Store CheckHandler \<Rightarrow> Store CheckHandler \<Rightarrow> bool" for env denv where
  request: "HandleCheck env dev_check_ops r h = (resp, h') \<Longrightarrow> check_step env denv h h'"
| threshold: "check_step env denv h (h\<lparr>ch_runtime := raw\<rparr>)"
| queue: "queue_step denv (ch_store h) st \<Longrightarrow> check_step env denv h (h\<lparr>ch_store := st\<rparr>)"
| retry: "retry_step denv (ch_store h) st \<Longrightarrow> check_step env denv h (h\<lparr>ch_store := st\<rparr>)"
| finding: "finding_step denv (ch_store h) st \<Longrightarrow> check_step env denv h (h\<lparr>ch_store := st\<rparr>)"
| admin: "admin_step denv (ch_store h) st \<Longrightarrow> check_step env denv h (h\<lparr>ch_store := st\<rparr>)"

interpretation logs_queue: queue_frame env "\<lambda>st. scanLogs st = rows" for env rows
  by unfold_locales simp_all

interpretation logs_finding: finding_frame env "\<lambda>st. scanLogs st = rows" for env rows
  by unfold_locales simp_all

interpretation logs_admin: admin_frame env "\<lambda>st. scanLogs st = rows" for env rows
  by unfold_locales simp_all

definition row_fine :: "ScanLogEntry \<Rightarrow> bool" where
  "row_fine e \<longleftrightarrow> (sl_IdempotencyKey e = [] \<or> HasPrefix (sl_IdempotencyKey e) ''sha256:'') \<and> sl_RequestDigest e \<noteq> []"

lemma digest_not_Nil: "parseCheckRequest env r = Ok parts \<Longrightarrow> pt_requestDigest parts \<noteq> []"
  by (auto elim!: parseCheckRequest_Ok simp: checkRequestDigest_def)

lemma stored_key: "resolveCheckIdempotency env ops r k digest st = Ok idempotency \<Longrightarrow>
    ir_storedKey idempotency = (if k = [] then [] else scanLogIdempotencyKey env k)"
  by (auto simp: resolveCheckIdempotency_def Let_def split: if_splits sum.splits option.splits)

lemma stored_prefix: "scanLogIdempotencyKey env k = [] \<or> HasPrefix (scanLogIdempotencyKey env k) ''sha256:''"
  by (simp add: scanLogIdempotencyKey_def HasPrefix_def Let_def)

lemma logged_fine:
  assumes "check_step_of env r st parts idempotency" and "logged parts idempotency result e"
  shows "row_fine e"
  using assms digest_not_Nil stored_key stored_prefix unfolding check_step_of_def logged_def row_fine_def by metis

lemma insert_appends: "\<exists>es. scanLogs (snd (InsertScanLog e st)) = scanLogs st @ es \<and> set es \<subseteq> {e}"
  by (simp add: InsertScanLog_def)

lemma check_step_rows:
  assumes "check_step env denv h h'" and "list_all row_fine (scanLogs (ch_store h))"
  shows "\<exists>es. scanLogs (ch_store h') = scanLogs (ch_store h) @ es \<and> list_all row_fine (scanLogs (ch_store h'))"
  using assms(1)
proof cases
  case (request r resp)
  from request show ?thesis
  proof (cases rule: HandleCheck_cases)
    case (fresh parts idempotency result body e)
    then show ?thesis using logged_fine [OF fresh(1,5)] insert_appends [of e "ch_store h"] assms(2) by (auto simp: list_all_iff)
  qed (use assms(2) in auto)
next
  case (queue st)
  then show ?thesis using logs_queue.queue_step_keeps [OF queue(2) refl] assms(2) by simp
next
  case (retry st)
  then show ?thesis using logs_queue.retry_step_keeps [OF retry(2) refl] assms(2) by simp
next
  case (finding st)
  then show ?thesis using logs_finding.finding_step_keeps [OF finding(2) refl] assms(2) by simp
next
  case (admin st)
  then show ?thesis using logs_admin.admin_step_keeps [OF admin(2) refl] assms(2) by simp
qed (use assms(2) in simp)

lemma check_steps_rows:
  assumes "(check_step env denv)\<^sup>*\<^sup>* h h'" and "list_all row_fine (scanLogs (ch_store h))"
  shows "\<exists>es. scanLogs (ch_store h') = scanLogs (ch_store h) @ es \<and> list_all row_fine (scanLogs (ch_store h'))"
  using assms(1)
proof (induction rule: rtranclp_induct)
  case base
  then show ?case using assms(2) by simp
next
  case (step h1 h2)
  then show ?case using check_step_rows by (metis append.assoc)
qed

definition sha256_hex :: "CheckEnv \<Rightarrow> bool" where
  "sha256_hex env \<longleftrightarrow> (\<forall>s. list_all isHexDigit (ce_sha256Hex env s))"

definition row_under :: "CheckEnv \<Rightarrow> gostring \<Rightarrow> Store \<Rightarrow> ScanLogEntry option" where
  "row_under env k st = find (\<lambda>e. sl_IdempotencyKey e = scanLogIdempotencyKey env k) (scanLogs st)"

definition client_key :: "gostring \<Rightarrow> bool" where
  "client_key k \<longleftrightarrow> k \<noteq> [] \<and> TrimSpace k = k \<and> \<not> HasPrefix k ''sha256:''"

lemma hex_plain: "isHexDigit c \<Longrightarrow> byte c < 128 \<and> \<not> ascii_space c"
  by (auto simp: isHexDigit_def isDigit_def ascii_space_def)

lemma stored_key_trimmed:
  assumes "sha256_hex env"
  shows "TrimSpace (scanLogIdempotencyKey env k) = scanLogIdempotencyKey env k"
proof (rule TrimSpace_plain, rule ballI)
  fix c assume "c \<in> set (scanLogIdempotencyKey env k)"
  moreover have "isHexDigit c \<Longrightarrow> byte c < 128 \<and> \<not> ascii_space c" by (rule hex_plain)
  moreover have "byte x < 128 \<and> \<not> ascii_space x" if "x \<in> set ''sha256:''" for x
    using that by (auto simp: ascii_space_def)
  ultimately show "byte c < 128 \<and> \<not> ascii_space c"
    using assms unfolding scanLogIdempotencyKey_def sha256_hex_def Let_def list_all_iff
    by (fastforce split: if_splits)
qed

lemma existing_dev:
  assumes "sha256_hex env" and "list_all row_fine (scanLogs st)" and "client_key k"
  shows "existingIdempotentScan dev_check_ops (scanLogIdempotencyKey env k) k st = Ok (row_under env k st)"
proof -
  have none: "find (\<lambda>e. sl_IdempotencyKey e = k) (scanLogs st) = None"
    using assms(2,3) by (auto simp: find_None_iff client_key_def row_fine_def list_all_iff)
  have ne: "scanLogIdempotencyKey env k \<noteq> []" using assms(3) by (simp add: scanLogIdempotencyKey_def client_key_def)
  have diff: "k \<noteq> scanLogIdempotencyKey env k" using assms(3) stored_prefix [of env k] ne by (auto simp: client_key_def)
  show ?thesis
    using assms(3) none ne diff
    by (auto simp: existingIdempotentScan_def scanLogIdempotencyLookupKeys_def stored_key_trimmed [OF assms(1)] client_key_def
        GetScanLogByIdempotencyKey_def row_under_def split: option.split)
qed

lemma row_under_stays: "scanLogs st' = scanLogs st @ es \<Longrightarrow> row_under env k st = Some e \<Longrightarrow> row_under env k st' = Some e"
  by (simp add: row_under_def find_append)

lemma answered_bound:
  assumes "HandleCheck env dev_check_ops r h = (resp, h')" and "answered resp" and "parseCheckRequest env r = Ok parts"
    and "client_key (pt_idempotencyKey parts)" and "sha256_hex env" and "list_all row_fine (scanLogs (ch_store h))"
  shows "\<exists>e. row_under env (pt_idempotencyKey parts) (ch_store h') = Some e \<and> sl_RequestDigest e = pt_requestDigest parts"
  using assms(1)
proof (cases rule: HandleCheck_cases)
  case refused
  then show ?thesis using assms(2) by simp
next
  case (replayed parts' idempotency)
  then have "parts' = parts" using assms(3) by (simp add: check_step_of_def)
  then have "resolveCheckIdempotency env dev_check_ops r (pt_idempotencyKey parts) (pt_requestDigest parts) (ch_store h) = Ok idempotency"
    using replayed(1) by (simp add: check_step_of_def)
  then obtain e where e: "row_under env (pt_idempotencyKey parts) (ch_store h) = Some e"
      "sl_RequestDigest e = [] \<or> sl_RequestDigest e = pt_requestDigest parts"
    using replayed(2) assms(4)
    by (auto simp: resolveCheckIdempotency_def existing_dev [OF assms(5,6,4)] client_key_def Let_def split: option.splits if_splits)
  then have "row_fine e" using assms(6) by (auto simp: row_under_def find_Some_iff list_all_iff)
  then show ?thesis using e replayed(3) by (auto simp: row_fine_def)
next
  case (fresh parts' idempotency result body e)
  then have parts: "parts' = parts" using assms(3) by (simp add: check_step_of_def)
  have resolve: "resolveCheckIdempotency env dev_check_ops r (pt_idempotencyKey parts) (pt_requestDigest parts) (ch_store h) = Ok idempotency"
    using fresh(1) parts by (simp add: check_step_of_def)
  then have none: "row_under env (pt_idempotencyKey parts) (ch_store h) = None"
    using fresh(2) assms(4)
    by (auto simp: resolveCheckIdempotency_def existing_dev [OF assms(5,6,4)] client_key_def Let_def split: option.splits if_splits)
  have key: "sl_IdempotencyKey e = scanLogIdempotencyKey env (pt_idempotencyKey parts)" "sl_RequestDigest e = pt_requestDigest parts"
    using fresh(5) stored_key [OF resolve] assms(4) parts by (auto simp: logged_def client_key_def)
  have "scanLogs (ch_store h') = scanLogs (ch_store h) @ [e]"
    using none fresh(6) key(1) by (auto simp: InsertScanLog_def row_under_def find_None_iff list_ex_iff)
  then show ?thesis using none key by (simp add: row_under_def find_append)
qed

lemma bound_key_decides:
  assumes "HandleCheck env dev_check_ops r h = (resp, h')" and "cq_Method r = ''POST''" and "parseCheckRequest env r = Ok parts"
    and "client_key (pt_idempotencyKey parts)" and "sha256_hex env" and "list_all row_fine (scanLogs (ch_store h))"
    and "row_under env (pt_idempotencyKey parts) (ch_store h) = Some e"
  shows "(sl_RequestDigest e \<noteq> pt_requestDigest parts \<longrightarrow> resp = idempotency_conflict \<and> h' = h) \<and>
    (sl_RequestDigest e = pt_requestDigest parts \<longrightarrow> ch_store h' = ch_store h)"
proof -
  have fine: "sl_RequestDigest e \<noteq> []" using assms(6,7) by (auto simp: row_under_def find_Some_iff list_all_iff row_fine_def)
  let ?resolve = "resolveCheckIdempotency env dev_check_ops r (pt_idempotencyKey parts) (pt_requestDigest parts) (ch_store h)"
  show ?thesis
  proof (intro conjI impI)
    assume "sl_RequestDigest e \<noteq> pt_requestDigest parts"
    then have "?resolve = Err idempotency_conflict"
      using assms(4,7) fine by (simp add: resolveCheckIdempotency_def existing_dev [OF assms(5,6,4)] client_key_def Let_def)
    then have "resp = idempotency_conflict \<and> h' = h" using assms(1-3) by (simp add: HandleCheck_def)
    then show "resp = idempotency_conflict" "h' = h" by simp_all
  next
    assume "sl_RequestDigest e = pt_requestDigest parts"
    then have "\<exists>i. ?resolve = Ok i \<and> ir_replay i"
      using assms(4,7) fine by (simp add: resolveCheckIdempotency_def existing_dev [OF assms(5,6,4)] client_key_def Let_def)
    then have replay: "ir_replay i" if "check_step_of env r (ch_store h) parts i" for i using that by (auto simp: check_step_of_def)
    show "ch_store h' = ch_store h"
      using assms(1)
    proof (cases rule: HandleCheck_cases)
      case (fresh parts' idempotency result body e)
      then have "parts' = parts" using assms(3) by (simp add: check_step_of_def)
      then show ?thesis using fresh(1,2) replay by blast
    qed
  qed
qed


definition keyed_request :: "gostring \<Rightarrow> CheckHTTP" where
  "keyed_request version = check_of ''run-7'' [\<lparr>wp_Name = ''left-pad'', wp_Version = version, wp_Ecosystem = ''npm''\<rparr>]"

definition request_id :: "CheckHTTP \<Rightarrow> (gostring \<times> gostring) option" where
  "request_id r = (case parseCheckRequest plain_env r of Err e \<Rightarrow> None | Ok p \<Rightarrow> Some (pt_idempotencyKey p, pt_requestDigest p))"

lemma request_id_Some:
  assumes "map_option fst (request_id r) = Some k"
  obtains p where "parseCheckRequest plain_env r = Ok p" "pt_idempotencyKey p = k" "request_id r = Some (k, pt_requestDigest p)"
  using assms by (auto simp: request_id_def split: sum.splits)

lemma plain_env_hex: "sha256_hex plain_env"
proof -
  have "isHexDigit CHR ''0''" by code_simp
  then show ?thesis by (simp add: sha256_hex_def plain_env_def list_all_iff)
qed


section \<open>The cache over its history\<close>

datatype cache_op = GetAt gotime gostring | SetAt gotime gostring cachedCheckResponse

fun run_op :: "cache_op \<Rightarrow> checkResponseCache \<Rightarrow> checkResponseCache" where
  "run_op (GetAt now key) c = snd (cache_Get now key c)"
| "run_op (SetAt now key response) c = cache_Set now key response c"

definition cacheable :: "gostring \<Rightarrow> cachedCheckResponse \<Rightarrow> bool" where
  "cacheable key response \<longleftrightarrow> \<not> (key = [] \<or> cr_statusCode response < 200 \<or> cr_statusCode response \<ge> 300 \<or> cr_body response = [])"

text \<open>The specification: the last response a history sets for a key, and when.\<close>

fun last_set :: "gostring \<Rightarrow> cache_op list \<Rightarrow> (gotime \<times> cachedCheckResponse) option" where
  "last_set key [] = None"
| "last_set key (GetAt now k # ops) = last_set key ops"
| "last_set key (SetAt now k response # ops) =
     (case last_set key ops of Some x \<Rightarrow> Some x | None \<Rightarrow> if k = key \<and> cacheable k response then Some (now, response) else None)"

lemma last_set_snoc:
  "last_set key (ops @ [GetAt now k]) = last_set key ops"
  "last_set key (ops @ [SetAt now k response]) = (if k = key \<and> cacheable k response then Some (now, response) else last_set key ops)"
  by (induction ops rule: last_set.induct) (auto split: option.split)

definition cache_ok :: "duration \<Rightarrow> int \<Rightarrow> cache_op list \<Rightarrow> checkResponseCache \<Rightarrow> bool" where
  "cache_ok ttl limit ops c \<longleftrightarrow>
     cc_ttl c = ttl \<and> cc_maxEntries c = limit \<and> 0 < limit \<and> distinct (map fst (cc_entries c)) \<and> [] \<notin> fst ` set (cc_entries c) \<and>
     int (length (cc_entries c)) \<le> limit \<and>
     (\<forall>(k, e) \<in> set (cc_entries c). last_set k ops = Some (ce_stored e, ce_response e) \<and> ce_expires e = ce_stored e + ttl)"

lemma oldest_loop_in: "oldest_loop key t entries = key \<or> oldest_loop key t entries \<in> fst ` set entries"
  by (induction key t entries rule: oldest_loop.induct) auto

lemma oldest_loop_Cons: "oldest_loop [] t ((k, e) # entries) = oldest_loop k (ce_stored e) entries"
  by simp

lemma delete_distinct: "distinct (map fst m) \<Longrightarrow> distinct (map fst (AList.delete k m))"
  by (simp add: AList.distinct_delete)

lemma delete_subset: "set (AList.delete k m) \<subseteq> set m"
  by (auto simp: AList.delete_eq)

lemma delete_length:
  assumes "k \<in> fst ` set m"
  shows "length (AList.delete k m) < length m"
proof -
  have "AList.delete k m = filter (\<lambda>x. fst x \<noteq> k) m" unfolding AList.delete_eq by (rule filter_cong) auto
  then show ?thesis using assms length_filter_less [of _ m "\<lambda>x. fst x \<noteq> k"] by (metis imageE)
qed

lemma delete_length_le: "length (AList.delete k m) \<le> length m"
  by (simp add: AList.delete_eq)

lemma cache_okD:
  assumes "cache_ok ttl limit ops c"
  shows "cc_ttl c = ttl" "cc_maxEntries c = limit" "0 < limit" "distinct (map fst (cc_entries c))"
    "k \<in> fst ` set (cc_entries c) \<Longrightarrow> k \<noteq> []" "int (length (cc_entries c)) \<le> limit"
    "(k, e) \<in> set (cc_entries c) \<Longrightarrow> last_set k ops = Some (ce_stored e, ce_response e) \<and> ce_expires e = ce_stored e + ttl"
  using assms unfolding cache_ok_def by (auto simp: image_iff)

lemma cache_ok_subset:
  assumes "cache_ok ttl limit ops c" and "set m \<subseteq> set (cc_entries c)" and "distinct (map fst m)" and "length m \<le> length (cc_entries c)"
  shows "cache_ok ttl limit ops (c\<lparr>cc_entries := m\<rparr>)"
proof -
  have "\<forall>(k, e) \<in> set m. last_set k ops = Some (ce_stored e, ce_response e) \<and> ce_expires e = ce_stored e + ttl"
    using assms(2) cache_okD(7) [OF assms(1)] by blast
  moreover have "[] \<notin> fst ` set m" using assms(2) cache_okD(5) [OF assms(1), of "[]"] by blast
  ultimately show ?thesis
    using assms(3,4) cache_okD(1,2,3,6) [OF assms(1)] unfolding cache_ok_def by simp
qed

lemma cache_ok_delete:
  assumes "cache_ok ttl limit ops c"
  shows "cache_ok ttl limit ops (c\<lparr>cc_entries := AList.delete k (cc_entries c)\<rparr>)"
  by (rule cache_ok_subset [OF assms delete_subset delete_distinct [OF cache_okD(4) [OF assms]] delete_length_le])

lemma cache_Get_ok: "cache_ok ttl limit ops c \<Longrightarrow> cache_ok ttl limit ops (snd (cache_Get now key c))"
  using cache_ok_delete by (simp add: cache_Get_def split: option.split)

lemma evict_ok:
  assumes "cache_ok ttl limit ops c"
  shows "cache_ok ttl limit ops (deleteOldestLocked c)" and
    "int (length (cc_entries c)) \<ge> limit \<Longrightarrow> int (length (cc_entries (deleteOldestLocked c))) < limit"
proof -
  show "cache_ok ttl limit ops (deleteOldestLocked c)"
    using assms cache_ok_delete [OF assms] by (simp add: deleteOldestLocked_def Let_def)
  assume full: "int (length (cc_entries c)) \<ge> limit"
  then obtain k e m where m: "cc_entries c = (k, e) # m" using cache_okD(3) [OF assms] by (cases "cc_entries c") auto
  then have old: "oldest_loop [] 0 (cc_entries c) \<in> fst ` set (cc_entries c)"
    using oldest_loop_in [of k "ce_stored e" m] by auto
  then have "oldest_loop [] 0 (cc_entries c) \<noteq> []" by (rule cache_okD(5) [OF assms])
  then show "int (length (cc_entries (deleteOldestLocked c))) < limit"
    using delete_length [OF old] cache_okD(6) [OF assms] by (simp add: deleteOldestLocked_def Let_def)
qed

lemma expire_ok: "cache_ok ttl limit ops c \<Longrightarrow> cache_ok ttl limit ops (deleteExpiredLocked now c)"
  unfolding deleteExpiredLocked_def
  by (rule cache_ok_subset) (auto dest: cache_okD(4) intro: distinct_map_filter)

lemma insert_ok:
  assumes "cache_ok ttl limit ops c" and "cacheable key response"
    and "map_of (cc_entries c) key \<noteq> None \<or> int (length (cc_entries c)) < limit"
  shows "cache_ok ttl limit (ops @ [SetAt now key response])
    (c\<lparr>cc_entries := AList.update key \<lparr>ce_response = response, ce_expires = now + ttl, ce_stored = now\<rparr> (cc_entries c)\<rparr>)"
proof -
  let ?e = "\<lparr>ce_response = response, ce_expires = now + ttl, ce_stored = now\<rparr>"
  let ?m = "AList.update key ?e (cc_entries c)"
  have distinct: "distinct (map fst ?m)" by (rule AList.distinct_update [OF cache_okD(4) [OF assms(1)]])
  have entries: "last_set k (ops @ [SetAt now key response]) = Some (ce_stored e, ce_response e) \<and> ce_expires e = ce_stored e + ttl"
    if "(k, e) \<in> set ?m" for k e
  proof (cases "k = key")
    case True
    have "map_of ?m k = Some e" using that distinct by simp
    then have "e = ?e" using True by (simp add: AList.update_conv')
    then show ?thesis using True assms(2) by (simp add: last_set_snoc)
  next
    case False
    have "map_of ?m k = Some e" using that distinct by simp
    then have "map_of (cc_entries c) k = Some e" using False by (simp add: AList.update_conv')
    then have "(k, e) \<in> set (cc_entries c)" by (rule map_of_SomeD)
    then show ?thesis using cache_okD(7) [OF assms(1)] False by (simp add: last_set_snoc)
  qed
  have keys: "fst ` set ?m = insert key (fst ` set (cc_entries c))" by (simp add: AList.dom_update)
  have "int (length ?m) \<le> limit"
  proof -
    have "length ?m = card (insert key (fst ` set (cc_entries c)))"
      using distinct_card [OF distinct] keys by simp
    moreover have "card (fst ` set (cc_entries c)) = length (cc_entries c)"
      using distinct_card [OF cache_okD(4) [OF assms(1)]] by simp
    ultimately show ?thesis
      using assms(3) cache_okD(6) [OF assms(1)] by (auto simp: card_insert_if map_of_eq_None_iff)
  qed
  moreover have "[] \<notin> fst ` set ?m" unfolding keys using assms(2) cache_okD(5) [OF assms(1), of "[]"] by (auto simp: cacheable_def)
  moreover have "\<forall>(k, e) \<in> set ?m. last_set k (ops @ [SetAt now key response]) = Some (ce_stored e, ce_response e) \<and>
      ce_expires e = ce_stored e + ttl"
    using entries by blast
  ultimately show ?thesis using distinct cache_okD(1-3) [OF assms(1)] unfolding cache_ok_def by simp
qed

lemma cache_ok_ignored:
  assumes "cache_ok ttl limit ops c" and "\<And>k. last_set k ops' = last_set k ops"
  shows "cache_ok ttl limit ops' c"
  using assms(1) unfolding cache_ok_def assms(2) .

lemma cache_Set_ok:
  assumes "cache_ok ttl limit ops c"
  shows "cache_ok ttl limit (ops @ [SetAt now key response]) (cache_Set now key response c)"
proof (cases "cacheable key response")
  case False
  then have "cache_Set now key response c = c" by (auto simp: cache_Set_def cacheable_def)
  then show ?thesis using cache_ok_ignored [OF assms] False by (simp add: last_set_snoc)
next
  case True
  let ?c1 = "deleteExpiredLocked now c"
  let ?c2 = "if map_of (cc_entries ?c1) key = None \<and> int (length (cc_entries ?c1)) \<ge> cc_maxEntries ?c1 then deleteOldestLocked ?c1 else ?c1"
  note ok1 = expire_ok [OF assms, of now]
  have ok2: "cache_ok ttl limit ops ?c2" using ok1 evict_ok(1) [OF ok1] by simp
  have "map_of (cc_entries ?c2) key \<noteq> None \<or> int (length (cc_entries ?c2)) < limit"
    using evict_ok(2) [OF ok1] cache_okD(2) [OF ok1] by auto
  from insert_ok [OF ok2 True this] show ?thesis
    using True unfolding cache_Set_def cacheable_def Let_def cache_okD(1) [OF ok2] by simp
qed

lemma run_cache_ok:
  assumes "newCheckResponseCache ttl limit = Some c0"
  shows "cache_ok ttl limit ops (fold run_op ops c0)"
proof (induction ops rule: rev_induct)
  case Nil
  then show ?case using assms by (auto simp: newCheckResponseCache_def cache_ok_def split: if_splits)
next
  case (snoc x ops)
  show ?case
  proof (cases x)
    case (GetAt now key)
    then show ?thesis using cache_ok_ignored [OF cache_Get_ok [OF snoc.IH]] by (simp add: last_set_snoc)
  next
    case (SetAt now key response)
    then show ?thesis using cache_Set_ok [OF snoc.IH] by simp
  qed
qed

text \<open>
  C30: Whatever is stored and read, the response cache never holds more entries than its limit, and what it
  returns for a key is the last response stored under that key, and not older than the time to live.
\<close>

theorem cache_serves_latest:
  assumes "newCheckResponseCache ttl limit = Some c0"
  shows "int (length (cc_entries (fold run_op ops c0))) \<le> limit \<and>
    (\<forall>now key response. fst (cache_Get now key (fold run_op ops c0)) = Some response \<longrightarrow>
      (\<exists>t. last_set key ops = Some (t, response) \<and> now < t + ttl))"
proof -
  note ok = run_cache_ok [OF assms, of ops]
  have "\<exists>t. last_set key ops = Some (t, response) \<and> now < t + ttl"
    if "fst (cache_Get now key (fold run_op ops c0)) = Some response" for now key response
  proof -
    from that obtain e where "map_of (cc_entries (fold run_op ops c0)) key = Some e" "ce_expires e > now" "ce_response e = response"
      by (auto simp: cache_Get_def split: if_splits option.splits)
    then show ?thesis using cache_okD(7) [OF ok, of key e] map_of_SomeD by fastforce
  qed
  then show ?thesis using cache_okD(6) [OF ok] by blast
qed

definition small_response :: "gostring \<Rightarrow> cachedCheckResponse" where
  "small_response body = \<lparr>cr_statusCode = 200, cr_durationMs = 1, cr_body = body\<rparr>"

definition cache_history :: "cache_op list" where
  "cache_history = [SetAt 1 ''k'' (small_response ''old''), SetAt 2 ''j'' (small_response ''x''), SetAt 3 ''k'' (small_response ''new''),
     GetAt 4 ''j'', SetAt 5 ''i'' (small_response ''y'')]"

theorem cache_serves_latest_witness:
  "\<exists>c0. newCheckResponseCache 10 2 = Some c0 \<and> length (cc_entries (fold run_op cache_history c0)) = 2 \<and>
     map_option cr_body (fst (cache_Get 6 ''k'' (fold run_op cache_history c0))) = Some ''new'' \<and>
     int (length (cc_entries (fold run_op cache_history c0))) \<le> 2"
proof -
  let ?c0 = "\<lparr>cc_ttl = 10, cc_maxEntries = 2, cc_entries = []\<rparr>"
  have start: "newCheckResponseCache 10 2 = Some ?c0" by (simp add: newCheckResponseCache_def)
  have "length (cc_entries (fold run_op cache_history ?c0)) = 2" by code_simp
  moreover have "map_option cr_body (fst (cache_Get 6 ''k'' (fold run_op cache_history ?c0))) = Some ''new''" by code_simp
  ultimately show ?thesis using start cache_serves_latest [OF start, of cache_history] by blast
qed

end
