(* ===== verification/ScanRun.thy ===== *)
theory ScanRun
  imports Collection CheckApi
begin

text \<open>
  A scan by the client (\<open>internal/scanner/scanner.go\<close>): the packages of a project are collected, sent to
  the server in batches or looked up in the local database, and the findings decide the exit code.

  Walking and parsing enter as in the theory of the collection. The network is a record of
  operations over a world of its own: sending a request gives a response or fails, and changes the
  world. The local database is a record of lookups that can fail. The texts of the errors quote
  values as the format \<open>%q\<close> does plain text, without escapes; a scan reads the clock at its start and, for the lifecycle, once later.

  The lemmas show that a passing exit code means a complete scan, that batching asks for every package
  once, and, with the model of the server behind the network, that a package the server knows as
  malicious never passes.
\<close>

section \<open>Modes and exit codes\<close>

definition ParseMode :: "gostring \<Rightarrow> (gostring, gostring) result" where
  "ParseMode raw =
     (let mode = ToLower (TrimSpace raw) in
      if mode = [] then Ok ScanModeAuto
      else if mode \<in> {ScanModeAuto, ScanModeRemote, ScanModeLocal} then Ok mode
      else Err (''invalid mode '' @ CHR 0x22 # mode @ CHR 0x22 # '' (want auto|local|remote)''))"

definition normalizeMode :: "gostring \<Rightarrow> gostring" where
  "normalizeMode raw = (case ParseMode raw of Err e \<Rightarrow> ScanModeAuto | Ok mode \<Rightarrow> mode)"

abbreviation ExitOK :: nat where "ExitOK \<equiv> 0"
abbreviation ExitBlocking :: nat where "ExitBlocking \<equiv> 1"
abbreviation ExitOperational :: nat where "ExitOperational \<equiv> 2"
abbreviation ExitUnderThreshold :: nat where "ExitUnderThreshold \<equiv> 3"
abbreviation ExitParser :: nat where "ExitParser \<equiv> 4"

record Config =
  sc_Mode :: gostring
  sc_ServerURL :: gostring
  sc_Repo :: "gostring option"
  sc_OmitRepoMetadata :: bool
  sc_FailOn :: Severity
  sc_Ecosystems :: "gostring list"
  sc_SBOMFiles :: "gostring list"
  sc_IncludeDev :: bool
  sc_InventoryAllPackages :: bool
  sc_AllowInsecureHTTP :: bool
  sc_RequireRemote :: bool

definition resolveMode :: "Config \<Rightarrow> gostring" where
  "resolveMode cfg = normalizeMode (sc_Mode cfg)"

section \<open>The remote check\<close>

text \<open>
  The outcome of one HTTP exchange: no response, an error response whose body cannot be read, or a
  response with its status, its body and the correlation suffix error texts get.
\<close>

datatype http_outcome =
    RequestFailed gostring
  | BodyUnreadable gostring
  | HttpResponse nat gostring gostring

record 'w RemoteOps =
  ro_clientErr :: "gostring option"
  ro_newRequest :: "gostring \<Rightarrow> gostring option"
  ro_ensureClient :: "gostring option"
  ro_parseURL :: "gostring \<Rightarrow> (gostring, gostring) result"
  ro_redactURL :: "gostring \<Rightarrow> gostring"
  ro_exchange :: "gostring \<Rightarrow> ScanRequest \<Rightarrow> 'w \<Rightarrow> http_outcome \<times> 'w"
  ro_decode :: "gostring \<Rightarrow> (gostring, ScanResult) result"
  ro_snippet :: "gostring \<Rightarrow> gostring"

definition remoteScanPackages :: "Package list \<Rightarrow> Package list" where
  "remoteScanPackages pkgs =
     map (\<lambda>pkg. zero_package\<lparr>pk_Name := pk_Name pkg, pk_Version := pk_Version pkg, pk_Ecosystem := pk_Ecosystem pkg\<rparr>) pkgs"

definition remoteScanRepo :: "gostring option \<Rightarrow> gostring option" where
  "remoteScanRepo repo =
     (case repo of None \<Rightarrow> None | Some name \<Rightarrow> let name = TrimSpace name in if name = [] then None else Some name)"

definition remote_status_error :: "'w RemoteOps \<Rightarrow> nat \<Rightarrow> gostring \<Rightarrow> gostring \<Rightarrow> gostring" where
  "remote_status_error ops code body correlation =
     ''server returned '' @ Itoa (int code) @ '': '' @ ro_snippet ops body @ correlation @
     (if code = 401 then '' (check PACKMON_API_KEY, --api-key, or api_key_env configuration)''
      else if code = 403 then '' (check Packmon CLI version, User-Agent policy, or server request policy)'' else [])"

definition postRemoteCheck ::
    "'w RemoteOps \<Rightarrow> Config \<Rightarrow> gostring \<Rightarrow> Package list \<Rightarrow> 'w \<Rightarrow> (gostring, ScanResult) result \<times> 'w" where
  "postRemoteCheck ops cfg endpoint pkgs w =
     (let repo = (if sc_OmitRepoMetadata cfg then None else remoteScanRepo (sc_Repo cfg)) in
      case ro_newRequest ops endpoint of
        Some e \<Rightarrow> (Err (''create request: '' @ e), w)
      | None \<Rightarrow>
      case ro_ensureClient ops of
        Some e \<Rightarrow> (Err e, w)
      | None \<Rightarrow>
          (case ro_exchange ops endpoint \<lparr>sq_Packages = pkgs, sq_Repo = repo\<rparr> w of
             (RequestFailed e, w) \<Rightarrow> (Err (''server request: '' @ e), w)
           | (BodyUnreadable e, w) \<Rightarrow> (Err (''read response: '' @ e), w)
           | (HttpResponse code body correlation, w) \<Rightarrow>
               if code \<noteq> 200 then (Err (remote_status_error ops code body correlation), w)
               else (case ro_decode ops body of Err e \<Rightarrow> (Err (''decode response: '' @ e), w) | Ok result \<Rightarrow> (Ok result, w))))"

definition normalizeScanFeedStatus :: "gostring \<Rightarrow> gostring" where
  "normalizeScanFeedStatus status =
     (let s = TrimSpace status in
      if s \<in> {[], ScanFeedStatusHealthy} then ScanFeedStatusHealthy
      else if s = ScanFeedStatusDegraded then ScanFeedStatusDegraded
      else if s = ScanFeedStatusError then ScanFeedStatusError
      else ScanFeedStatusDegraded)"

definition mergeRemoteFeedStatus :: "gostring \<Rightarrow> gostring \<Rightarrow> gostring" where
  "mergeRemoteFeedStatus current next =
     (let current = normalizeScanFeedStatus current; next = normalizeScanFeedStatus next in
      if next = ScanFeedStatusHealthy then current
      else if current = ScanFeedStatusHealthy then next
      else if current = ScanFeedStatusError \<or> next = ScanFeedStatusError then ScanFeedStatusError
      else if current = ScanFeedStatusDegraded \<or> next = ScanFeedStatusDegraded then ScanFeedStatusDegraded
      else current)"

definition zero_result :: ScanResult where
  "zero_result =
     \<lparr>rs_ScanID = [], rs_Mode = [], rs_ScannedAt = 0, rs_DurationMs = 0, rs_PackagesScanned = 0, rs_FindingsCount = 0,
      rs_FindingsBlocking = False, rs_BlockThreshold = [], rs_FeedStatus = [], rs_ScanError = [], rs_DBAgeDays = None,
      rs_DBStale = False, rs_Summary = EmptyScanSummary, rs_Findings = [], rs_ParseErrors = [], rs_FindingsTruncated = False,
      rs_FeedVersions = [], rs_ManualAdvisoriesCount = 0\<rparr>"

text \<open>What the loop over the batches has gathered: findings, feed versions, feed status and the verdict.\<close>

record remote_acc =
  ra_findings :: "Finding list"
  ra_feedVersions :: "(gostring \<times> gostring) list"
  ra_feedStatus :: gostring
  ra_blocking :: bool

definition add_batch :: "ScanResult \<Rightarrow> remote_acc \<Rightarrow> remote_acc" where
  "add_batch result acc =
     \<lparr>ra_findings = ra_findings acc @ rs_Findings result,
      ra_feedVersions = fold (\<lambda>(k, v). AList.update k v) (rs_FeedVersions result) (ra_feedVersions acc),
      ra_feedStatus = mergeRemoteFeedStatus (ra_feedStatus acc) (rs_FeedStatus result),
      ra_blocking = (ra_blocking acc \<or> rs_FindingsBlocking result)\<rparr>"

function batch_loop ::
    "'w RemoteOps \<Rightarrow> Config \<Rightarrow> gostring \<Rightarrow> Package list \<Rightarrow> remote_acc \<Rightarrow> 'w \<Rightarrow> (gostring, remote_acc) result \<times> 'w" where
  "batch_loop ops cfg endpoint pkgs acc w =
     (if pkgs = [] then (Ok acc, w)
      else case postRemoteCheck ops cfg endpoint (take MaxPackagesPerCheck pkgs) w of
             (Err e, w) \<Rightarrow> (Err e, w)
           | (Ok result, w) \<Rightarrow> batch_loop ops cfg endpoint (drop MaxPackagesPerCheck pkgs) (add_batch result acc) w)"
  by pat_completeness auto

termination
  by (relation "measure (\<lambda>(ops, cfg, endpoint, pkgs, acc, w). length pkgs)") (auto simp: MaxPackagesPerCheck_def)

declare batch_loop.simps [simp del]

record remoteCheckResult =
  rr_Result :: ScanResult
  rr_PreserveIdentity :: bool

definition checkRemoteResult ::
    "'w RemoteOps \<Rightarrow> Config \<Rightarrow> Package list \<Rightarrow> 'w \<Rightarrow> (gostring, remoteCheckResult) result \<times> 'w" where
  "checkRemoteResult ops cfg pkgs w =
     (if sc_ServerURL cfg = [] then (Err ''no server URL configured (set --server or PACKMON_SERVER)'', w)
      else case ro_clientErr ops of
        Some e \<Rightarrow> (Err e, w)
      | None \<Rightarrow>
          let serverURL = TrimSpace (sc_ServerURL cfg); displayServerURL = ro_redactURL ops serverURL in
          (case ro_parseURL ops serverURL of
             Err e \<Rightarrow> (Err (''invalid server URL '' @ CHR 0x22 # displayServerURL @ CHR 0x22 # '': '' @ e), w)
           | Ok scheme \<Rightarrow>
               if \<not> EqualFold scheme ''https'' \<and> \<not> sc_AllowInsecureHTTP cfg
               then (Err (''refusing to use insecure server URL '' @ CHR 0x22 # displayServerURL @ CHR 0x22 #
                 '': scheme must be https (set --insecure-allow-http / PACKMON_INSECURE_ALLOW_HTTP to override)''), w)
               else
                 let endpoint = TrimRight serverURL ''/'' @ ''/api/v1/check''; requestPackages = remoteScanPackages pkgs in
                 if length requestPackages \<le> MaxPackagesPerCheck
                 then (case postRemoteCheck ops cfg endpoint requestPackages w of
                         (Err e, w) \<Rightarrow> (Err e, w)
                       | (Ok result, w) \<Rightarrow> (Ok \<lparr>rr_Result = result, rr_PreserveIdentity = True\<rparr>, w))
                 else (case batch_loop ops cfg endpoint requestPackages
                              \<lparr>ra_findings = [], ra_feedVersions = [], ra_feedStatus = [], ra_blocking = False\<rparr> w of
                         (Err e, w) \<Rightarrow> (Err e, w)
                       | (Ok acc, w) \<Rightarrow>
                           (Ok \<lparr>rr_Result = zero_result\<lparr>rs_Mode := ScanModeRemote, rs_Findings := ra_findings acc,
                                  rs_FindingsCount := length (ra_findings acc), rs_FindingsBlocking := ra_blocking acc,
                                  rs_Summary := BuildScanSummary (ra_findings acc), rs_FeedStatus := ra_feedStatus acc,
                                  rs_FeedVersions := ra_feedVersions acc,
                                  rs_ManualAdvisoriesCount := CountManualAdvisoryFindings (ra_findings acc)\<rparr>,
                                rr_PreserveIdentity = False\<rparr>, w))))"

section \<open>The local check\<close>

text \<open>
  The interface \<open>LocalChecker\<close>; a checker that also implements \<open>BatchLocalChecker\<close> carries its two batch
  lookups in the last field. A query names ecosystem, name and version, as \<open>PackageLookup\<close> does.
\<close>

record LocalChecker =
  lc_FindVulnerabilities :: "gostring \<Rightarrow> gostring \<Rightarrow> gostring \<Rightarrow> (gostring, Finding list) result"
  lc_FindMalicious :: "gostring \<Rightarrow> gostring \<Rightarrow> gostring \<Rightarrow> (gostring, Finding list) result"
  lc_FindReputationFindingsBatch :: "db_PackageQuery list \<Rightarrow> gostring \<Rightarrow> (gostring, Finding list) result"
  lc_FindLifecycleFindingsBatch :: "db_PackageQuery list \<Rightarrow> gotime \<Rightarrow> (gostring, Finding list) result"
  lc_Batch :: "((db_PackageQuery list \<Rightarrow> (gostring, Finding list) result) \<times> (db_PackageQuery list \<Rightarrow> (gostring, Finding list) result)) option"

fun local_loop :: "LocalChecker \<Rightarrow> Package list \<Rightarrow> Finding list \<Rightarrow> (gostring, Finding list) result" where
  "local_loop lc [] allFindings = Ok allFindings"
| "local_loop lc (pkg # pkgs) allFindings =
     (let eco = pk_Ecosystem pkg in
      case lc_FindVulnerabilities lc eco (pk_Name pkg) (pk_Version pkg) of
        Err e \<Rightarrow> Err (''local vuln check '' @ eco @ ''/'' @ pk_Name pkg @ '': '' @ e)
      | Ok vulns \<Rightarrow>
          (case lc_FindMalicious lc eco (pk_Name pkg) (pk_Version pkg) of
             Err e \<Rightarrow> Err (''local malicious check '' @ eco @ ''/'' @ pk_Name pkg @ '': '' @ e)
           | Ok mals \<Rightarrow>
               local_loop lc pkgs (allFindings @ vulns @ map (\<lambda>f. f\<lparr>f_Version := pk_Version pkg\<rparr>) mals)))"

definition local_core :: "LocalChecker \<Rightarrow> Package list \<Rightarrow> (gostring, Finding list) result" where
  "local_core lc pkgs =
     (case lc_Batch lc of
        None \<Rightarrow> local_loop lc pkgs []
      | Some (findVulnerabilitiesBatch, findMaliciousBatch) \<Rightarrow>
          (case findVulnerabilitiesBatch (check_queries pkgs) of
             Err e \<Rightarrow> Err (''local vuln batch check: '' @ e)
           | Ok vulns \<Rightarrow>
               (case findMaliciousBatch (check_queries pkgs) of
                  Err e \<Rightarrow> Err (''local malicious batch check: '' @ e)
                | Ok mals \<Rightarrow> Ok (vulns @ mals))))"

definition checkLocal :: "LocalChecker \<Rightarrow> gotime \<Rightarrow> Package list \<Rightarrow> (gostring, Finding list) result" where
  "checkLocal lc now pkgs =
     (case local_core lc pkgs of
        Err e \<Rightarrow> Err e
      | Ok core \<Rightarrow>
          (case lc_FindReputationFindingsBatch lc (check_queries pkgs) ''reversinglabs'' of
             Err e \<Rightarrow> Err (''local reputation batch check: '' @ e)
           | Ok reputation \<Rightarrow>
               (case lc_FindLifecycleFindingsBatch lc (check_queries pkgs) now of
                  Err e \<Rightarrow> Err (''local lifecycle check: '' @ e)
                | Ok lifecycle \<Rightarrow> Ok (core @ reputation @ lifecycle))))"

section \<open>Selecting a checker\<close>

record checkModeResult =
  cm_Mode :: gostring
  cm_Findings :: "Finding list"
  cm_FeedVersions :: "(gostring \<times> gostring) list"
  cm_FeedStatus :: gostring
  cm_RemoteResult :: "remoteCheckResult option"

record checkModeError =
  cx_Message :: gostring
  cx_PackagesScanned :: nat

definition remote_mode_result :: "remoteCheckResult \<Rightarrow> checkModeResult" where
  "remote_mode_result r =
     \<lparr>cm_Mode = ScanModeRemote, cm_Findings = rs_Findings (rr_Result r), cm_FeedVersions = rs_FeedVersions (rr_Result r),
      cm_FeedStatus = rs_FeedStatus (rr_Result r), cm_RemoteResult = Some r\<rparr>"

definition local_mode_result :: "Finding list \<Rightarrow> checkModeResult" where
  "local_mode_result findings =
     \<lparr>cm_Mode = ScanModeLocal, cm_Findings = findings, cm_FeedVersions = [], cm_FeedStatus = [], cm_RemoteResult = None\<rparr>"

definition executeLocalCheckMode ::
    "LocalChecker option \<Rightarrow> gotime \<Rightarrow> Package list \<Rightarrow> (checkModeError, Finding list) result" where
  "executeLocalCheckMode localChecker now packages =
     (case localChecker of
        None \<Rightarrow> Err \<lparr>cx_Message = ''local advisory data unavailable (run 'packmon db sync' first)'', cx_PackagesScanned = length packages\<rparr>
      | Some lc \<Rightarrow>
          (case checkLocal lc now packages of
             Err e \<Rightarrow> Err \<lparr>cx_Message = ''local check failed: '' @ e, cx_PackagesScanned = length packages\<rparr>
           | Ok findings \<Rightarrow> Ok findings))"

definition executeAutoCheckMode ::
    "'w RemoteOps \<Rightarrow> LocalChecker option \<Rightarrow> Config \<Rightarrow> gotime \<Rightarrow> Package list \<Rightarrow> 'w \<Rightarrow> (checkModeError, checkModeResult) result \<times> 'w" where
  "executeAutoCheckMode ops localChecker cfg now packages w =
     (case checkRemoteResult ops cfg packages w of
        (Ok remoteResult, w) \<Rightarrow> (Ok (remote_mode_result remoteResult), w)
      | (Err err, w) \<Rightarrow>
          if sc_RequireRemote cfg
          then (Err \<lparr>cx_Message = ''remote check failed and --require-remote is set: '' @ err, cx_PackagesScanned = 0\<rparr>, w)
          else case localChecker of
                 None \<Rightarrow>
                   (Err \<lparr>cx_Message = ''remote check failed and no local advisory data available: '' @ err,
                         cx_PackagesScanned = length packages\<rparr>, w)
               | Some lc \<Rightarrow>
                   (case checkLocal lc now packages of
                      Err localErr \<Rightarrow>
                        (Err \<lparr>cx_Message = ''remote and local check failed: '' @ localErr, cx_PackagesScanned = length packages\<rparr>, w)
                    | Ok findings \<Rightarrow> (Ok (local_mode_result findings), w)))"

definition selectAndRunChecker ::
    "'w RemoteOps \<Rightarrow> LocalChecker option \<Rightarrow> Config \<Rightarrow> gotime \<Rightarrow> Package list \<Rightarrow> 'w \<Rightarrow> (checkModeError, checkModeResult) result \<times> 'w" where
  "selectAndRunChecker ops localChecker cfg now packages w =
     (if resolveMode cfg = ScanModeRemote
      then (case checkRemoteResult ops cfg packages w of
              (Err err, w) \<Rightarrow> (Err \<lparr>cx_Message = ''remote check failed: '' @ err, cx_PackagesScanned = 0\<rparr>, w)
            | (Ok remoteResult, w) \<Rightarrow> (Ok (remote_mode_result remoteResult), w))
      else if resolveMode cfg = ScanModeLocal
      then (case executeLocalCheckMode localChecker now packages of
              Err e \<Rightarrow> (Err e, w)
            | Ok findings \<Rightarrow> (Ok (local_mode_result findings), w))
      else executeAutoCheckMode ops localChecker cfg now packages w)"

section \<open>The result of a scan\<close>

text \<open>A path is one of a system whose separator is the slash.\<close>

definition by_package :: "CollectedPackage list \<Rightarrow> packageCollectionKey \<Rightarrow> gostring list" where
  "by_package entries =
     fold (\<lambda>entry m. let uri = TrimSpace (SourceFile entry); key = entry_key entry in
       if uri = [] \<or> uri \<in> set (m key) then m else m(key := m key @ [uri])) entries (\<lambda>key. [])"

definition annotate :: "gostring list \<Rightarrow> Finding \<Rightarrow> Finding" where
  "annotate locations finding =
     finding\<lparr>f_Locations := fold (\<lambda>l ls. if l \<in> set ls then ls else ls @ [l]) locations (f_Locations finding)\<rparr>"

definition annotateFindingLocations :: "Finding list \<Rightarrow> CollectedPackage list \<Rightarrow> Finding list" where
  "annotateFindingLocations findings entries =
     (if findings = [] \<or> entries = [] then findings
      else map (\<lambda>f. annotate (by_package entries (f_Name f, f_Version f, f_Ecosystem f)) f) findings)"

text \<open>
  By descending rank, then by name. The sort of the code is not stable, so the order of findings that
  agree in both is open; the model keeps their order.
\<close>

definition sortScanFindings :: "Finding list \<Rightarrow> Finding list" where
  "sortScanFindings findings = sort_key (\<lambda>f. - int (Rank (f_Severity f))) (sort_key f_Name findings)"

definition scanExitCode :: "bool \<Rightarrow> Finding list \<Rightarrow> gostring list \<Rightarrow> nat" where
  "scanExitCode blocking findings parseErrors =
     (let exitCode = (if blocking then ExitBlocking else if findings \<noteq> [] then ExitUnderThreshold else ExitOK) in
      if parseErrors \<noteq> [] \<and> exitCode \<noteq> ExitBlocking then ExitParser else exitCode)"

definition scanCheckPackages :: "Package list \<Rightarrow> bool \<Rightarrow> Package list" where
  "scanCheckPackages packages includeDev = (if includeDev then packages else filter (\<lambda>pkg. \<not> pk_Dev pkg) packages)"

text \<open>The identifier of the scan, its start and its duration so far.\<close>

record ScanClock =
  sk_scanID :: gostring
  sk_start :: gotime
  sk_durationMs :: int
  sk_now :: gotime

definition errorResultWithPackages :: "Config \<Rightarrow> ScanClock \<Rightarrow> gostring \<Rightarrow> nat \<Rightarrow> ScanResult" where
  "errorResultWithPackages cfg k msg packagesScanned =
     zero_result\<lparr>rs_ScanID := sk_scanID k, rs_Mode := resolveMode cfg, rs_ScannedAt := sk_start k, rs_DurationMs := sk_durationMs k,
       rs_PackagesScanned := packagesScanned, rs_BlockThreshold := sc_FailOn cfg, rs_FeedStatus := ScanFeedStatusError, rs_ScanError := msg\<rparr>"

definition emptyScanResult :: "Config \<Rightarrow> ScanClock \<Rightarrow> gostring list \<Rightarrow> ScanResult" where
  "emptyScanResult cfg k parseErrors =
     zero_result\<lparr>rs_ScanID := sk_scanID k, rs_Mode := resolveMode cfg, rs_ScannedAt := sk_start k, rs_DurationMs := sk_durationMs k,
       rs_BlockThreshold := sc_FailOn cfg, rs_FeedStatus := ScanFeedStatusHealthy, rs_ParseErrors := parseErrors\<rparr>"

record collectedScanPackages =
  cs_Collection :: PackageCollection
  cs_AllPackages :: "Package list"
  cs_CheckPackages :: "Package list"
  cs_ParseErrors :: "gostring list"

definition collectScanPackages ::
    "Config \<Rightarrow> (gostring, LockFile list) result \<Rightarrow> gostring option \<Rightarrow> (gostring \<Rightarrow> SBOMOutcome) \<Rightarrow> (gostring, collectedScanPackages) result" where
  "collectScanPackages cfg walk openRoot parse =
     (case CollectPackages \<lparr>Ecosystems = sc_Ecosystems cfg, SBOMPaths = sc_SBOMFiles cfg,
             IncludeDev = sc_IncludeDev cfg \<or> sc_InventoryAllPackages cfg\<rparr> walk openRoot parse of
        Err e \<Rightarrow> Err (''collect packages: '' @ e)
      | Ok coll \<Rightarrow>
          Ok \<lparr>cs_Collection = coll, cs_AllPackages = Packages coll,
              cs_CheckPackages = scanCheckPackages (Packages coll) (sc_IncludeDev cfg), cs_ParseErrors = ParseErrors coll\<rparr>)"

definition applyParseErrorPolicy :: "Config \<Rightarrow> ScanClock \<Rightarrow> collectedScanPackages \<Rightarrow> (ScanResult \<times> nat) option" where
  "applyParseErrorPolicy cfg k got =
     (let coll = cs_Collection got in
      if LockFiles coll = 0 \<and> SBOMFiles coll = 0 then Some (emptyScanResult cfg k (ParseErrors coll), ExitOK)
      else if FatalParseErrors coll \<noteq> []
      then Some ((errorResultWithPackages cfg k (Join (FatalParseErrors coll) ''; '') (length (cs_CheckPackages got)))
             \<lparr>rs_ParseErrors := cs_ParseErrors got\<rparr>, ExitParser)
      else if cs_AllPackages got = [] \<and> cs_ParseErrors got \<noteq> []
      then Some ((errorResultWithPackages cfg k (Join (cs_ParseErrors got) ''; '') 0)\<lparr>rs_ParseErrors := cs_ParseErrors got\<rparr>, ExitParser)
      else if cs_CheckPackages got = []
      then Some (emptyScanResult cfg k (cs_ParseErrors got), if cs_ParseErrors got \<noteq> [] then ExitParser else ExitOK)
      else None)"

definition buildSuccessfulScanResult :: "Config \<Rightarrow> ScanClock \<Rightarrow> collectedScanPackages \<Rightarrow> checkModeResult \<Rightarrow> ScanResult" where
  "buildSuccessfulScanResult cfg k got checkResult =
     (let findings = annotateFindingLocations (cm_Findings checkResult) (Entries (cs_Collection got));
          identity = (case cm_RemoteResult checkResult of Some r \<Rightarrow> if rr_PreserveIdentity r then Some (rr_Result r) else None | None \<Rightarrow> None)
      in \<lparr>rs_ScanID = (case identity of Some r \<Rightarrow> if rs_ScanID r \<noteq> [] then rs_ScanID r else sk_scanID k | None \<Rightarrow> sk_scanID k),
          rs_Mode = cm_Mode checkResult,
          rs_ScannedAt = (case identity of Some r \<Rightarrow> if \<not> IsZero (rs_ScannedAt r) then rs_ScannedAt r else sk_start k | None \<Rightarrow> sk_start k),
          rs_DurationMs = (case identity of Some r \<Rightarrow> rs_DurationMs r | None \<Rightarrow> sk_durationMs k),
          rs_PackagesScanned = length (cs_CheckPackages got), rs_FindingsCount = length findings,
          rs_FindingsBlocking = FindingsBlock findings (sc_FailOn cfg), rs_BlockThreshold = sc_FailOn cfg,
          rs_FeedStatus = normalizeScanFeedStatus (cm_FeedStatus checkResult), rs_ScanError = [], rs_DBAgeDays = None,
          rs_DBStale = False, rs_Summary = BuildScanSummary findings, rs_Findings = sortScanFindings findings,
          rs_ParseErrors = cs_ParseErrors got, rs_FindingsTruncated = False, rs_FeedVersions = cm_FeedVersions checkResult,
          rs_ManualAdvisoriesCount = CountManualAdvisoryFindings findings\<rparr>)"

definition RunWithCollection ::
    "'w RemoteOps \<Rightarrow> LocalChecker option \<Rightarrow> Config \<Rightarrow> (gostring, LockFile list) result \<Rightarrow> gostring option \<Rightarrow> (gostring \<Rightarrow> SBOMOutcome)
     \<Rightarrow> ScanClock \<Rightarrow> 'w \<Rightarrow> (ScanResult \<times> nat \<times> PackageCollection option) \<times> 'w" where
  "RunWithCollection ops localChecker cfg walk openRoot parse k w =
     (case collectScanPackages cfg walk openRoot parse of
        Err e \<Rightarrow> ((errorResultWithPackages cfg k e 0, ExitOperational, None), w)
      | Ok got \<Rightarrow>
          (case applyParseErrorPolicy cfg k got of
             Some (result, exitCode) \<Rightarrow> ((result, exitCode, Some (cs_Collection got)), w)
           | None \<Rightarrow>
               (case selectAndRunChecker ops localChecker cfg (sk_now k) (cs_CheckPackages got) w of
                  (Err e, w) \<Rightarrow>
                    ((errorResultWithPackages cfg k (cx_Message e) (cx_PackagesScanned e), ExitOperational, Some (cs_Collection got)), w)
                | (Ok checkResult, w) \<Rightarrow>
                    (let result = buildSuccessfulScanResult cfg k got checkResult in
                     ((result, scanExitCode (rs_FindingsBlocking result) (rs_Findings result) (rs_ParseErrors result),
                       Some (cs_Collection got)), w)))))"

section \<open>Batches\<close>

text \<open>
  A sequence of answered exchanges with the server: the requests sent, in order, each with the result
  decoded from its response.
\<close>

inductive exchanged :: "'w RemoteOps \<Rightarrow> gostring \<Rightarrow> 'w \<Rightarrow> (ScanRequest \<times> ScanResult) list \<Rightarrow> 'w \<Rightarrow> bool" for ops endpoint where
  Nothing: "exchanged ops endpoint w [] w"
| Answered: "ro_exchange ops endpoint q w = (HttpResponse 200 body correlation, w1) \<Longrightarrow> ro_decode ops body = Ok result \<Longrightarrow>
    exchanged ops endpoint w1 log w2 \<Longrightarrow> exchanged ops endpoint w ((q, result) # log) w2"

inductive_simps exchanged_Nil: "exchanged ops endpoint w [] w'"
inductive_cases exchanged_ConsE: "exchanged ops endpoint w (x # log) w'"

definition check_endpoint :: "Config \<Rightarrow> gostring" where
  "check_endpoint cfg = TrimRight (TrimSpace (sc_ServerURL cfg)) ''/'' @ ''/api/v1/check''"

definition sent_repo :: "Config \<Rightarrow> gostring option" where
  "sent_repo cfg = (if sc_OmitRepoMetadata cfg then None else remoteScanRepo (sc_Repo cfg))"

lemma postRemoteCheck_Ok:
  assumes "postRemoteCheck ops cfg endpoint pkgs w = (Ok result, w')"
  shows "exchanged ops endpoint w [(\<lparr>sq_Packages = pkgs, sq_Repo = sent_repo cfg\<rparr>, result)] w'"
  using assms
  by (auto simp: postRemoteCheck_def sent_repo_def Let_def split: option.splits prod.splits http_outcome.splits if_splits sum.splits
      intro!: exchanged.intros)

lemma exchanged_append: "exchanged ops endpoint w log w1 \<Longrightarrow> exchanged ops endpoint w1 log' w2 \<Longrightarrow> exchanged ops endpoint w (log @ log') w2"
  by (induction rule: exchanged.induct) (auto intro: exchanged.intros)

text \<open>A log that asks for packages: in batches of the size the server takes, each package once and in order.\<close>

definition asks :: "Config \<Rightarrow> Package list \<Rightarrow> (ScanRequest \<times> ScanResult) list \<Rightarrow> bool" where
  "asks cfg pkgs log \<longleftrightarrow>
     concat (map (\<lambda>(q, result). sq_Packages q) log) = pkgs \<and>
     (\<forall>(q, result) \<in> set log. length (sq_Packages q) \<le> MaxPackagesPerCheck \<and> sq_Repo q = sent_repo cfg)"

lemma batch_loop_Ok:
  assumes "batch_loop ops cfg endpoint pkgs acc w = (Ok acc', w')"
  shows "\<exists>log. exchanged ops endpoint w log w' \<and> asks cfg pkgs log \<and> [] \<notin> set (map (\<lambda>(q, result). sq_Packages q) log) \<and>
    ra_findings acc' = ra_findings acc @ concat (map (\<lambda>(q, result). rs_Findings result) log)"
  using assms
proof (induction ops cfg endpoint pkgs acc w rule: batch_loop.induct)
  case (1 ops cfg endpoint pkgs acc w)
  show ?case
  proof (cases "pkgs = []")
    case True
    then show ?thesis using 1(2) by (intro exI [of _ "[]"]) (simp add: batch_loop.simps asks_def exchanged_Nil)
  next
    case False
    then obtain result w1 where post: "postRemoteCheck ops cfg endpoint (take MaxPackagesPerCheck pkgs) w = (Ok result, w1)"
      and rest: "batch_loop ops cfg endpoint (drop MaxPackagesPerCheck pkgs) (add_batch result acc) w1 = (Ok acc', w')"
      using 1(2) by (subst (asm) batch_loop.simps) (auto split: prod.splits sum.splits)
    note step = postRemoteCheck_Ok [OF post]
    obtain log where log: "exchanged ops endpoint w1 log w'" "asks cfg (drop MaxPackagesPerCheck pkgs) log"
      "[] \<notin> set (map (\<lambda>(q, result). sq_Packages q) log)"
      "ra_findings acc' = ra_findings (add_batch result acc) @ concat (map (\<lambda>(q, result). rs_Findings result) log)"
      using 1(1) [OF False post [symmetric] refl rest] by blast
    let ?log = "(\<lparr>sq_Packages = take MaxPackagesPerCheck pkgs, sq_Repo = sent_repo cfg\<rparr>, result) # log"
    have "exchanged ops endpoint w ?log w'" using exchanged_append [OF step log(1)] by simp
    moreover have "asks cfg pkgs ?log" using log(2) by (auto simp: asks_def)
    moreover have "[] \<notin> set (map (\<lambda>(q, result). sq_Packages q) ?log)"
      using log(3) False by (auto simp: MaxPackagesPerCheck_def)
    ultimately show ?thesis using log(4) by (intro exI [of _ ?log]) (simp add: add_batch_def)
  qed
qed

lemma checkRemoteResult_Ok:
  assumes "checkRemoteResult ops cfg pkgs w = (Ok r, w')"
  shows "\<exists>log. exchanged ops (check_endpoint cfg) w log w' \<and> asks cfg (remoteScanPackages pkgs) log \<and>
    (pkgs \<noteq> [] \<longrightarrow> [] \<notin> set (map (\<lambda>(q, result). sq_Packages q) log)) \<and>
    rs_Findings (rr_Result r) = concat (map (\<lambda>(q, result). rs_Findings result) log)"
proof (cases "length (remoteScanPackages pkgs) \<le> MaxPackagesPerCheck")
  case True
  then obtain result where post: "postRemoteCheck ops cfg (check_endpoint cfg) (remoteScanPackages pkgs) w = (Ok result, w')"
    and r: "rr_Result r = result"
    using assms by (auto simp: checkRemoteResult_def check_endpoint_def Let_def split: if_splits option.splits sum.splits prod.splits)
  show ?thesis using postRemoteCheck_Ok [OF post] True r
    by (intro exI conjI) (assumption, auto simp: asks_def remoteScanPackages_def)
next
  case False
  then obtain acc where loop: "batch_loop ops cfg (check_endpoint cfg) (remoteScanPackages pkgs)
      \<lparr>ra_findings = [], ra_feedVersions = [], ra_feedStatus = [], ra_blocking = False\<rparr> w = (Ok acc, w')"
    and r: "rs_Findings (rr_Result r) = ra_findings acc"
    using assms by (auto simp: checkRemoteResult_def check_endpoint_def Let_def split: if_splits option.splits sum.splits prod.splits)
  show ?thesis using batch_loop_Ok [OF loop] r by auto
qed

text \<open>
  C29: The remote check covers every package. When it succeeds, the packages it was given went to the
  server, in order and each once, in requests within the limit of the server of which none is empty
  unless there is nothing to ask; each request was answered with status 200 and a decoded result, and
  the findings are exactly those of the results, in order.
\<close>

theorem remote_check_covers:
  assumes "checkRemoteResult ops cfg pkgs w = (Ok r, w')"
  shows "\<exists>log. exchanged ops (check_endpoint cfg) w log w' \<and>
    concat (map (\<lambda>(q, result). sq_Packages q) log) = remoteScanPackages pkgs \<and>
    (\<forall>(q, result) \<in> set log. length (sq_Packages q) \<le> MaxPackagesPerCheck \<and> (pkgs \<noteq> [] \<longrightarrow> sq_Packages q \<noteq> []) \<and>
       sq_Repo q = sent_repo cfg) \<and>
    rs_Findings (rr_Result r) = concat (map (\<lambda>(q, result). rs_Findings result) log)"
proof -
  obtain log where log: "exchanged ops (check_endpoint cfg) w log w'" "asks cfg (remoteScanPackages pkgs) log"
    "pkgs \<noteq> [] \<longrightarrow> [] \<notin> set (map (\<lambda>(q, result). sq_Packages q) log)"
    "rs_Findings (rr_Result r) = concat (map (\<lambda>(q, result). rs_Findings result) log)"
    using checkRemoteResult_Ok [OF assms] by (elim exE conjE)
  then show ?thesis by (intro exI [of _ log]) (force simp: asks_def)
qed

text \<open>A server that answers every request with an empty result and counts the requests.\<close>

definition quiet_ops :: "nat RemoteOps" where
  "quiet_ops =
     \<lparr>ro_clientErr = None, ro_newRequest = (\<lambda>endpoint. None), ro_ensureClient = None, ro_parseURL = (\<lambda>u. Ok ''https''), ro_redactURL = (\<lambda>u. u),
      ro_exchange = (\<lambda>endpoint q n. (HttpResponse 200 ''{}'' [], n + 1)), ro_decode = (\<lambda>body. Ok zero_result),
      ro_snippet = (\<lambda>body. body)\<rparr>"

definition scan_config :: "gostring \<Rightarrow> Config" where
  "scan_config mode =
     \<lparr>sc_Mode = mode, sc_ServerURL = ''https://packmon.example/'', sc_Repo = Some ''shop'', sc_OmitRepoMetadata = False, sc_FailOn = SeverityHigh,
      sc_Ecosystems = [], sc_SBOMFiles = [], sc_IncludeDev = False, sc_InventoryAllPackages = True, sc_AllowInsecureHTTP = False,
      sc_RequireRemote = True\<rparr>"

definition evil_package :: Package where
  "evil_package = zero_package\<lparr>pk_Name := ''Evil_Pkg'', pk_Version := ''1'', pk_Ecosystem := ''pypi''\<rparr>"

lemma quiet_post: "postRemoteCheck quiet_ops cfg endpoint pkgs n = (Ok zero_result, n + 1)"
  by (simp add: postRemoteCheck_def quiet_ops_def)

lemma quiet_batches: "\<exists>acc' n'. batch_loop quiet_ops cfg endpoint pkgs acc n = (Ok acc', n')"
proof (induction pkgs arbitrary: acc n rule: length_induct)
  case (1 pkgs)
  show ?case
  proof (cases "pkgs = []")
    case False
    then have "length (drop MaxPackagesPerCheck pkgs) < length pkgs" by (simp add: MaxPackagesPerCheck_def)
    then show ?thesis using 1 False by (subst batch_loop.simps) (simp add: quiet_post)
  qed (simp add: batch_loop.simps)
qed

theorem remote_check_covers_witness:
  "\<exists>r n log. checkRemoteResult quiet_ops (scan_config ''remote'') (replicate 5001 evil_package) 0 = (Ok r, n) \<and>
     exchanged quiet_ops (check_endpoint (scan_config ''remote'')) 0 log n \<and>
     concat (map (\<lambda>(q, result). sq_Packages q) log) = remoteScanPackages (replicate 5001 evil_package)"
proof -
  let ?cfg = "scan_config ''remote''" and ?pkgs = "replicate 5001 evil_package"
  have "\<exists>r n. checkRemoteResult quiet_ops ?cfg ?pkgs 0 = (Ok r, n)"
  proof -
    obtain acc n where "batch_loop quiet_ops ?cfg (check_endpoint ?cfg) (remoteScanPackages ?pkgs)
      \<lparr>ra_findings = [], ra_feedVersions = [], ra_feedStatus = [], ra_blocking = False\<rparr> 0 = (Ok acc, n)"
      using quiet_batches by blast
    moreover have "\<not> length (remoteScanPackages ?pkgs) \<le> MaxPackagesPerCheck"
      by (simp add: remoteScanPackages_def MaxPackagesPerCheck_def)
    moreover have "ro_clientErr quiet_ops = None" "ro_parseURL quiet_ops u = Ok ''https''" "EqualFold ''https'' ''https''"
      "sc_ServerURL ?cfg \<noteq> []" for u
      by (simp_all add: quiet_ops_def scan_config_def EqualFold_def)
    ultimately show ?thesis by (simp add: checkRemoteResult_def Let_def check_endpoint_def)
  qed
  then obtain r n where run: "checkRemoteResult quiet_ops ?cfg ?pkgs 0 = (Ok r, n)" by blast
  from remote_check_covers [OF run] run show ?thesis by (elim exE conjE) (intro exI conjI)
qed

section \<open>Choosing a checker\<close>

text \<open>Where the findings of a scan come from.\<close>

definition checked_by ::
    "'w RemoteOps \<Rightarrow> LocalChecker option \<Rightarrow> Config \<Rightarrow> gotime \<Rightarrow> Package list \<Rightarrow> 'w \<Rightarrow> Finding list \<Rightarrow> 'w \<Rightarrow> bool" where
  "checked_by ops localChecker cfg now pkgs w findings w' \<longleftrightarrow>
     (resolveMode cfg \<noteq> ScanModeLocal \<and>
        (\<exists>r. checkRemoteResult ops cfg pkgs w = (Ok r, w') \<and> findings = rs_Findings (rr_Result r))) \<or>
     (resolveMode cfg \<noteq> ScanModeRemote \<and> (resolveMode cfg = ScanModeLocal \<or> \<not> sc_RequireRemote cfg) \<and>
        (\<exists>lc. localChecker = Some lc \<and> checkLocal lc now pkgs = Ok findings))"

lemma selectAndRunChecker_Ok:
  assumes "selectAndRunChecker ops localChecker cfg now pkgs w = (Ok m, w')"
  shows "checked_by ops localChecker cfg now pkgs w (cm_Findings m) w'"
  using assms
  by (auto simp: selectAndRunChecker_def executeLocalCheckMode_def executeAutoCheckMode_def checked_by_def remote_mode_result_def
      local_mode_result_def split: if_splits prod.splits sum.splits option.splits)

section \<open>Findings of a result\<close>

lemma annotate_simps [simp]:
  "f_Type (annotate ls f) = f_Type f" "f_Severity (annotate ls f) = f_Severity f" "f_RiskType (annotate ls f) = f_RiskType f"
  by (simp_all add: annotate_def)

lemma annotate_blocks [simp]: "FindingBlocks (annotate ls f) t = FindingBlocks f t"
  by (simp add: FindingBlocks_def FindingIsInformational_def FindingAlwaysBlocks_def)

lemma annotateFindingLocations_blocks [simp]: "FindingsBlock (annotateFindingLocations fs es) t = FindingsBlock fs t"
  by (auto simp: annotateFindingLocations_def FindingsBlock_iff)

lemma annotateFindingLocations_length [simp]: "length (annotateFindingLocations fs es) = length fs"
  by (simp add: annotateFindingLocations_def)

lemma sortScanFindings_simps [simp]:
  "set (sortScanFindings fs) = set fs" "length (sortScanFindings fs) = length fs" "sortScanFindings fs = [] \<longleftrightarrow> fs = []"
proof -
  show "set (sortScanFindings fs) = set fs" and l: "length (sortScanFindings fs) = length fs" by (simp_all add: sortScanFindings_def)
  show "sortScanFindings fs = [] \<longleftrightarrow> fs = []" using l by (metis length_0_conv)
qed

lemma annotateFindingLocations_Nil [simp]: "annotateFindingLocations fs es = [] \<longleftrightarrow> fs = []"
  by (metis annotateFindingLocations_length length_0_conv)

lemma buildSuccessfulScanResult_simps [simp]:
  "rs_FindingsBlocking (buildSuccessfulScanResult cfg k got m) = FindingsBlock (cm_Findings m) (sc_FailOn cfg)"
  "rs_ParseErrors (buildSuccessfulScanResult cfg k got m) = cs_ParseErrors got"
  "rs_ScanError (buildSuccessfulScanResult cfg k got m) = []"
  "rs_PackagesScanned (buildSuccessfulScanResult cfg k got m) = length (cs_CheckPackages got)"
  "length (rs_Findings (buildSuccessfulScanResult cfg k got m)) = length (cm_Findings m)"
  "rs_Findings (buildSuccessfulScanResult cfg k got m) = [] \<longleftrightarrow> cm_Findings m = []"
  by (simp_all add: buildSuccessfulScanResult_def Let_def)

lemma malicious_blocks: "f \<in> set fs \<Longrightarrow> f_Type f = FindingTypeMalicious \<Longrightarrow> FindingsBlock fs t"
  unfolding FindingsBlock_iff by (rule bexI) (auto simp: FindingBlocks_def FindingIsInformational_def FindingAlwaysBlocks_def)

section \<open>Collections of a scan\<close>

lemma rebuild_frame [simp]:
  "ParseErrors (rebuildIndex c) = ParseErrors c" "ParseErrors (ensureIndex c) = ParseErrors c"
  "LockFiles (rebuildIndex c) = LockFiles c" "LockFiles (ensureIndex c) = LockFiles c"
  "SBOMFiles (rebuildIndex c) = SBOMFiles c" "SBOMFiles (ensureIndex c) = SBOMFiles c"
  by (simp_all add: rebuildIndex_def ensureIndex_def split: option.split)

lemma add_frame [simp]:
  "LockFiles (add p f t c) = LockFiles c" "SBOMFiles (add p f t c) = SBOMFiles c"
  by (simp_all add: add_def Let_def split: option.split)

lemma add_all_frame [simp]:
  "LockFiles (add_all ecos f t ps c) = LockFiles c" "SBOMFiles (add_all ecos f t ps c) = SBOMFiles c"
  unfolding add_all_def by (induction ps arbitrary: c) simp_all

lemma collect_lockfiles_frame: "LockFiles (collect_lockfiles ecos lfs c) = LockFiles c \<and> SBOMFiles (collect_lockfiles ecos lfs c) = SBOMFiles c"
proof (induction lfs arbitrary: c)
  case (Cons lf lfs)
  then show ?case by (cases "parsed lf") simp_all
qed simp

lemma collectExplicitSBOMPackages_frame:
  "collectExplicitSBOMPackages parse ecos paths c = Ok c' \<Longrightarrow>
   LockFiles c' = LockFiles c \<and> SBOMFiles c \<le> SBOMFiles c' \<and> (SBOMFiles c' = SBOMFiles c \<longrightarrow> c' = c)"
proof (induction paths arbitrary: c)
  case (Cons path paths)
  let ?c = "c\<lparr>SBOMFiles := SBOMFiles c + 1\<rparr>"
  show ?case
  proof (cases "TrimSpace path = []")
    case True
    then show ?thesis using Cons by simp
  next
    case False
    then obtain c1 where "collectExplicitSBOMPackages parse ecos paths c1 = Ok c'"
      "LockFiles c1 = LockFiles c" "SBOMFiles c1 = SBOMFiles c + 1"
      using Cons.prems by (cases "parse path") (auto simp: Let_def)
    then show ?thesis using Cons.IH [of c1] by simp
  qed
qed simp

lemma finalize_frame [simp]:
  "LockFiles (finalizePackageCollection d c) = LockFiles c" "SBOMFiles (finalizePackageCollection d c) = SBOMFiles c"
  by (simp_all add: finalizePackageCollection_def rebuildPackages_def filterDev_def filterStaleGoSumVersions_def Let_def)

text \<open>Without an input there is nothing to report: no error and no package.\<close>

lemma no_input:
  assumes "CollectPackages cc walk openRoot parse = Ok c" and "LockFiles c = 0" and "SBOMFiles c = 0"
  shows "ParseErrors c = [] \<and> Packages c = []"
proof -
  obtain c1 c2 where c1: "collectLockfilePackages walk openRoot (ecosystemFilter (Ecosystems cc)) empty_collection = Ok c1"
    and c2: "collectExplicitSBOMPackages parse (ecosystemFilter (Ecosystems cc)) (SBOMPaths cc) c1 = Ok c2"
    and c: "c = finalizePackageCollection (IncludeDev cc) c2"
    using assms(1) by (auto simp: CollectPackages_def Let_def split: sum.splits)
  note frame = collectExplicitSBOMPackages_frame [OF c2]
  obtain lfs where lfs: "c1 = collect_lockfiles (ecosystemFilter (Ecosystems cc)) lfs (empty_collection\<lparr>LockFiles := length lfs\<rparr>)"
    using c1 by (auto simp: collectLockfilePackages_def split: sum.splits option.splits)
  have "lfs = []" using assms(2) frame c lfs by (simp add: collect_lockfiles_frame)
  then have "c1 = empty_collection" using lfs by (simp add: empty_collection_def)
  moreover have "c2 = c1" using assms(3) frame c by (auto simp: empty_collection_def \<open>c1 = empty_collection\<close>)
  ultimately show ?thesis using c
    by (simp add: finalizePackageCollection_def rebuildPackages_def filterDev_def filterStaleGoSumVersions_def rebuildIndex_def
        empty_collection_def Let_def)
qed

lemma collectScanPackages_Ok:
  assumes "collectScanPackages cfg walk openRoot parse = Ok got"
  shows "CollectPackages \<lparr>Ecosystems = sc_Ecosystems cfg, SBOMPaths = sc_SBOMFiles cfg,
      IncludeDev = sc_IncludeDev cfg \<or> sc_InventoryAllPackages cfg\<rparr> walk openRoot parse = Ok (cs_Collection got) \<and>
    cs_AllPackages got = Packages (cs_Collection got) \<and> cs_ParseErrors got = ParseErrors (cs_Collection got) \<and>
    cs_CheckPackages got = scanCheckPackages (Packages (cs_Collection got)) (sc_IncludeDev cfg)"
  using assms by (auto simp: collectScanPackages_def split: sum.splits)

section \<open>A passing scan\<close>

lemma errorResult_ScanError [simp]: "rs_ScanError (errorResultWithPackages cfg k msg n) = msg"
  by (simp add: errorResultWithPackages_def)

lemma RunWithCollection_cases:
  assumes "RunWithCollection ops localChecker cfg walk openRoot parse k w = ((result, code, c), w')"
  obtains (failed) e where "collectScanPackages cfg walk openRoot parse = Err e" "code = ExitOperational" "c = None"
      "rs_ScanError result = e"
    | (settled) got where "collectScanPackages cfg walk openRoot parse = Ok got" "c = Some (cs_Collection got)" "w' = w"
        "applyParseErrorPolicy cfg k got = Some (result, code)"
    | (broken) got and e :: checkModeError where "collectScanPackages cfg walk openRoot parse = Ok got" "c = Some (cs_Collection got)"
        "code = ExitOperational" "rs_ScanError result = cx_Message e"
    | (checked) got m where "collectScanPackages cfg walk openRoot parse = Ok got" "c = Some (cs_Collection got)"
        "applyParseErrorPolicy cfg k got = None"
        "checked_by ops localChecker cfg (sk_now k) (cs_CheckPackages got) w (cm_Findings m) w'"
        "result = buildSuccessfulScanResult cfg k got m"
        "code = scanExitCode (FindingsBlock (cm_Findings m) (sc_FailOn cfg)) (cm_Findings m) (cs_ParseErrors got)"
proof (cases "collectScanPackages cfg walk openRoot parse")
  case (Inl e)
  then show thesis using assms failed by (auto simp: RunWithCollection_def)
next
  case (Inr got)
  show thesis
  proof (cases "applyParseErrorPolicy cfg k got")
    case (Some rc)
    then show thesis using assms settled [OF Inr] Inr by (cases rc) (simp add: RunWithCollection_def)
  next
    case None
    obtain res w1 where select: "selectAndRunChecker ops localChecker cfg (sk_now k) (cs_CheckPackages got) w = (res, w1)" by fastforce
    show thesis
    proof (cases res)
      case (Inl e)
      then show thesis using assms broken [OF Inr, of e] \<open>collectScanPackages _ _ _ _ = _\<close> None select
        by (auto simp: RunWithCollection_def)
    next
      case (Inr m)
      have exit: "scanExitCode b (rs_Findings (buildSuccessfulScanResult cfg k got m)) ps = scanExitCode b (cm_Findings m) ps" for b ps
        by (simp add: scanExitCode_def)
      show thesis using assms checked [OF _ _ None selectAndRunChecker_Ok] \<open>collectScanPackages _ _ _ _ = _\<close> None select Inr
        by (simp add: RunWithCollection_def Let_def exit)
    qed
  qed
qed

lemma applyParseErrorPolicy_green:
  assumes "collectScanPackages cfg walk openRoot parse = Ok got" and "applyParseErrorPolicy cfg k got = Some (result, code)"
    and "code \<in> {ExitOK, ExitUnderThreshold}"
  shows "code = ExitOK \<and> ParseErrors (cs_Collection got) = [] \<and> cs_CheckPackages got = [] \<and>
    rs_Findings result = [] \<and> rs_PackagesScanned result = 0 \<and> rs_ScanError result = []"
proof -
  note facts = collectScanPackages_Ok [OF assms(1)]
  show ?thesis
  proof (cases "LockFiles (cs_Collection got) = 0 \<and> SBOMFiles (cs_Collection got) = 0")
    case True
    then have "ParseErrors (cs_Collection got) = []" "Packages (cs_Collection got) = []" using facts no_input by blast+
    then show ?thesis using assms(2) facts True
      by (auto simp: applyParseErrorPolicy_def emptyScanResult_def zero_result_def scanCheckPackages_def)
  next
    case False
    then show ?thesis using assms(2,3) facts
      by (auto simp: applyParseErrorPolicy_def Let_def emptyScanResult_def zero_result_def split: if_splits)
  qed
qed

text \<open>
  C8: A passing scan is a complete scan. When the exit code is one that a build passes on (0 or 3),
  every input was collected and parsed without an error, and every package to check was checked: either
  there is none, or the server answered for all of them, or, where the mode allows it and the server is
  not required, the local database did. The result reports as many findings as the check gave, none of
  them blocks under the threshold, and the code is 0 exactly if there is none.
\<close>

theorem green_scan_complete:
  assumes "RunWithCollection ops localChecker cfg walk openRoot parse k w = ((result, code, c), w')"
    and "code \<in> {ExitOK, ExitUnderThreshold}"
  shows "\<exists>got findings. collectScanPackages cfg walk openRoot parse = Ok got \<and> c = Some (cs_Collection got) \<and>
    ParseErrors (cs_Collection got) = [] \<and> rs_ScanError result = [] \<and>
    rs_PackagesScanned result = length (cs_CheckPackages got) \<and>
    (if cs_CheckPackages got = [] then findings = []
     else checked_by ops localChecker cfg (sk_now k) (cs_CheckPackages got) w findings w') \<and>
    length (rs_Findings result) = length findings \<and> (\<forall>f \<in> set findings. \<not> FindingBlocks f (sc_FailOn cfg)) \<and>
    (code = ExitOK \<longleftrightarrow> findings = [])"
  using assms(1)
proof (cases rule: RunWithCollection_cases)
  case (settled got)
  note green = applyParseErrorPolicy_green [OF settled(1,4) assms(2)]
  show ?thesis using settled green by (intro exI [of _ got] exI [of _ "[]"]) simp
next
  case (checked got m)
  have "cs_CheckPackages got \<noteq> []" using checked(3) by (auto simp: applyParseErrorPolicy_def Let_def split: if_splits)
  moreover have "cs_ParseErrors got = []" "\<not> FindingsBlock (cm_Findings m) (sc_FailOn cfg)" "code = ExitOK \<longleftrightarrow> cm_Findings m = []"
    using checked(6) assms(2) by (auto simp: scanExitCode_def Let_def split: if_splits)
  ultimately show ?thesis using checked collectScanPackages_Ok [OF checked(1)]
    by (intro exI [of _ got] exI [of _ "cm_Findings m"]) (simp add: FindingsBlock_iff)
qed (use assms(2) in simp_all)

definition one_lockfile :: "gostring \<Rightarrow> (gostring, LockFile list) result" where
  "one_lockfile path = Ok [\<lparr>RelPath = path, parsed = Ok [evil_package]\<rparr>]"

definition no_sbom :: "gostring \<Rightarrow> SBOMOutcome" where
  "no_sbom path = SBOMInput path ''not found''"

definition scan_clock :: ScanClock where
  "scan_clock = \<lparr>sk_scanID = ''scan'', sk_start = 10 * second, sk_durationMs = 5, sk_now = 11 * second\<rparr>"

theorem green_scan_complete_witness:
  "\<exists>result c. RunWithCollection quiet_ops None (scan_config ''remote'') (one_lockfile ''uv.lock'') None no_sbom scan_clock 0 =
       ((result, ExitOK, c), 1) \<and> rs_PackagesScanned result = 1 \<and> ExitOK \<in> {ExitOK, ExitUnderThreshold}"
proof -
  let ?run = "RunWithCollection quiet_ops None (scan_config ''remote'') (one_lockfile ''uv.lock'') None no_sbom scan_clock 0"
  have "fst (snd (fst ?run)) = ExitOK" "snd ?run = 1" "cs_CheckPackages (projr (collectScanPackages (scan_config ''remote'') (one_lockfile ''uv.lock'') None no_sbom)) = [evil_package]"
    by code_simp+
  then obtain result c where run: "?run = ((result, ExitOK, c), 1)" and n: "cs_CheckPackages (projr (collectScanPackages (scan_config ''remote'') (one_lockfile ''uv.lock'') None no_sbom)) = [evil_package]"
    by (metis prod.collapse)
  from green_scan_complete [OF run] obtain got where
    "collectScanPackages (scan_config ''remote'') (one_lockfile ''uv.lock'') None no_sbom = Ok got"
    "rs_PackagesScanned result = length (cs_CheckPackages got)" by auto
  then show ?thesis using run n by auto
qed

section \<open>From the server to the exit code\<close>

text \<open>The request of a client as the server reads it.\<close>

definition wire_package :: "Package \<Rightarrow> checkPackage" where
  "wire_package pkg = \<lparr>wp_Name = pk_Name pkg, wp_Version = pk_Version pkg, wp_Ecosystem = pk_Ecosystem pkg\<rparr>"

definition wire_request :: "ScanRequest \<Rightarrow> checkRequest" where
  "wire_request q = \<lparr>wr_Packages = map wire_package (sq_Packages q), wr_Repo = sq_Repo q\<rparr>"

text \<open>A local database that knows a package as malicious: its lookups, when they succeed, say so.\<close>

definition knows_malicious :: "LocalChecker \<Rightarrow> Package \<Rightarrow> bool" where
  "knows_malicious lc pkg \<longleftrightarrow>
     (\<forall>fs. lc_FindMalicious lc (pk_Ecosystem pkg) (pk_Name pkg) (pk_Version pkg) = Ok fs \<longrightarrow> FindingTypeMalicious \<in> f_Type ` set fs) \<and>
     (\<forall>vulns mals queries fs. lc_Batch lc = Some (vulns, mals) \<longrightarrow> set (check_queries [pkg]) \<subseteq> set queries \<longrightarrow> mals queries = Ok fs \<longrightarrow>
        FindingTypeMalicious \<in> f_Type ` set fs)"

lemma local_loop_keeps: "local_loop lc pkgs acc = Ok fs \<Longrightarrow> set acc \<subseteq> set fs"
  by (induction lc pkgs acc rule: local_loop.induct) (auto simp: Let_def split: sum.splits)

lemma local_loop_malicious:
  assumes "local_loop lc pkgs acc = Ok fs" and "pkg \<in> set pkgs" and "knows_malicious lc pkg"
  shows "FindingTypeMalicious \<in> f_Type ` set fs"
  using assms
proof (induction pkgs arbitrary: acc)
  case (Cons p ps)
  obtain vulns mals where mals: "lc_FindMalicious lc (pk_Ecosystem p) (pk_Name p) (pk_Version p) = Ok mals"
    and rest: "local_loop lc ps (acc @ vulns @ map (\<lambda>f. f\<lparr>f_Version := pk_Version p\<rparr>) mals) = Ok fs"
    using Cons.prems(1) by (auto simp: Let_def split: sum.splits)
  show ?case
  proof (cases "p = pkg")
    case True
    then have "FindingTypeMalicious \<in> f_Type ` set mals" using Cons.prems(3) mals by (simp add: knows_malicious_def)
    then obtain f where f: "f \<in> set mals" "f_Type f = FindingTypeMalicious" by force
    then have "f\<lparr>f_Version := pk_Version p\<rparr> \<in> set fs" using local_loop_keeps [OF rest] by auto
    then show ?thesis using f(2) by force
  next
    case False
    then show ?thesis using Cons.IH [OF rest] Cons.prems by simp
  qed
qed simp

lemma checkLocal_malicious:
  assumes "checkLocal lc now pkgs = Ok fs" and "pkg \<in> set pkgs" and "knows_malicious lc pkg"
  shows "FindingTypeMalicious \<in> f_Type ` set fs"
proof -
  obtain core where core: "local_core lc pkgs = Ok core" and fs: "set core \<subseteq> set fs"
    using assms(1) by (auto simp: checkLocal_def split: sum.splits)
  have "set (check_queries [pkg]) \<subseteq> set (check_queries pkgs)" using assms(2) by (auto simp: check_queries_def)
  then have "FindingTypeMalicious \<in> f_Type ` set core"
  proof (cases "lc_Batch lc")
    case None
    then show ?thesis using core assms(2,3) local_loop_malicious by (simp add: local_core_def)
  next
    case (Some batch)
    obtain vulns mals fs' where "lc_Batch lc = Some (vulns, mals)" "mals (check_queries pkgs) = Ok fs'" "set fs' \<subseteq> set core"
      using core Some by (cases batch) (auto simp: local_core_def split: sum.splits)
    moreover note \<open>set (check_queries [pkg]) \<subseteq> _\<close>
    ultimately show ?thesis using assms(3) unfolding knows_malicious_def by blast
  qed
  then show ?thesis using fs by blast
qed

lemma FindMalicious_type: "f \<in> set (FindMalicious eco name version st) \<Longrightarrow> f_Type f = FindingTypeMalicious"
  by (auto simp: FindMalicious_def Let_def malicious_finding_def)

lemma FindMalicious_scanLogs [simp]: "FindMalicious eco name version (st\<lparr>scanLogs := l\<rparr>) = FindMalicious eco name version st"
  by (simp add: FindMalicious_def)

definition server_malicious :: "Store \<Rightarrow> Package \<Rightarrow> bool" where
  "server_malicious st pkg = (case wire_key (wire_package pkg) of (eco, name, version) \<Rightarrow> FindMalicious eco name version st \<noteq> [])"

text \<open>Answers that come from the server of the theory CheckApi, to requests without an idempotency key.\<close>

lemma exchanged_malicious:
  assumes server: "\<And>endpoint q h body correlation h'. ro_exchange ops endpoint q h = (HttpResponse 200 body correlation, h') \<Longrightarrow>
      \<exists>r code dur. HandleCheck env dev_check_ops r h = (CheckAnswer code dur body, h') \<and> cq_IdempotencyHeader r = [] \<and>
        cq_Body r = Ok (wire_request q)"
    and codec: "\<And>result body result'. ce_encodeResult env result = Ok body \<Longrightarrow> ro_decode ops body = Ok result' \<Longrightarrow>
      map f_Type (rs_Findings result') = map f_Type (rs_Findings result)"
    and "exchanged ops endpoint h log h'" and "server_malicious (ch_store h) pkg" and "(q, result) \<in> set log"
    and "wire_package pkg \<in> wire_package ` set (sq_Packages q)"
  shows "FindingTypeMalicious \<in> f_Type ` set (rs_Findings result)"
  using assms(3-6)
proof (induction rule: exchanged.induct)
  case (Answered q1 h body correlation h1 result1 log h2)
  obtain r code dur where r: "HandleCheck env dev_check_ops r h = (CheckAnswer code dur body, h1)" "cq_IdempotencyHeader r = []"
      "cq_Body r = Ok (wire_request q1)"
    using server [OF Answered(1)] by blast
  have "TrimSpace (cq_IdempotencyHeader r) = []" using r(2) by simp
  from keyless_answer [OF r(1) this] obtain wire result0 e where
    a: "cq_Body r = Ok wire" "ce_encodeResult env result0 = Ok body"
    "set (rs_Findings result0) = (\<Union>p \<in> set (wr_Packages wire). known_findings (ch_store h) (wire_key p))"
    "ch_store h1 = (ch_store h)\<lparr>scanLogs := scanLogs (ch_store h) @ [e]\<rparr>" by (elim exE conjE)
  obtain eco name version where key: "wire_key (wire_package pkg) = (eco, name, version)" by (metis prod_cases3)
  show ?case
  proof (cases "(q, result) = (q1, result1)")
    case True
    have "wire_package pkg \<in> set (wr_Packages wire)" using a(1) r(3) Answered.prems(3) True by (auto simp: wire_request_def)
    then have "set (FindMalicious eco name version (ch_store h)) \<subseteq> set (rs_Findings result0)"
      using a(3) key by (force simp: known_findings_def)
    moreover have "FindMalicious eco name version (ch_store h) \<noteq> []" using Answered.prems(1) key by (simp add: server_malicious_def)
    then have "last (FindMalicious eco name version (ch_store h)) \<in> set (FindMalicious eco name version (ch_store h))" by simp
    ultimately have "last (FindMalicious eco name version (ch_store h)) \<in> set (rs_Findings result0)"
      "f_Type (last (FindMalicious eco name version (ch_store h))) = FindingTypeMalicious"
      by (auto intro: FindMalicious_type)
    then have "FindingTypeMalicious \<in> set (map f_Type (rs_Findings result0))" by force
    moreover have "map f_Type (rs_Findings result) = map f_Type (rs_Findings result0)"
      using codec [OF a(2) Answered(2)] True by simp
    ultimately have "FindingTypeMalicious \<in> set (map f_Type (rs_Findings result))" by (simp only:)
    then show ?thesis by (simp only: list.set_map)
  next
    case False
    have "server_malicious (ch_store h1) pkg" using Answered.prems(1) a(4) key by (simp add: server_malicious_def)
    then show ?thesis using Answered.IH Answered.prems False by auto
  qed
qed simp

lemma remote_malicious:
  assumes server: "\<And>endpoint q h body correlation h'. ro_exchange ops endpoint q h = (HttpResponse 200 body correlation, h') \<Longrightarrow>
      \<exists>r code dur. HandleCheck env dev_check_ops r h = (CheckAnswer code dur body, h') \<and> cq_IdempotencyHeader r = [] \<and>
        cq_Body r = Ok (wire_request q)"
    and codec: "\<And>result body result'. ce_encodeResult env result = Ok body \<Longrightarrow> ro_decode ops body = Ok result' \<Longrightarrow>
      map f_Type (rs_Findings result') = map f_Type (rs_Findings result)"
    and run: "checkRemoteResult ops cfg pkgs h = (Ok r, h')" and "pkg \<in> set pkgs" and "server_malicious (ch_store h) pkg"
  shows "FindingTypeMalicious \<in> f_Type ` set (rs_Findings (rr_Result r))"
proof -
  obtain log where log: "exchanged ops (check_endpoint cfg) h log h'" "asks cfg (remoteScanPackages pkgs) log"
    "rs_Findings (rr_Result r) = concat (map (\<lambda>(q, result). rs_Findings result) log)"
    using checkRemoteResult_Ok [OF run] by (elim exE conjE)
  have "wire_package ` set (remoteScanPackages pkgs) = wire_package ` set pkgs"
    by (simp add: remoteScanPackages_def wire_package_def image_image)
  then have "wire_package pkg \<in> wire_package ` set (concat (map (\<lambda>(q, result). sq_Packages q) log))"
    using assms(4) log(2) by (simp add: asks_def)
  then obtain q result where q: "(q, result) \<in> set log" "wire_package pkg \<in> wire_package ` set (sq_Packages q)" by auto
  have "FindingTypeMalicious \<in> f_Type ` set (rs_Findings result)"
    using exchanged_malicious [OF server codec log(1) assms(5) q] .
  moreover have "set (rs_Findings result) \<subseteq> set (rs_Findings (rr_Result r))" using log(3) q(1) by auto
  ultimately show ?thesis by blast
qed

text \<open>
  C3: A package known to be malicious never passes. Let the responses with status 200 come from the
  check handler over the in-memory store, with a codec that keeps the types of the findings, and let a
  package that the scan is to check be malicious to the store of the server and, where a local database
  is configured, to that one. Then the scan does not end with a passing code: it blocks, or it reports
  that the check or the parser failed. Nothing is assumed of the network otherwise, so lost requests,
  errors and the fall-back to the local database are included, as is every size of project.
\<close>

theorem malicious_never_passes:
  assumes server: "\<And>endpoint q h body correlation h'. ro_exchange ops endpoint q h = (HttpResponse 200 body correlation, h') \<Longrightarrow>
      \<exists>r code dur. HandleCheck env dev_check_ops r h = (CheckAnswer code dur body, h') \<and> cq_IdempotencyHeader r = [] \<and>
        cq_Body r = Ok (wire_request q)"
    and codec: "\<And>result body result'. ce_encodeResult env result = Ok body \<Longrightarrow> ro_decode ops body = Ok result' \<Longrightarrow>
      map f_Type (rs_Findings result') = map f_Type (rs_Findings result)"
    and "collectScanPackages cfg walk openRoot parse = Ok got" and "pkg \<in> set (cs_CheckPackages got)"
    and "server_malicious (ch_store h) pkg" and "\<And>lc. localChecker = Some lc \<Longrightarrow> knows_malicious lc pkg"
    and "RunWithCollection ops localChecker cfg walk openRoot parse k h = ((result, code, c), h')"
  shows "code \<in> {ExitBlocking, ExitOperational, ExitParser}"
  using assms(7)
proof (cases rule: RunWithCollection_cases)
  case (settled got')
  have "code \<notin> {ExitOK, ExitUnderThreshold}"
  proof
    assume "code \<in> {ExitOK, ExitUnderThreshold}"
    from applyParseErrorPolicy_green [OF settled(1,4) this] show False using settled(1) assms(3,4) by simp
  qed
  then show ?thesis using settled(4) by (auto simp: applyParseErrorPolicy_def Let_def split: if_splits)
next
  case (checked got' m)
  have "FindingTypeMalicious \<in> f_Type ` set (cm_Findings m)"
    using checked(1,4) assms(3,4) remote_malicious [OF server codec _ _ assms(5)] checkLocal_malicious [OF _ _ assms(6)]
    by (auto simp: checked_by_def)
  then have "FindingsBlock (cm_Findings m) (sc_FailOn cfg)" using malicious_blocks by force
  then show ?thesis using checked(6) by (simp add: scanExitCode_def)
qed (auto)

text \<open>
  A client and its server, joined by a reliable network with a codec for the types of the findings: each
  byte of a type follows a dot, and a mark ends the type.
\<close>

definition type_text :: "gostring \<Rightarrow> gostring" where
  "type_text t = concat (map (\<lambda>b. [CHR ''.'', b]) t) @ ''!''"

fun type_texts :: "gostring \<Rightarrow> gostring \<Rightarrow> gostring list" where
  "type_texts t (m # b # bs) = (if m = CHR ''.'' then type_texts (t @ [b]) bs else t # type_texts [] (b # bs))"
| "type_texts t [m] = [t]"
| "type_texts t [] = []"

lemma type_texts_one: "type_texts t (type_text u @ bs) = (t @ u) # type_texts [] bs"
proof (induction u arbitrary: t)
  case Nil
  then show ?case by (cases bs) (simp_all add: type_text_def)
next
  case (Cons b u)
  have "type_text (b # u) @ bs = CHR ''.'' # b # (type_text u @ bs)" by (simp add: type_text_def)
  then show ?case using Cons [of "t @ [b]"] by simp
qed

lemma type_texts_all: "type_texts [] (concat (map type_text ts)) = ts"
  by (induction ts) (simp_all add: type_texts_one)

definition typed_env :: CheckEnv where
  "typed_env = plain_env\<lparr>ce_encodeResult := (\<lambda>result. Ok (concat (map type_text (map f_Type (rs_Findings result)))))\<rparr>"

definition typed_finding :: "gostring \<Rightarrow> Finding" where
  "typed_finding t = (malicious_finding [] example_finding)\<lparr>f_Type := t\<rparr>"

definition joined_ops :: "Store CheckHandler RemoteOps" where
  "joined_ops =
     \<lparr>ro_clientErr = None, ro_newRequest = (\<lambda>endpoint. None), ro_ensureClient = None, ro_parseURL = (\<lambda>u. Ok ''https''), ro_redactURL = (\<lambda>u. u),
      ro_exchange = (\<lambda>endpoint q h.
        case HandleCheck typed_env dev_check_ops ((check_of [] [])\<lparr>cq_Body := Ok (wire_request q)\<rparr>) h of
          (CheckAnswer code dur body, h) \<Rightarrow> (HttpResponse code body [], h)
        | (CheckError code msg, h) \<Rightarrow> (RequestFailed msg, h)),
      ro_decode = (\<lambda>body. Ok (zero_result\<lparr>rs_Findings := map typed_finding (type_texts [] body)\<rparr>)),
      ro_snippet = (\<lambda>body. body)\<rparr>"

lemma joined_server:
  assumes "ro_exchange joined_ops endpoint q h = (HttpResponse 200 body correlation, h')"
  shows "\<exists>r code dur. HandleCheck typed_env dev_check_ops r h = (CheckAnswer code dur body, h') \<and> cq_IdempotencyHeader r = [] \<and>
    cq_Body r = Ok (wire_request q)"
proof -
  let ?r = "(check_of [] [])\<lparr>cq_Body := Ok (wire_request q)\<rparr>"
  obtain resp h1 where run: "HandleCheck typed_env dev_check_ops ?r h = (resp, h1)" by fastforce
  obtain code dur where "resp = CheckAnswer code dur body" "h1 = h'"
    using assms unfolding joined_ops_def by (cases resp) (simp_all add: run)
  moreover have "cq_IdempotencyHeader ?r = []" "cq_Body ?r = Ok (wire_request q)" by (simp_all add: check_of_def)
  ultimately show ?thesis using run by (intro exI [of _ ?r] exI conjI) simp_all
qed

lemma joined_codec:
  assumes "ce_encodeResult typed_env result = Ok body" and "ro_decode joined_ops body = Ok result'"
  shows "map f_Type (rs_Findings result') = map f_Type (rs_Findings result)"
proof -
  have "body = concat (map type_text (map f_Type (rs_Findings result)))" using assms(1) by (simp add: typed_env_def)
  then have "type_texts [] body = map f_Type (rs_Findings result)" by (simp only: type_texts_all)
  then show ?thesis using assms(2) by (auto simp: joined_ops_def typed_finding_def)
qed

lemma answeredE:
  assumes "answered (fst run)"
  obtains code dur body h' where "run = (CheckAnswer code dur body, h')"
  using assms by (cases run; cases "fst run") auto

lemma joined_answers:
  assumes "(case parseCheckRequest typed_env ((check_of [] [])\<lparr>cq_Body := Ok (wire_request q)\<rparr>) of Ok p \<Rightarrow> True | Err e \<Rightarrow> False)"
    and "scanLogs (ch_store h) = []"
  shows "\<exists>body h'. ro_exchange joined_ops endpoint q h = (HttpResponse 200 body [], h')"
proof -
  let ?r = "(check_of [] [])\<lparr>cq_Body := Ok (wire_request q)\<rparr>"
  let ?run = "HandleCheck typed_env dev_check_ops ?r h"
  obtain parts where "parseCheckRequest typed_env ?r = Ok parts" using assms(1) by (auto split: sum.splits)
  moreover have "cq_Method ?r = ''POST''" by (simp add: check_of_def)
  moreover have "\<And>result. \<exists>body. ce_encodeResult typed_env result = Ok body" by (simp add: typed_env_def)
  ultimately have "answered (fst ?run)" using assms(2) first_check_answered by blast
  then obtain code dur body h' where run: "?run = (CheckAnswer code dur body, h')" by (rule answeredE)
  have "TrimSpace (cq_IdempotencyHeader ?r) = []" by (simp add: check_of_def)
  from keyless_answer [OF run this] have "code = 200" by (rule conjunct1)
  then show ?thesis unfolding joined_ops_def by (simp add: run del: split_paired_Ex)
qed

lemma scan_got:
  "\<exists>got. collectScanPackages (scan_config ''remote'') (one_lockfile ''uv.lock'') None no_sbom = Ok got \<and>
     cs_CheckPackages got = [evil_package] \<and> cs_ParseErrors got = [] \<and>
     applyParseErrorPolicy (scan_config ''remote'') scan_clock got = None"
proof -
  have "(case collectScanPackages (scan_config ''remote'') (one_lockfile ''uv.lock'') None no_sbom of Err e \<Rightarrow> False
      | Ok got \<Rightarrow> cs_CheckPackages got = [evil_package] \<and> cs_ParseErrors got = [] \<and>
          applyParseErrorPolicy (scan_config ''remote'') scan_clock got = None)"
    by code_simp
  then show ?thesis by (auto split: sum.splits)
qed

lemma scan_answered:
  "\<exists>m h'. selectAndRunChecker joined_ops None (scan_config ''remote'') now [evil_package] (dev_handler evil_store) = (Ok m, h')"
proof -
  let ?cfg = "scan_config ''remote''" and ?h = "dev_handler evil_store"
  let ?q = "\<lparr>sq_Packages = remoteScanPackages [evil_package], sq_Repo = sent_repo ?cfg\<rparr>"
  have "(case parseCheckRequest typed_env ((check_of [] [])\<lparr>cq_Body := Ok (wire_request ?q)\<rparr>) of Ok p \<Rightarrow> True | Err e \<Rightarrow> False)"
    by code_simp
  moreover have "scanLogs (ch_store ?h) = []" by code_simp
  ultimately obtain body h' where ex: "ro_exchange joined_ops (check_endpoint ?cfg) ?q ?h = (HttpResponse 200 body [], h')"
    using joined_answers by blast
  have ops: "ro_newRequest joined_ops u = None" "ro_ensureClient joined_ops = None" "ro_clientErr joined_ops = None"
    "ro_parseURL joined_ops u = Ok ''https''" "ro_decode joined_ops body = Ok (zero_result\<lparr>rs_Findings := map typed_finding (type_texts [] body)\<rparr>)" for u
    by (simp_all add: joined_ops_def)
  have post: "\<exists>result. postRemoteCheck joined_ops ?cfg (check_endpoint ?cfg) (remoteScanPackages [evil_package]) ?h = (Ok result, h')"
    using ex by (simp add: postRemoteCheck_def Let_def ops sent_repo_def)
  have "length (remoteScanPackages [evil_package]) \<le> MaxPackagesPerCheck" by (simp add: remoteScanPackages_def MaxPackagesPerCheck_def)
  moreover have "EqualFold ''https'' ''https''" "sc_ServerURL ?cfg \<noteq> []" by (simp_all add: EqualFold_def scan_config_def)
  ultimately have "\<exists>r. checkRemoteResult joined_ops ?cfg [evil_package] ?h = (Ok r, h')"
    using post by (auto simp: checkRemoteResult_def Let_def check_endpoint_def ops)
  moreover have "resolveMode ?cfg = ScanModeRemote" by code_simp
  ultimately show ?thesis by (auto simp: selectAndRunChecker_def)
qed

theorem malicious_never_passes_witness:
  "\<exists>result c h'. RunWithCollection joined_ops None (scan_config ''remote'') (one_lockfile ''uv.lock'') None no_sbom scan_clock
     (dev_handler evil_store) = ((result, ExitBlocking, c), h')"
proof -
  let ?cfg = "scan_config ''remote''" and ?h = "dev_handler evil_store"
  let ?q = "\<lparr>sq_Packages = remoteScanPackages [evil_package], sq_Repo = sent_repo ?cfg\<rparr>"
  let ?run = "RunWithCollection joined_ops None ?cfg (one_lockfile ''uv.lock'') None no_sbom scan_clock ?h"
  obtain got where got: "collectScanPackages ?cfg (one_lockfile ''uv.lock'') None no_sbom = Ok got" "cs_CheckPackages got = [evil_package]"
    "cs_ParseErrors got = []" "applyParseErrorPolicy ?cfg scan_clock got = None"
    using scan_got by blast
  have mal: "server_malicious (ch_store ?h) evil_package" by code_simp
  obtain result code c h' where run: "?run = ((result, code, c), h')" by (metis prod_cases3 surj_pair)
  have code: "code \<in> {ExitBlocking, ExitOperational, ExitParser}"
    using malicious_never_passes [OF joined_server joined_codec got(1) _ mal _ run] got(2) by simp
  obtain m h1 where "selectAndRunChecker joined_ops None ?cfg (sk_now scan_clock) [evil_package] ?h = (Ok m, h1)"
    using scan_answered by blast
  then have "code \<in> {ExitOK, ExitBlocking, ExitUnderThreshold}"
    using run got by (auto simp: RunWithCollection_def Let_def scanExitCode_def split: if_splits)
  then show ?thesis using code run by auto
qed

end
