(* ===== verification/Spec2Isabelle.thy ===== *)
theory Spec2Isabelle
  imports SemverSpec Ranges Lifecycle Collection AuditLog WholeStore FeedManager QueueWorkers AdminLogin ApiAuth ScanRun
begin

text \<open>
  \<^bold>\<open>Packmon\<close>: a verification of the core of a dependency scanner and of its server.

  \<^bold>\<open>The program.\<close> A client walks a project, parses its lock files, collects the packages and asks a
  server about them. The server keeps advisories (vulnerabilities, malicious packages, operator-managed
  advisories, end-of-life data), which feeds import in the background and local databases synchronise,
  decides for each package version whether an advisory affects it, queues packages for a deeper check
  by asynchronous workers, and has an administration guarded by sessions and an API guarded by keys.
  Every administrative change leaves a row in an audit log whose rows are chained by digests.

  \<^bold>\<open>How the code is modelled.\<close> A Go string is a byte list, an \<open>int\<close> is an \<open>int\<close> with the wrap-around of 64
  bits written where the code can reach it (\<open>wrap64\<close>), an instant is its nanoseconds with 0 for the
  zero time, and a difference of instants is exact where Go saturates after 292 years. An error is the left
  of a sum. A map is an association list, read with \<open>map_of\<close>; where Go ranges over one in unspecified order the
  order is an argument or the result is sorted, as in the code. Operations of the store are functions
  \<open>Store \<Rightarrow> result \<times> Store\<close>: each runs under a mutex, so it is one step. What runs concurrently
  (workers, timers, requests) is a step relation over such operations. Clock readings, random bytes,
  SHA-256, HMAC and bcrypt are arguments. An interface the code only calls is a record of operations
  whose failures are branches of the model; the in-memory store gives the instance.

  \<^bold>\<open>The theories\<close>, with their sources under \<open>src/\<close>:
    \<^item> \<open>Prelude\<close>, \<open>GoStrings\<close>, \<open>GoJson\<close>: shared types and lemmas; the functions of Go's \<open>strings\<close>,
      \<open>strconv\<close>, \<open>unicode\<close> and \<open>encoding/json\<close> the sources use.
    \<^item> \<open>Comparators\<close>, \<open>Version\<close>: the contract of a three-way comparison as the locale \<open>three_way\<close> and its
      five interpretations on the comparators of \<open>internal/version/compare.go\<close> (semantic versions, NuGet,
      PEP 440, Maven, and \<open>Compare\<close>, which selects one). \<open>SemverSpec\<close>: rule 11 of SemVer 2.0.0 as a linear
      order and the refinement to \<open>compareSemver\<close>.
    \<^item> \<open>Ranges\<close>: decoding of stored ranges, \<open>VersionAffected\<close> against the evaluation the OSV schema prescribes,
      fix advice (\<open>fixed_for_version.go\<close>) and the import-time shape rule (\<open>range_shape.go\<close>).
    \<^item> \<open>Domain\<close>, \<open>Lifecycle\<close>, \<open>Collection\<close>, \<open>PackageNames\<close>: \<open>internal/domain\<close> (severities, blocking, merging,
      summaries), \<open>internal/lifecycle\<close> (cycle matching, end-of-life policy),
      \<open>internal/scanner/package_collector.go\<close> (the inventory of a scan and its index) and
      \<open>internal/packageid\<close> (canonical names).
    \<^item> \<open>AuditLog\<close>: \<open>internal/db/audit_integrity.go\<close>, digests and their verification.
    \<^item> \<open>DevStore\<close>, \<open>RefreshQueue\<close>, \<open>FindingStore\<close>, \<open>AdminStore\<close>, \<open>ScanLogs\<close>: the in-memory implementation of the
      store interface, \<open>internal/devstore\<close>, with the row types and rules of \<open>internal/db\<close>. \<open>WholeStore\<close>: all its
      operations interleaved (\<open>store_step\<close>), with frame locales that say which tables an operation leaves
      alone.
    \<^item> \<open>FeedManager\<close>: \<open>internal/feed/manager.go\<close>, \<open>status.go\<close>, \<open>feed.go\<close>, \<open>health.go\<close>: a run of a feed with its
      retries, the status row it leaves, and the health drawn from the rows. The locale \<open>status_store\<close> is
      the contract of the store it writes to.
    \<^item> \<open>QueueWorkers\<close>: \<open>internal/feed/queue.go\<close>, \<open>refresh_completion.go\<close>: the supervisor of the workers.
    \<^item> \<open>Sessions\<close>, \<open>AdminLogin\<close>: \<open>internal/auth\<close>, \<open>internal/server/middleware/session.go\<close> and the sign-in, lockout,
      form gate and password change of \<open>internal/api/admin\<close>.
    \<^item> \<open>ApiAuth\<close>: \<open>internal/server/middleware/auth.go\<close>: the API-key gate and its asynchronous last-used
      updater.
    \<^item> \<open>CheckApi\<close>: \<open>POST /api/v1/check\<close> of \<open>internal/api/v1/handler.go\<close> and \<open>check_response_cache.go\<close>: the server's
      side of a scan, with idempotency keys and the cache of responses.
    \<^item> \<open>ScanRun\<close>: \<open>internal/scanner/scanner.go\<close>: the client's side, from the inventory of \<open>Collection\<close> to the exit
      code. The network is a record of operations over a world of its own; with \<open>CheckApi\<close> as
      that world the two sides are composed.

  \<^bold>\<open>What the theorems show.\<close>
    \<^item> Versions and advisories: every comparator is a total preorder; on well-formed semantic versions it is the
      specified one; an advisory affects a version exactly when the OSV evaluation says so, and a version
      is cleared only on evidence; advice never names a fix of a range the version cannot be in.
    \<^item> The store: the tables stay consistent over every interleaving; every page of the audit log verifies
      and a tampered row shows; audited operations are all or nothing; a synchronised database converges;
      a revoked key is never accepted again at the gate of the API; concurrent editors lose no update.
    \<^item> The queue: a worker drains it in order, reported positions are turns, a claim taken back completes
      nothing, no two active jobs coincide; the supervisor accounts for every worker, restarts each a bounded
      number of times and returns once its context has ended.
    \<^item> Feeds: whatever a syncer does, a run ends in a final status that says what happened and keeps the evidence
      of the last good one; an overall verdict of healthy means that data is fresh.
    \<^item> Administration: the guard of the admin routes accepts exactly the sessions the history of logins and
      logouts leaves alive; a login needs the password; the lockout bounds the guesses per quarter of an hour; a
      changed password ends every other session; no accepted last-used update is lost before shutdown.
    \<^item> Scans: the inventory is the merge of what the parsers delivered, the same for every order of
      duplicates, and outside Go loses no production dependency. The batches of a remote check cover every
      package once; the server's answer holds exactly what its store knows; an idempotency key stands for
      one request and the cache serves only what was last stored under it; a passing exit code
      means a complete check; and, end to end, a package the server knows as malicious never passes.

  \<^bold>\<open>Bounds and fuel.\<close> No definition runs on fuel. Loops whose recursion is not structural are \<open>function\<close>s with
  a measure: the retry loop of a feed ends after \<open>maxAttempts\<close>, the batches of a remote check consume
  the packages, the text scanners their input. Numbers below \<open>2 ^ 63\<close> are a hypothesis of the refinement to SemVer, because larger ones wrap; a lemma
  shows that they do. The termination of the supervisor is a weight that every step decreases
  while only its own goroutines and restarts, at most three per worker, are left.

  \<^bold>\<open>Not modelled\<close>, and why.
    \<^item> The PostgreSQL and SQLite stores: their behaviour is that of SQL a database executes. The in-memory
      store implements the same interface.
    \<^item> Parsing of lock files and of SBOM documents (TOML, YAML, XML and many ad hoc formats): their results are the inputs
      of the collection.
    \<^item> The feed clients: downloads and decoding of external formats; what they deliver is an argument of the
      imports and of a run.
    \<^item> Command line, server process, web pages, configuration, telemetry: terminal, network, templates, files
      and environment around the modelled operations. Of the HTTP handlers the gates, sign-in, the
      password change and the check of packages are modelled; most others forward one request to one
      store operation.
    \<^item> Around a scan: parsing of URLs, set-up of TLS, decoding of a response and the lookups of the local
      database, which are operations of the records \<open>RemoteOps\<close> and \<open>LocalChecker\<close>, and the report writers.
    \<^item> Rate limits and CVSS scores (floating point), and redirect targets (\<open>net/url\<close>).
\<close>

section \<open>Version order\<close>

text \<open>
  C1: Whatever range type and ecosystem select the comparator, \<open>Compare\<close> is a total preorder in
  Go's three-way form: it answers \<open>-1\<close>, \<open>0\<close> or \<open>1\<close>, swapping its arguments negates the answer, and it is
  transitive.
\<close>

theorem Compare_total_preorder:
  "Compare a b t eco \<in> {-1, 0, 1} \<and> Compare b a t eco = - Compare a b t eco \<and>
   (Compare a b t eco \<le> 0 \<longrightarrow> Compare b c t eco \<le> 0 \<longrightarrow> Compare a c t eco \<le> 0)"
  using vcmp.cmp_range vcmp.cmp_swap vcmp.cmp_le_trans by blast

theorem Compare_total_preorder_witness:
  "Compare ''1.0.0-rc.1'' ''1.0.0'' ''SEMVER'' ''npm'' = -1 \<and>
   Compare ''1.0.0'' ''v1.2'' ''SEMVER'' ''npm'' = -1 \<and>
   Compare ''1.0.0-rc.1'' ''v1.2'' ''SEMVER'' ''npm'' \<le> 0"
proof -
  have 1: "Compare ''1.0.0-rc.1'' ''1.0.0'' ''SEMVER'' ''npm'' = -1" by code_simp
  have 2: "Compare ''1.0.0'' ''v1.2'' ''SEMVER'' ''npm'' = -1" by code_simp
  show ?thesis
    using 1 2 Compare_total_preorder [of "''1.0.0-rc.1''" "''1.0.0''" "''SEMVER''" "''npm''" "''v1.2''"]
    by simp
qed

section \<open>The store over every interleaving\<close>

text \<open>
  A run that touches every component: a finding is imported, a refresh is queued and claimed, a key is
  created under an audit row, and a scan is recorded.
\<close>

definition example_run :: Store where
  "example_run =
     snd (InsertScanLog example_scan
       (snd (CreateAPIKeyWithAudit example_devenv 9 ''ci'' ''hash'' None (Some (example_entry ''api_key_created''))
         (snd (DequeueRefresh 8 [] (snd (EnqueueRefresh 5 (job_for ''a'' 1) one_finding)))))))"

lemma example_run_reached: "(store_step example_devenv)\<^sup>*\<^sup>* NewStore example_run"
proof -
  let ?s = "store_step example_devenv"
  have "?s NewStore one_finding"
    unfolding one_finding_def by (intro store_step.finding finding_step.upsert_malicious)
  moreover have "?s st (snd (EnqueueRefresh 5 (job_for ''a'' 1) st))" for st
    by (intro store_step.queue queue_step.enqueue)
  moreover have "?s st (snd (DequeueRefresh 8 [] st))" for st
    by (intro store_step.queue queue_step.dequeue)
  moreover have "?s st (snd (CreateAPIKeyWithAudit example_devenv 9 n h ex a st))" for st n h ex a
    by (intro store_step.admin admin_step.create_audited)
  moreover have "?s st (snd (InsertScanLog example_scan st))" for st
    by (intro store_step.scan scan_step.insert)
  ultimately show ?thesis
    unfolding example_run_def by (meson converse_rtranclp_into_rtranclp rtranclp.rtrancl_refl)
qed

text \<open>
  C2: However the operations of the queue, the advisories, the administration and the scan log
  interleave on one store, its tables stay consistent: job numbers ascend and every job has a
  known status; every advisory is stored under its own identifier with canonical package names; no
  malicious finding is live and withdrawn at once; no two scans share an idempotency key; and
  the numbers of the API keys ascend.
\<close>

theorem store_invariant:
  assumes "(store_step env)\<^sup>*\<^sup>* NewStore st"
  shows "sorted_wrt (<) (map rj_ID (refreshJobs st)) \<and>
    list_all (\<lambda>j. rj_ID j \<le> nextJobID st \<and> rj_Status j \<in> set refreshStatuses) (refreshJobs st) \<and>
    (\<forall>k v. map_of (vulnerable st) k = Some v \<longrightarrow> k = v_ID v \<and>
        list_all (\<lambda>p. NormalizeName (ap_Ecosystem p) (ap_Name p) = ap_Name p) (v_AffectedPackages v)) \<and>
    (\<forall>k m. map_of (malicious st) k = Some m \<longrightarrow> k = mf_ID m \<and> NormalizeName (mf_Ecosystem m) (mf_Name m) = mf_Name m) \<and>
    dom (map_of (malicious st)) \<inter> dom (map_of (maliciousDel st)) = {} \<and>
    distinct (filter (\<lambda>k. k \<noteq> []) (map sl_IdempotencyKey (scanLogs st))) \<and>
    sorted_wrt (<) (map ak_ID (apiKeys st))"
proof -
  note ok = store_okD [OF store_steps_ok [OF assms]]
  note rows = tables_okD [OF ok(2)]
  have "sorted_wrt (<) (map rj_ID (refreshJobs st))"
    "list_all (\<lambda>j. rj_ID j \<le> nextJobID st \<and> rj_Status j \<in> set refreshStatuses) (refreshJobs st)"
    using ok(1) by (auto simp: queue_ok_def list_all_iff)
  moreover have "\<forall>k v. map_of (vulnerable st) k = Some v \<longrightarrow> k = v_ID v \<and>
      list_all (\<lambda>p. NormalizeName (ap_Ecosystem p) (ap_Name p) = ap_Name p) (v_AffectedPackages v)"
    using rows_okD [OF rows(1)] unfolding vulnerability_ok_def by blast
  moreover have "\<forall>k m. map_of (malicious st) k = Some m \<longrightarrow> k = mf_ID m \<and> NormalizeName (mf_Ecosystem m) (mf_Name m) = mf_Name m"
    using rows_okD [OF rows(2)] unfolding malicious_ok_def by blast
  moreover have "distinct (filter (\<lambda>k. k \<noteq> []) (map sl_IdempotencyKey (scanLogs st)))"
    using ok(4) by (simp only: scans_ok_def scan_keys_def)
  moreover have "sorted_wrt (<) (map ak_ID (apiKeys st))" using ok(5) by (simp only: keys_ok_def)
  ultimately show ?thesis using tables_ok_disjoint [OF ok(2)] by (intro conjI)
qed

theorem store_invariant_witness:
  "map fst (malicious example_run) = [''MAL-1''] \<and> map rj_Status (refreshJobs example_run) = [RefreshStatusProcessing] \<and>
   dom (map_of (malicious example_run)) \<inter> dom (map_of (maliciousDel example_run)) = {}"
proof -
  have "map fst (malicious example_run) = [''MAL-1'']" by code_simp
  moreover have "map rj_Status (refreshJobs example_run) = [RefreshStatusProcessing]" by code_simp
  ultimately show ?thesis using store_invariant [OF example_run_reached] by (elim conjE) (intro conjI)
qed



text \<open>
  Once an API key of a reached store was revoked, no sequence of operations of any component, key
  creation and deletion included, makes the store find a key under that number again.
\<close>

lemma revoked_key_stays_dead:
  assumes "(store_step env)\<^sup>*\<^sup>* NewStore st0" and "RevokeAPIKey now keyID st0 = (Ok (), st)"
    and "(store_step env)\<^sup>*\<^sup>* st st'" and "FindAPIKeyByHash later hash st' = Some key"
  shows "ak_ID key \<noteq> keyID"
proof -
  have "retired keyID st" using RevokeAPIKey_retires [OF assms(2)] store_okD(5) [OF store_steps_ok [OF assms(1)]] .
  from store_steps_retired [OF assms(3) this] show ?thesis using retired_not_found assms(4) by blast
qed

text \<open>
  C17: Revocation is final: once an API key of a reached store was revoked, no sequence of operations of
  any component, key creation and deletion included, lets the gate of the API serve a request under
  that key's number again, whatever token the request carries and whatever hash the gate uses.
\<close>

theorem revoked_key_locked_out:
  assumes "(store_step env)\<^sup>*\<^sup>* NewStore st0" and "RevokeAPIKey now keyID st0 = (Ok (), st)" and "(store_step env)\<^sup>*\<^sup>* st st'"
  shows "AuthWithLastUsedUpdater hashToken (dev_lookup t st') devMode t' r \<noteq> Authenticated keyID name"
proof
  assume "AuthWithLastUsedUpdater hashToken (dev_lookup t st') devMode t' r = Authenticated keyID name"
  then obtain key where "FindAPIKeyByHash t (hashToken (extractBearerToken (ar_Authorization r))) st' = Some key" "ak_ID key = keyID"
    using gate_authenticated by blast
  then show False using revoked_key_stays_dead [OF assms] by blast
qed

definition two_keys :: Store where
  "two_keys = snd (CreateAPIKey 2 ''b'' ''h'' None (snd (CreateAPIKey 1 ''a'' ''h'' None NewStore)))"

definition api_call :: ApiRequest where
  "api_call = \<lparr>ar_Method = ''POST'', ar_Path = ''/api/v1/scan'', ar_Authorization = ''Bearer h'', ar_Loopback = False\<rparr>"

theorem revoked_key_locked_out_witness:
  "AuthWithLastUsedUpdater id (dev_lookup 9 two_keys) False 9 api_call = Authenticated 1 ''a'' \<and>
   AuthWithLastUsedUpdater id (dev_lookup 9 (snd (TouchAPIKeyLastUsed 6 1 (snd (RevokeAPIKey 5 1 two_keys))))) False 9 api_call \<noteq>
     Authenticated 1 ''a''"
proof -
  let ?st = "snd (RevokeAPIKey 5 1 two_keys)" and ?st' = "snd (TouchAPIKeyLastUsed 6 1 (snd (RevokeAPIKey 5 1 two_keys)))"
  have "fst (RevokeAPIKey 5 1 two_keys) = Ok ()" by code_simp
  then have r: "RevokeAPIKey 5 1 two_keys = (Ok (), ?st)" by (simp add: prod_eq_iff)
  have "store_step example_devenv st (snd (CreateAPIKey now n h ex st))" for st now n h ex
    by (intro store_step.admin admin_step.create)
  then have start: "(store_step example_devenv)\<^sup>*\<^sup>* NewStore two_keys"
    unfolding two_keys_def by (meson converse_rtranclp_into_rtranclp rtranclp.rtrancl_refl)
  have "(store_step example_devenv)\<^sup>*\<^sup>* ?st ?st'"
    by (rule r_into_rtranclp) (intro store_step.admin admin_step.touch)
  from revoked_key_locked_out [OF start r this]
  have "AuthWithLastUsedUpdater id (dev_lookup 9 ?st') False 9 api_call \<noteq> Authenticated 1 ''a''" .
  moreover have "AuthWithLastUsedUpdater id (dev_lookup 9 two_keys) False 9 api_call = Authenticated 1 ''a''" by code_simp
  ultimately show ?thesis by (intro conjI)
qed

end
